(* ===== verification/Prelude.thy ===== *)
theory Prelude
  imports Main "HOL-Library.Word"
begin

text \<open>
  Shared vocabulary of the development: C characters and strings, the few functions of the C
  library the server calls on them (\<open>tolower\<close>, \<open>isspace\<close>, \<open>strcasecmp\<close>, \<open>strncasecmp\<close>,
  \<open>strchr\<close>, \<open>strpbrk\<close>, \<open>atoi\<close>, \<open>atol\<close>, the \<open>%d\<close> conversion of \<open>printf\<close>), and the generic
  list lemmas the components share.

  A C string is the \<open>char list\<close> of its bytes before the terminating NUL, so \<open>strlen\<close> is
  \<open>length\<close> and \<open>*s == 0\<close> is \<open>s = []\<close>.  A pointer that may be NULL is an \<open>option\<close>.  The server
  never calls \<open>setlocale\<close>, so the character classes are those of the C locale: only the bytes
  65..90 have a different lower case.
\<close>

named_theorems out_simps \<open>projections of the state that output does not change\<close>
named_theorems handler_defs \<open>definitions of the message handlers\<close>

section \<open>Characters\<close>

abbreviation code :: "char \<Rightarrow> nat" where
  "code c \<equiv> of_char c"

definition schar :: "char \<Rightarrow> int" where
  "schar c = (if code c < 128 then int (code c) else int (code c) - 256)"

definition c_tolower :: "char \<Rightarrow> char" where
  "c_tolower c = (if 65 \<le> code c \<and> code c \<le> 90 then char_of (code c + 32) else c)"

definition c_isspace :: "char \<Rightarrow> bool" where
  "c_isspace c \<longleftrightarrow> code c = 32 \<or> (9 \<le> code c \<and> code c \<le> 13)"

definition c_isdigit :: "char \<Rightarrow> bool" where
  "c_isdigit c \<longleftrightarrow> 48 \<le> code c \<and> code c \<le> 57"

lemma code_less_256 [simp]: "code c < 256"
  by (metis char_of_char of_char_of mod_less_divisor zero_less_numeral)

lemma char_eq_code_iff: "c = d \<longleftrightarrow> code c = code d"
  by (metis char_of_char)

lemma code_tolower:
  "code (c_tolower c) = (if 65 \<le> code c \<and> code c \<le> 90 then code c + 32 else code c)"
  by (simp add: c_tolower_def)

lemma c_tolower_idem [simp]: "c_tolower (c_tolower c) = c_tolower c"
  by (simp add: char_eq_code_iff code_tolower)

lemma c_tolower_isspace [simp]: "c_isspace (c_tolower c) = c_isspace c"
  by (auto simp: c_isspace_def code_tolower)

text \<open>Evaluation of characters given by their code.\<close>

lemmas char_eval = c_tolower_def c_isspace_def c_isdigit_def schar_def char_of_def bit_Suc_0_iff

section \<open>Case-insensitive comparison\<close>

definition lower :: "string \<Rightarrow> string" where
  "lower s = map c_tolower s"

definition strcaseeq :: "string \<Rightarrow> string \<Rightarrow> bool" where
  "strcaseeq a b \<longleftrightarrow> lower a = lower b"

definition strncaseeq :: "string \<Rightarrow> string \<Rightarrow> nat \<Rightarrow> bool" where
  "strncaseeq a b n \<longleftrightarrow> take n (lower a) = take n (lower b)"

lemma lower_simps [simp]:
  "lower [] = []"
  "lower (c # s) = c_tolower c # lower s"
  "lower (a @ b) = lower a @ lower b"
  "length (lower s) = length s"
  "lower (lower s) = lower s"
  "lower s = [] \<longleftrightarrow> s = []"
  by (simp_all add: lower_def)

lemma strcaseeq_refl [simp]: "strcaseeq s s"
  by (simp add: strcaseeq_def)

lemma strcaseeq_sym: "strcaseeq a b \<Longrightarrow> strcaseeq b a"
  by (simp add: strcaseeq_def)

lemma strcaseeq_commute: "strcaseeq a b \<longleftrightarrow> strcaseeq b a"
  by (auto simp: strcaseeq_def)

lemma strcaseeq_trans: "strcaseeq a b \<Longrightarrow> strcaseeq b c \<Longrightarrow> strcaseeq a c"
  by (simp add: strcaseeq_def)

section \<open>Searching a string\<close>

text \<open>
  \<open>strchr\<close> and \<open>strpbrk\<close> return a pointer into the string; the callers write a NUL there and go on
  behind it.  \<open>break_at P s\<close> is the text before the first character in \<open>P\<close>, and what follows that
  character, or \<open>None\<close> (the NULL pointer) when there is none.
\<close>

fun break_at :: "(char \<Rightarrow> bool) \<Rightarrow> string \<Rightarrow> string \<times> string option" where
  "break_at P [] = ([], None)"
| "break_at P (c # s) =
     (if P c then ([], Some s) else (case break_at P s of (w, r) \<Rightarrow> (c # w, r)))"

lemma break_at_None: "\<forall>c \<in> set s. \<not> P c \<Longrightarrow> break_at P s = (s, None)"
  by (induction s) auto

lemma break_at_Some: "\<forall>c \<in> set w. \<not> P c \<Longrightarrow> P c \<Longrightarrow> break_at P (w @ c # r) = (w, Some r)"
  by (induction w) auto

lemma break_at_length: "break_at P s = (w, Some r) \<Longrightarrow> length w + length r < length s"
  by (induction s arbitrary: w) (auto split: if_splits prod.splits)

lemma break_at_set: "break_at P s = (w, r) \<Longrightarrow> \<forall>c \<in> set w. \<not> P c"
  by (induction s arbitrary: w) (auto split: if_splits prod.splits)

lemma break_at_append:
  "break_at P s = (w, r) \<Longrightarrow> (case r of None \<Rightarrow> s = w | Some t \<Rightarrow> \<exists>c. P c \<and> s = w @ c # t)"
  by (induction s arbitrary: w) (auto split: if_splits prod.splits option.splits)

abbreviation skip_space :: "string \<Rightarrow> string" where
  "skip_space s \<equiv> dropWhile c_isspace s"

lemma length_skip_space: "length (skip_space s) \<le> length s"
  by (simp add: length_dropWhile_le)

section \<open>Numbers in text\<close>

definition digit_char :: "nat \<Rightarrow> char" where
  "digit_char n = char_of (48 + n)"

function nat_dec :: "nat \<Rightarrow> string" where
  "nat_dec n = (if n < 10 then [digit_char n] else nat_dec (n div 10) @ [digit_char (n mod 10)])"
  by pat_completeness auto
termination by (relation "measure id") auto

declare nat_dec.simps [simp del]

definition int_dec :: "int \<Rightarrow> string" where
  "int_dec i = (if i < 0 then CHR ''-'' # nat_dec (nat (- i)) else nat_dec (nat i))"

definition digits_val :: "string \<Rightarrow> nat" where
  "digits_val s = foldl (\<lambda>n c. 10 * n + (code c - 48)) 0 s"

definition strtol10 :: "string \<Rightarrow> int" where
  "strtol10 s =
     (let s = skip_space s;
          neg = (s \<noteq> [] \<and> hd s = CHR ''-'');
          s = (if s \<noteq> [] \<and> (hd s = CHR ''-'' \<or> hd s = CHR ''+'') then tl s else s);
          v = int (digits_val (takeWhile c_isdigit s))
      in max (- (2 ^ 63)) (min (2 ^ 63 - 1) (if neg then - v else v)))"

text \<open>
  \<open>atol\<close> is \<open>strtol(s,0,10)\<close>, which saturates at the bounds of a 64-bit \<open>long\<close>; \<open>atoi\<close> is its
  conversion to a 32-bit \<open>int\<close> (outside the \<open>int\<close> range C leaves the result open; this is what the
  C library of the supported platforms computes).
\<close>

definition atol :: "string \<Rightarrow> int" where
  "atol s = strtol10 s"

definition atoi :: "string \<Rightarrow> int" where
  "atoi s = sint (word_of_int (strtol10 s) :: 32 word)"

lemma c_isdigit_digit_char [simp]: "n < 10 \<Longrightarrow> c_isdigit (digit_char n)"
  by (simp add: c_isdigit_def digit_char_def)

lemma code_digit_char [simp]: "n < 10 \<Longrightarrow> code (digit_char n) = 48 + n"
  by (simp add: digit_char_def)

lemma nat_dec_not_Nil [simp]: "nat_dec n \<noteq> []"
  by (subst nat_dec.simps) simp

lemma nat_dec_digits: "c \<in> set (nat_dec n) \<Longrightarrow> c_isdigit c"
proof (induction n rule: nat_dec.induct)
  case (1 n)
  then show ?case by (subst (asm) nat_dec.simps) (auto split: if_splits)
qed

lemma digits_val_nat_dec [simp]: "digits_val (nat_dec n) = n"
proof (induction n rule: nat_dec.induct)
  case (1 n)
  then show ?case by (subst nat_dec.simps) (auto simp: digits_val_def)
qed

lemma digit_not_space: "c_isdigit c \<Longrightarrow> \<not> c_isspace c"
  by (auto simp: c_isdigit_def c_isspace_def)

lemma nat_dec_hd:
  "c_isdigit (hd (nat_dec n))" "hd (nat_dec n) \<noteq> CHR ''-''" "hd (nat_dec n) \<noteq> CHR ''+''"
proof -
  show d: "c_isdigit (hd (nat_dec n))"
    by (meson hd_in_set nat_dec_digits nat_dec_not_Nil)
  then show "hd (nat_dec n) \<noteq> CHR ''-''" "hd (nat_dec n) \<noteq> CHR ''+''"
    by (auto simp: c_isdigit_def)
qed

lemma takeWhile_digits_nat_dec [simp]: "takeWhile c_isdigit (nat_dec n) = nat_dec n"
  by (simp add: takeWhile_eq_all_conv nat_dec_digits)

lemma skip_space_nat_dec [simp]: "skip_space (nat_dec n) = nat_dec n"
  by (cases "nat_dec n") (use nat_dec_hd [of n] digit_not_space in auto)

lemma int_dec_not_space: "c \<in> set (int_dec i) \<Longrightarrow> \<not> c_isspace c"
  by (auto simp: int_dec_def c_isspace_def split: if_splits dest!: nat_dec_digits simp: c_isdigit_def)

lemma int_dec_not_Nil [simp]: "int_dec i \<noteq> []"
  by (simp add: int_dec_def)

lemma int_dec_chars: "c \<in> set (int_dec i) \<Longrightarrow> c = CHR ''-'' \<or> c_isdigit c"
  by (auto simp: int_dec_def split: if_splits dest: nat_dec_digits)

lemma strtol10_int_dec:
  assumes "- (2 ^ 63) \<le> i" "i < 2 ^ 63"
  shows "strtol10 (int_dec i) = i"
proof (cases "i < 0")
  case True
  then show ?thesis using assms
    by (simp add: strtol10_def int_dec_def c_isspace_def Let_def)
next
  case False
  then show ?thesis using assms nat_dec_hd [of "nat i"]
    by (simp add: strtol10_def int_dec_def Let_def)
qed

lemma atol_int_dec: "- (2 ^ 63) \<le> i \<Longrightarrow> i < 2 ^ 63 \<Longrightarrow> atol (int_dec i) = i"
  by (simp add: atol_def strtol10_int_dec)

lemma atoi_int_dec:
  assumes "- (2 ^ 31) \<le> i" "i < 2 ^ 31"
  shows "atoi (int_dec i) = i"
proof -
  have "strtol10 (int_dec i) = i" using assms by (intro strtol10_int_dec) auto
  then show ?thesis using assms
    by (simp add: atoi_def sint_sbintrunc' signed_take_bit_int_eq_self)
qed

text \<open>Conversion to a 32-bit \<open>int\<close>, and the width of its decimal form.\<close>

definition wrap32 :: "int \<Rightarrow> int" where
  "wrap32 i = sint (word_of_int i :: 32 word)"

lemma wrap32_range: "- (2 ^ 31) \<le> wrap32 i" "wrap32 i < 2 ^ 31"
  using sint_ge [of "word_of_int i :: 32 word"] sint_lt [of "word_of_int i :: 32 word"]
  by (simp_all add: wrap32_def)

lemma length_nat_dec: "n < 10 ^ Suc k \<Longrightarrow> length (nat_dec n) \<le> Suc k"
proof (induction k arbitrary: n)
  case (Suc k)
  show ?case
  proof (cases "n < 10")
    case False
    have "n div 10 < 10 ^ Suc k" using Suc.prems by (simp add: less_mult_imp_div_less)
    then show ?thesis using Suc.IH False by (subst nat_dec.simps) simp
  qed (subst nat_dec.simps, simp)
qed (subst nat_dec.simps, simp)

lemma length_int_dec32: "- (2 ^ 31) \<le> i \<Longrightarrow> i < 2 ^ 31 \<Longrightarrow> length (int_dec i) \<le> 11"
proof -
  assume "- (2 ^ 31) \<le> i" "i < 2 ^ 31"
  then have "nat (- i) < 10 ^ Suc 9" "nat i < 10 ^ Suc 9" by (auto simp: nat_less_iff)
  then show ?thesis using length_nat_dec [of _ 9] by (fastforce simp: int_dec_def)
qed

section \<open>Bounded buffers\<close>

text \<open>\<open>snprintf (buf, n, ...)\<close> keeps at most \<open>n - 1\<close> bytes before the NUL.\<close>

definition snprintf_to :: "nat \<Rightarrow> string \<Rightarrow> string" where
  "snprintf_to n s = (if length s < n then s else take (n - 1) s)"

lemma length_snprintf_to: "0 < n \<Longrightarrow> length (snprintf_to n s) < n"
  by (simp add: snprintf_to_def)

lemma snprintf_to_id [simp]: "length s < n \<Longrightarrow> snprintf_to n s = s"
  by (simp add: snprintf_to_def)

section \<open>Loops over lists\<close>

lemma fold_invariant_all: "P s \<Longrightarrow> (\<And>x s. P s \<Longrightarrow> P (f x s)) \<Longrightarrow> P (fold f xs s)"
  by (induction xs arbitrary: s) auto

lemma fold_frame: "(\<And>x s. g (f x s) = g s) \<Longrightarrow> g (fold f xs s) = g s"
  by (induction xs arbitrary: s) auto

lemma find_Some_in: "find P xs = Some x \<Longrightarrow> x \<in> set xs \<and> P x"
  by (induction xs) (auto split: if_splits)

end
