(* ===== verification/Glob.thy ===== *)
theory Glob
  imports Prelude
begin

text \<open>
  The pattern matcher of \<open>src/glob.c\<close>, which decides server bans and channel bans.  The matcher
  walks both strings; at a \<open>*\<close> it skips the whole run of \<open>*\<close> and \<open>?\<close>, and then tries the occurrences
  of the next pattern character from the end of the text backwards.  \<open>glob_spec\<close> says which pairs
  match without any search order; the two agree, so the backtracking neither misses a match nor
  invents one.
\<close>

section \<open>The matcher\<close>

definition is_wild :: "char \<Rightarrow> bool" where
  "is_wild c \<longleftrightarrow> c = CHR ''*'' \<or> c = CHR ''?''"

text \<open>
  \<open>glob_star q qs s n\<close> is the inner \<open>for (;;)\<close> loop with \<open>ptr = s + n\<close> and \<open>*pattern = q\<close>: it moves
  \<open>ptr\<close> down until the character before it is \<open>q\<close>, recurs behind that character, and goes on
  downwards when the recursion fails.
\<close>

function (sequential) glob_match :: "string \<Rightarrow> string \<Rightarrow> bool"
  and glob_star :: "char \<Rightarrow> string \<Rightarrow> string \<Rightarrow> nat \<Rightarrow> bool" where
  "glob_match [] s = (s = [])"
| "glob_match (c # p) [] = False"
| "glob_match (c # p) (d # s) =
     (if c = CHR ''*'' then
        (case dropWhile is_wild p of
           [] \<Rightarrow> True
         | q # qs \<Rightarrow> glob_star q qs (d # s) (length (d # s)))
      else if c = CHR ''?'' \<or> c_tolower c = c_tolower d then glob_match p s
      else False)"
| "glob_star q qs s 0 = False"
| "glob_star q qs s (Suc n) =
     (if c_tolower (s ! n) \<noteq> c_tolower q then glob_star q qs s n
      else if glob_match qs (drop (Suc n) s) then True
      else glob_star q qs s n)"
  by pat_completeness auto
termination
proof (relation "measures [\<lambda>x. case x of Inl (p, s) \<Rightarrow> 2 * length p
                             | Inr (q, qs, s, n) \<Rightarrow> Suc (2 * length qs),
                           \<lambda>x. case x of Inl (p, s) \<Rightarrow> 0 | Inr (q, qs, s, n) \<Rightarrow> n]",
       goal_cases)
  case (2 c p d s q qs)
  then have "length (q # qs) \<le> length p"
    by (metis length_dropWhile_le)
  then show ?case by simp
qed auto

section \<open>What a match is\<close>

inductive glob_spec :: "string \<Rightarrow> string \<Rightarrow> bool" where
  nil: "glob_spec [] []"
| any_one: "glob_spec p s \<Longrightarrow> glob_spec (CHR ''?'' # p) (d # s)"
| literal: "\<not> is_wild c \<Longrightarrow> c_tolower c = c_tolower d \<Longrightarrow> glob_spec p s \<Longrightarrow> glob_spec (c # p) (d # s)"
| star_end: "\<forall>c \<in> set w. is_wild c \<Longrightarrow> s \<noteq> [] \<Longrightarrow> glob_spec (CHR ''*'' # w) s"
| star: "\<forall>c \<in> set w. is_wild c \<Longrightarrow> \<not> is_wild q \<Longrightarrow> c_tolower q = c_tolower d \<Longrightarrow> glob_spec p s \<Longrightarrow>
    glob_spec (CHR ''*'' # w @ q # p) (t @ d # s)"

inductive_simps glob_spec_Nil [simp]: "glob_spec [] s"
inductive_cases glob_spec_ConsE: "glob_spec (c # p) s"

lemma is_wild_simps [simp]: "is_wild CHR ''*''" "is_wild CHR ''?''"
  by (simp_all add: is_wild_def)

lemma is_wild_tolower [simp]: "is_wild (c_tolower c) = is_wild c"
  by (auto simp: is_wild_def char_eq_code_iff code_tolower)

lemma glob_spec_Cons_Nil: "\<not> glob_spec (c # p) []"
  by (auto elim: glob_spec_ConsE)

lemma glob_star_iff:
  "n \<le> length s \<Longrightarrow>
   glob_star q qs s n \<longleftrightarrow> (\<exists>i < n. c_tolower (s ! i) = c_tolower q \<and> glob_match qs (drop (Suc i) s))"
  by (induction n) (auto simp: less_Suc_eq)

lemma split_at_iff:
  "(\<exists>i < length s. P (s ! i) (drop (Suc i) s)) \<longleftrightarrow> (\<exists>t d r. s = t @ d # r \<and> P d r)"
proof
  assume "\<exists>i < length s. P (s ! i) (drop (Suc i) s)"
  then show "\<exists>t d r. s = t @ d # r \<and> P d r" using id_take_nth_drop by blast
next
  assume "\<exists>t d r. s = t @ d # r \<and> P d r"
  then obtain t d r where "s = t @ d # r" "P d r" by blast
  then show "\<exists>i < length s. P (s ! i) (drop (Suc i) s)"
    by (intro exI [of _ "length t"]) simp
qed

lemma dropWhile_wild_split:
  "dropWhile is_wild p = q # qs \<Longrightarrow> p = takeWhile is_wild p @ q # qs \<and> \<not> is_wild q"
  by (metis hd_dropWhile list.distinct(1) list.sel(1) takeWhile_dropWhile_id)

lemma wild_prefix_unique:
  "\<forall>c \<in> set w. is_wild c \<Longrightarrow> \<not> is_wild q \<Longrightarrow> dropWhile is_wild (w @ q # p) = q # p"
  by (induction w) auto

lemma glob_spec_star_iff:
  "glob_spec (CHR ''*'' # p) s \<longleftrightarrow>
     (case dropWhile is_wild p of
        [] \<Rightarrow> s \<noteq> []
      | q # qs \<Rightarrow> \<exists>t d r. s = t @ d # r \<and> c_tolower d = c_tolower q \<and> glob_spec qs r)"
    (is "?L \<longleftrightarrow> ?R")
proof
  assume ?L
  then show ?R
  proof (cases rule: glob_spec.cases)
    case star_end
    then have nil: "dropWhile is_wild p = []" by (simp add: dropWhile_eq_Nil_conv)
    show ?thesis unfolding nil using star_end by simp
  next
    case (star w q d p' r t)
    then have "dropWhile is_wild p = q # p'" by (simp add: wild_prefix_unique)
    with star show ?thesis by auto
  qed (auto simp: is_wild_def c_tolower_def)
next
  assume R: ?R
  show ?L
  proof (cases "dropWhile is_wild p")
    case Nil
    then have "\<forall>c \<in> set p. is_wild c" by (simp add: dropWhile_eq_Nil_conv)
    moreover have "s \<noteq> []" using R unfolding Nil by simp
    ultimately show ?thesis by (rule glob_spec.star_end)
  next
    case (Cons q qs)
    then obtain w where p: "p = w @ q # qs" "\<not> is_wild q" "\<forall>c \<in> set w. is_wild c"
      by (metis dropWhile_wild_split set_takeWhileD)
    from R Cons obtain t d r where "s = t @ d # r" "c_tolower d = c_tolower q" "glob_spec qs r"
      by auto
    then show ?thesis using p glob_spec.star [of w q d qs r t] by simp
  qed
qed

lemma glob_match_spec_aux:
  "glob_match p s \<longleftrightarrow> glob_spec p s"
  "n \<le> length s \<Longrightarrow> glob_star q qs s n \<longleftrightarrow>
     (\<exists>i < n. c_tolower (s ! i) = c_tolower q \<and> glob_spec qs (drop (Suc i) s))"
proof (induction p s and q qs s n rule: glob_match_glob_star.induct)
  case (3 c p d s)
  show ?case
  proof (cases "c = CHR ''*''")
    case True
    show ?thesis
    proof (cases "dropWhile is_wild p")
      case Nil
      with True show ?thesis
        using glob_spec_star_iff [of p "d # s"] by (simp del: dropWhile_eq_Nil_conv)
    next
      case (Cons q qs)
      then have "glob_match (c # p) (d # s) \<longleftrightarrow> (\<exists>i < length (d # s).
          c_tolower ((d # s) ! i) = c_tolower q \<and> glob_spec qs (drop (Suc i) (d # s)))"
        using True 3(1) [OF True Cons order_refl] by simp
      also have "\<dots> \<longleftrightarrow> (\<exists>t e r. d # s = t @ e # r \<and> c_tolower e = c_tolower q \<and> glob_spec qs r)"
        by (rule split_at_iff)
      finally show ?thesis using True Cons by (simp add: glob_spec_star_iff)
    qed
  next
    case False
    then show ?thesis using 3(2)
      by (cases "c = CHR ''?''")
        (auto elim!: glob_spec_ConsE intro: glob_spec.any_one glob_spec.literal simp: is_wild_def)
  qed
qed (auto simp: glob_spec_Cons_Nil less_Suc_eq)


section \<open>Consequences used by the ban code\<close>

lemma glob_match_literal:
  "\<forall>c \<in> set p. \<not> is_wild c \<Longrightarrow> lower p = lower p' \<Longrightarrow>
   glob_match (p @ q) (p' @ s) = glob_match q s"
proof (induction p arbitrary: p')
  case (Cons c p)
  from Cons.prems(2) obtain d r where "p' = d # r" "c_tolower c = c_tolower d" "lower p = lower r"
    by (cases p') auto
  moreover have "c \<noteq> CHR ''*''" using Cons.prems(1) by auto
  ultimately show ?case using Cons.IH [of r] Cons.prems(1) by simp
qed (metis append_Nil lower_simps(6))

lemma glob_match_star_end: "s \<noteq> [] \<Longrightarrow> glob_match ''*'' s"
  by (cases s) auto

lemma glob_match_literal_prefix:
  "\<forall>c \<in> set p. \<not> is_wild c \<Longrightarrow> glob_match (p @ q) s \<Longrightarrow>
   length p \<le> length s \<and> lower p = lower (take (length p) s) \<and> glob_match q (drop (length p) s)"
proof (induction p arbitrary: s)
  case (Cons c p)
  show ?case
  proof (cases s)
    case Nil
    then show ?thesis using Cons.prems by simp
  next
    case (Cons d s')
    have c: "c \<noteq> CHR ''*''" "c \<noteq> CHR ''?''" using Cons.prems(1) by (auto simp: is_wild_def)
    with Cons Cons.prems(2) have "c_tolower c = c_tolower d" "glob_match (p @ q) s'"
      by (auto split: if_splits)
    then show ?thesis using Cons.IH [of s'] Cons.prems(1) Cons by simp
  qed
qed simp

end
