(* ===== verification/CHash.thy ===== *)
theory CHash
  imports Prelude
begin

unbundle bit_operations_syntax

text \<open>
  The hash table of \<open>src/hash.c\<close> and the word filter of \<open>src/filter.c\<close> that sits on it.  A
  \<open>HASH\<close> is a record of its buckets, each the list of its \<open>HASHENT\<close>s in link order.  The data of an
  entry is a pointer, so the table is polymorphic in it; the \<open>destroy\<close> callback is the business of
  the owner of the table, and \<open>hash_remove\<close> and \<open>free_hash\<close> return the data they hand to it.

  The locale \<open>ci_table\<close> is the contract the rest of the server relies on: to its clients a table
  is, for every key up to case, the stack of the data added under it.  It is interpreted on the
  model of \<open>hash.c\<close> at the end of the theory.
\<close>

section \<open>The table\<close>

record 'a htab =
  bucket :: "(string \<times> 'a) list list"
  dbsize :: nat

definition numbuckets :: "'a htab \<Rightarrow> nat" where
  "numbuckets h = length (bucket h)"

definition hash_init :: "nat \<Rightarrow> 'a htab" where
  "hash_init buckets = \<lparr>bucket = replicate buckets [], dbsize = 0\<rparr>"

text \<open>One round of the loop in \<open>hash_string\<close>; \<open>unsigned long\<close> is 64 bits wide and \<open>char\<close> signed.\<close>

definition hash_step :: "64 word \<Rightarrow> char \<Rightarrow> 64 word" where
  "hash_step h c =
     (let h = push_bit 4 h + word_of_int (schar (c_tolower c));
          g = h AND 0xF0000000;
          h = (if g \<noteq> 0 then h XOR drop_bit 24 g else h)
      in h AND NOT g)"

definition hash_string :: "nat \<Rightarrow> string \<Rightarrow> nat" where
  "hash_string n key = unat (foldl hash_step 0 key) mod n"

definition hash_add :: "'a htab \<Rightarrow> string \<Rightarrow> 'a \<Rightarrow> 'a htab" where
  "hash_add h key d =
     (let i = hash_string (numbuckets h) key
      in h\<lparr>bucket := (bucket h)[i := (key, d) # bucket h ! i], dbsize := Suc (dbsize h)\<rparr>)"

fun bucket_find :: "(string \<times> 'a) list \<Rightarrow> string \<Rightarrow> 'a option" where
  "bucket_find [] key = None"
| "bucket_find ((k, d) # es) key = (if strcaseeq key k then Some d else bucket_find es key)"

definition hash_lookup :: "'a htab \<Rightarrow> string \<Rightarrow> 'a option" where
  "hash_lookup h key = bucket_find (bucket h ! hash_string (numbuckets h) key) key"

fun bucket_unlink :: "(string \<times> 'a) list \<Rightarrow> string \<Rightarrow> (string \<times> 'a) list" where
  "bucket_unlink [] key = []"
| "bucket_unlink ((k, d) # es) key =
     (if strcaseeq key k then es else (k, d) # bucket_unlink es key)"

definition hash_remove :: "'a htab \<Rightarrow> string \<Rightarrow> 'a htab \<times> 'a option" where
  "hash_remove h key =
     (let i = hash_string (numbuckets h) key
      in case bucket_find (bucket h ! i) key of
           None \<Rightarrow> (h, None)
         | Some d \<Rightarrow>
             (h\<lparr>bucket := (bucket h)[i := bucket_unlink (bucket h ! i) key],
                dbsize := dbsize h - 1\<rparr>, Some d))"

definition free_hash :: "'a htab \<Rightarrow> 'a list" where
  "free_hash h = map snd (concat (bucket h))"

text \<open>
  \<open>hash_foreach\<close> saves the next entry before each call, so that the callback may remove the entry it
  is given; the entries visited are those of the table at the start of the walk.
\<close>

definition hash_foreach :: "'a htab \<Rightarrow> ('a \<Rightarrow> 's \<Rightarrow> 's) \<Rightarrow> 's \<Rightarrow> 's" where
  "hash_foreach h func s = fold func (map snd (concat (bucket h))) s"

section \<open>The contract of a case-insensitive table\<close>

locale ci_table =
  fixes lookup :: "'h \<Rightarrow> string \<Rightarrow> 'a option"
    and add :: "'h \<Rightarrow> string \<Rightarrow> 'a \<Rightarrow> 'h"
    and remove :: "'h \<Rightarrow> string \<Rightarrow> 'h \<times> 'a option"
    and stack :: "'h \<Rightarrow> string \<Rightarrow> 'a list"
    and invar :: "'h \<Rightarrow> bool"
  assumes lookup_stack: "invar h \<Longrightarrow> lookup h k = (case stack h k of [] \<Rightarrow> None | d # _ \<Rightarrow> Some d)"
    and stack_add: "invar h \<Longrightarrow>
      stack (add h k d) k' = (if strcaseeq k k' then d # stack h k' else stack h k')"
    and stack_remove: "invar h \<Longrightarrow>
      stack (fst (remove h k)) k' = (if strcaseeq k k' then tl (stack h k') else stack h k')"
    and remove_result: "invar h \<Longrightarrow> snd (remove h k) = lookup h k"
    and stack_cong: "invar h \<Longrightarrow> strcaseeq k k' \<Longrightarrow> stack h k = stack h k'"
    and invar_add: "invar h \<Longrightarrow> invar (add h k d)"
    and invar_remove: "invar h \<Longrightarrow> invar (fst (remove h k))"
begin

lemma lookup_Some_iff: "invar h \<Longrightarrow> lookup h k = Some d \<longleftrightarrow> (\<exists>ds. stack h k = d # ds)"
  by (simp add: lookup_stack split: list.splits)

lemma lookup_None_iff: "invar h \<Longrightarrow> lookup h k = None \<longleftrightarrow> stack h k = []"
  by (simp add: lookup_stack split: list.splits)

lemma lookup_cong: "invar h \<Longrightarrow> strcaseeq k k' \<Longrightarrow> lookup h k = lookup h k'"
  by (simp add: lookup_stack stack_cong)

lemma lookup_add:
  "invar h \<Longrightarrow> lookup (add h k d) k' = (if strcaseeq k k' then Some d else lookup h k')"
  by (simp add: lookup_stack invar_add stack_add)

lemma lookup_remove_other:
  "invar h \<Longrightarrow> \<not> strcaseeq k k' \<Longrightarrow> lookup (fst (remove h k)) k' = lookup h k'"
  by (simp add: lookup_stack invar_remove stack_remove)

lemma stack_remove_add: "invar h \<Longrightarrow> stack (fst (remove (add h k d) k)) k' = stack h k'"
  by (simp add: stack_remove invar_add stack_add)

lemma remove_add:
  "invar h \<Longrightarrow> lookup (fst (remove (add h k d) k)) k' = lookup h k' \<and> snd (remove (add h k d) k) = Some d"
  by (simp add: lookup_stack invar_add invar_remove stack_remove_add remove_result stack_add)

lemma lookup_in_stack: "invar h \<Longrightarrow> lookup h k = Some d \<Longrightarrow> d \<in> set (stack h k)"
  by (auto simp: lookup_Some_iff)

end

section \<open>\<open>hash.c\<close> meets the contract\<close>

definition hash_stack :: "'a htab \<Rightarrow> string \<Rightarrow> 'a list" where
  "hash_stack h key =
     map snd (filter (\<lambda>(k, d). strcaseeq key k) (bucket h ! hash_string (numbuckets h) key))"

definition hash_invar :: "'a htab \<Rightarrow> bool" where
  "hash_invar h \<longleftrightarrow>
     0 < numbuckets h \<and>
     (\<forall>i < numbuckets h. \<forall>(k, d) \<in> set (bucket h ! i). hash_string (numbuckets h) k = i) \<and>
     dbsize h = length (concat (bucket h))"

lemma hash_step_tolower: "hash_step h (c_tolower c) = hash_step h c"
  by (simp add: hash_step_def)

lemma foldl_hash_step_lower: "foldl hash_step h (lower k) = foldl hash_step h k"
  by (induction k arbitrary: h) (simp_all add: hash_step_tolower)

lemma hash_string_cong: "strcaseeq k k' \<Longrightarrow> hash_string n k = hash_string n k'"
  by (metis foldl_hash_step_lower hash_string_def strcaseeq_def)

lemma hash_string_less: "0 < n \<Longrightarrow> hash_string n k < n"
  by (simp add: hash_string_def)

lemma bucket_find_filter:
  "bucket_find es k = (case map snd (filter (\<lambda>(k', d). strcaseeq k k') es) of [] \<Rightarrow> None | d # _ \<Rightarrow> Some d)"
  by (induction es k rule: bucket_find.induct) auto

lemma filter_bucket_unlink:
  "map snd (filter (\<lambda>(k', d). strcaseeq k k') (bucket_unlink es k)) =
   tl (map snd (filter (\<lambda>(k', d). strcaseeq k k') es))"
  by (induction es k rule: bucket_unlink.induct) auto

lemma filter_bucket_unlink_other:
  "\<not> strcaseeq k k' \<Longrightarrow>
   filter (\<lambda>(x, d). strcaseeq k' x) (bucket_unlink es k) = filter (\<lambda>(x, d). strcaseeq k' x) es"
  by (induction es k rule: bucket_unlink.induct) (auto simp: strcaseeq_def)

lemma set_bucket_unlink: "set (bucket_unlink es k) \<subseteq> set es"
  by (induction es k rule: bucket_unlink.induct) auto

lemma length_bucket_unlink:
  "bucket_find es k = Some d \<Longrightarrow> Suc (length (bucket_unlink es k)) = length es"
  by (induction es k rule: bucket_unlink.induct) (auto split: if_splits)

lemma bucket_find_None_unlink: "bucket_find es k = None \<Longrightarrow> bucket_unlink es k = es"
  by (induction es k rule: bucket_unlink.induct) (auto split: if_splits)

lemma length_concat_update:
  "i < length xss \<Longrightarrow>
   length (concat (xss[i := ys])) + length (xss ! i) = length (concat xss) + length ys"
  by (induction xss arbitrary: i) (auto split: nat.splits)

lemma numbuckets_ops [simp]:
  "numbuckets (hash_add h k d) = numbuckets h"
  "numbuckets (fst (hash_remove h k)) = numbuckets h"
  "numbuckets (hash_init n) = n"
  by (simp_all add: numbuckets_def hash_add_def hash_remove_def hash_init_def Let_def split: option.splits)

lemma hash_remove_alt:
  "fst (hash_remove h k) =
     h\<lparr>bucket := (bucket h)[hash_string (numbuckets h) k :=
          bucket_unlink (bucket h ! hash_string (numbuckets h) k) k],
        dbsize := (if hash_lookup h k = None then dbsize h else dbsize h - 1)\<rparr>"
  by (simp add: hash_remove_def hash_lookup_def bucket_find_None_unlink Let_def split: option.splits)

lemma hash_stack_add:
  "hash_invar h \<Longrightarrow> hash_stack (hash_add h k d) k' =
     (if strcaseeq k k' then d # hash_stack h k' else hash_stack h k')"
  using hash_string_less [of "numbuckets h"]
  by (auto simp: hash_stack_def hash_add_def Let_def hash_invar_def numbuckets_def nth_list_update
      strcaseeq_commute dest: hash_string_cong [of _ _ "length (bucket h)"])

lemma hash_stack_remove:
  assumes "hash_invar h"
  shows "hash_stack (fst (hash_remove h k)) k' =
     (if strcaseeq k k' then tl (hash_stack h k') else hash_stack h k')"
proof (cases "strcaseeq k k'")
  case True
  then have s: "strcaseeq k = strcaseeq k'" "hash_string (numbuckets h) k = hash_string (numbuckets h) k'"
    by (auto simp: strcaseeq_def intro: hash_string_cong)
  have "hash_string (numbuckets h) k' < length (bucket h)"
    using assms by (simp add: hash_invar_def numbuckets_def hash_string_less)
  then show ?thesis
    using filter_bucket_unlink [of k "bucket h ! hash_string (numbuckets h) k"] True s
    by (simp add: hash_stack_def hash_remove_alt numbuckets_def)
next
  case False
  have "hash_string (numbuckets h) k < length (bucket h)"
    using assms by (simp add: hash_invar_def numbuckets_def hash_string_less)
  with False show ?thesis
    by (cases "hash_string (numbuckets h) k = hash_string (numbuckets h) k'")
      (auto simp: hash_stack_def hash_remove_alt numbuckets_def filter_bucket_unlink_other)
qed

lemma hash_invar_add: "hash_invar h \<Longrightarrow> hash_invar (hash_add h k d)"
  using length_concat_update [of "hash_string (numbuckets h) k" "bucket h"
      "(k, d) # bucket h ! hash_string (numbuckets h) k"] hash_string_less [of "numbuckets h" k]
  by (auto simp: hash_invar_def hash_add_def Let_def numbuckets_def nth_list_update)

lemma hash_invar_remove:
  assumes "hash_invar h"
  shows "hash_invar (fst (hash_remove h k))"
proof -
  let ?i = "hash_string (numbuckets h) k"
  have i: "?i < length (bucket h)"
    using assms by (simp add: hash_invar_def numbuckets_def hash_string_less)
  show ?thesis
  proof (cases "bucket_find (bucket h ! ?i) k")
    case None
    then show ?thesis using assms by (simp add: hash_remove_def)
  next
    case (Some d)
    have "\<forall>(k', d) \<in> set (bucket_unlink (bucket h ! ?i) k). hash_string (numbuckets h) k' = ?i"
      using assms i set_bucket_unlink [of "bucket h ! ?i" k]
      by (fastforce simp: hash_invar_def numbuckets_def)
    then show ?thesis
      using assms i Some length_concat_update [OF i, of "bucket_unlink (bucket h ! ?i) k"]
        length_bucket_unlink [OF Some]
      by (auto simp: hash_invar_def hash_remove_def Let_def numbuckets_def nth_list_update)
  qed
qed

lemma hash_invar_init [simp]: "0 < n \<Longrightarrow> hash_invar (hash_init n)"
  by (simp add: hash_invar_def hash_init_def numbuckets_def)

lemma hash_stack_init [simp]: "0 < n \<Longrightarrow> hash_stack (hash_init n) k = []"
  by (simp add: hash_stack_def hash_init_def numbuckets_def hash_string_less)

lemma hash_lookup_stack:
  "hash_lookup h k = (case hash_stack h k of [] \<Rightarrow> None | d # _ \<Rightarrow> Some d)"
  by (simp add: hash_lookup_def hash_stack_def bucket_find_filter)

lemma hash_remove_result: "snd (hash_remove h k) = hash_lookup h k"
  by (simp add: hash_remove_def hash_lookup_def Let_def split: option.splits)

lemma hash_stack_cong: "strcaseeq k k' \<Longrightarrow> hash_stack h k = hash_stack h k'"
  using hash_string_cong [of k k' "numbuckets h"] by (simp add: hash_stack_def strcaseeq_def)

interpretation hash: ci_table hash_lookup hash_add hash_remove hash_stack hash_invar
  by unfold_locales
    (auto simp: hash_lookup_stack hash_stack_add hash_stack_remove hash_remove_result
      hash_invar_add hash_invar_remove intro: hash_stack_cong)

text \<open>C12: The hash table of \<open>hash.c\<close> is a table of stacks, one per key up to case: after
  \<open>hash_add\<close> the key (in any spelling) finds the new data and every other key finds what it found
  before; \<open>hash_remove\<close> undoes the last \<open>hash_add\<close> of that key, hands exactly the removed data to the
  destroy callback, and leaves every other key alone; and both keep the table well formed, with
  \<open>dbsize\<close> the number of entries.\<close>

theorem hash_table_correct:
  assumes "hash_invar h"
  shows "hash_lookup (hash_add h k d) k' = (if strcaseeq k k' then Some d else hash_lookup h k') \<and>
    hash_lookup (fst (hash_remove (hash_add h k d) k)) k' = hash_lookup h k' \<and>
    snd (hash_remove h k) = hash_lookup h k \<and>
    (strcaseeq k k' \<or> hash_lookup (fst (hash_remove h k)) k' = hash_lookup h k') \<and>
    hash_invar (hash_add h k d) \<and> hash_invar (fst (hash_remove h k))"
  using hash.lookup_add [OF assms] hash.remove_add [OF assms] hash.lookup_remove_other [OF assms]
    hash_invar_add [OF assms] hash_invar_remove [OF assms] by (simp add: hash_remove_result) blast

lemma hash_table_correct_witness:
  "hash_lookup (hash_add (hash_init 257) ''Foo'' (1::nat)) ''fOO'' = Some 1"
proof -
  have "hash_invar (hash_init 257 :: nat htab)" by simp
  from hash_table_correct [OF this, of "''Foo''" 1 "''fOO''"]
  show ?thesis by (simp add: strcaseeq_def char_eval)
qed

section \<open>The word filter of \<open>filter.c\<close>\<close>

text \<open>
  \<open>load_filter\<close> reads the lines of the filter file into a fresh table; a line read by
  \<open>fgets (buf, 127, fp)\<close> keeps at most 126 bytes, so a longer line arrives in pieces.  The file is
  the list of the pieces \<open>fgets\<close> returns, or \<open>None\<close> when it cannot be opened.
\<close>

definition rstrip :: "string \<Rightarrow> string" where
  "rstrip s = rev (dropWhile c_isspace (rev s))"

definition load_filter :: "string list option \<Rightarrow> string htab" where
  "load_filter file =
     (let Filter = hash_init 257
      in case file of
           None \<Rightarrow> Filter
         | Some bufs \<Rightarrow> foldl (\<lambda>f buf. let token = rstrip buf in hash_add f token token) Filter bufs)"

definition is_filtered :: "string htab option \<Rightarrow> string \<Rightarrow> bool" where
  "is_filtered Filter s =
     (case Filter of None \<Rightarrow> False | Some h \<Rightarrow> hash_lookup h s \<noteq> None)"

lemma foldl_filter:
  "hash_invar h \<Longrightarrow>
   hash_lookup (foldl (\<lambda>f buf. let token = rstrip buf in hash_add f token token) h bufs) s \<noteq> None \<longleftrightarrow>
   hash_lookup h s \<noteq> None \<or> (\<exists>b \<in> set bufs. strcaseeq (rstrip b) s)"
  by (induction bufs arbitrary: h) (auto simp: Let_def hash.lookup_add hash_invar_add)

lemma hash_lookup_init: "0 < n \<Longrightarrow> hash_lookup (hash_init n) k = None"
  by (simp add: hash_lookup_stack)

text \<open>C18: A word is filtered exactly when some line of the filter file, without its trailing white
  space, is that word up to case; before \<open>load_filter\<close> and without a file nothing is filtered.\<close>

theorem is_filtered_iff:
  "(is_filtered (Some (load_filter (Some bufs))) s \<longleftrightarrow> (\<exists>b \<in> set bufs. strcaseeq (rstrip b) s)) \<and>
   \<not> is_filtered (Some (load_filter None)) s \<and> \<not> is_filtered None s"
  using foldl_filter [of "hash_init 257" bufs s]
  by (simp_all add: is_filtered_def load_filter_def hash_lookup_init del: not_None_eq)

end
