(* ===== verification/Text.thy ===== *)
theory Text
  imports Prelude
begin

text \<open>
  The text routines of \<open>src/util.c\<close> that every handler uses to take a packet apart: \<open>split_line\<close>,
  \<open>next_arg\<close> and \<open>next_arg_noskip\<close>, the little-endian header fields of \<open>set_val\<close>, and the nonce
  generator with its in-place hex expansion.  The C code cuts fields out of the packet by writing
  NUL bytes into it; a field is here the string up to that NUL and the rest of the packet what
  follows it.
\<close>

section \<open>Fields of a packet\<close>

definition is_sep :: "char \<Rightarrow> bool" where
  "is_sep c \<longleftrightarrow> c = CHR '' '' \<or> c = CHR 0x09 \<or> c = CHR 0x0D \<or> c = CHR 0x0A"

abbreviation dquote :: char where
  "dquote \<equiv> CHR 0x22"

text \<open>
  The loop of \<open>split_line\<close>, with \<open>n\<close> slots of the template left and the leading white space of the
  packet already skipped.  \<open>None\<close> is the return value -1 (no closing quote).
\<close>

fun split_fields :: "nat \<Rightarrow> string \<Rightarrow> string list option" where
  "split_fields n [] = Some []"
| "split_fields 0 (c # s) = Some []"
| "split_fields (Suc n) (c # s) =
     (if c = dquote then
        (case break_at (\<lambda>c. c = dquote) s of
           (w, None) \<Rightarrow> None
         | (w, Some []) \<Rightarrow> Some [w]
         | (w, Some (x # r)) \<Rightarrow> map_option (Cons w) (split_fields n (skip_space r)))
      else
        (case break_at is_sep (c # s) of
           (w, None) \<Rightarrow> Some [w]
         | (w, Some r) \<Rightarrow> map_option (Cons w) (split_fields n (skip_space r))))"

definition split_line :: "nat \<Rightarrow> string \<Rightarrow> string list option" where
  "split_line templatecount pkt = split_fields templatecount (skip_space pkt)"

text \<open>
  The handlers start with \<open>ac = -1\<close>, call \<open>split_line\<close> when the packet pointer is not NULL and
  compare \<open>ac\<close> with the number of fields they need.  \<open>get_args\<close> is the template after that: empty
  where \<open>ac\<close> is -1 or 0, which every handler treats alike.
\<close>

definition get_args :: "nat \<Rightarrow> string option \<Rightarrow> string list" where
  "get_args n pkt = (case pkt of None \<Rightarrow> []
     | Some p \<Rightarrow> (case split_line n p of None \<Rightarrow> [] | Some av \<Rightarrow> av))"

definition next_arg_noskip :: "string \<Rightarrow> string \<times> string option" where
  "next_arg_noskip s = break_at (\<lambda>c. c = CHR '' '') s"

definition next_arg :: "string option \<Rightarrow> string option \<times> string option" where
  "next_arg s =
     (case s of
        None \<Rightarrow> (None, None)
      | Some r \<Rightarrow>
          let r = skip_space r;
              (w, rest) = (if r \<noteq> [] \<and> hd r = dquote then break_at (\<lambda>c. c = dquote) (tl r)
                           else break_at is_sep r)
          in (Some w,
              case rest of None \<Rightarrow> None
              | Some t \<Rightarrow> (if skip_space t = [] then None else Some (skip_space t))))"

text \<open>\<open>strlower\<close> lower-cases a string in place.\<close>

definition strlower :: "string \<Rightarrow> string" where
  "strlower s = map c_tolower s"

lemma strlower_lower: "strlower s = lower s"
  by (simp add: strlower_def lower_def)

section \<open>Writing fields and reading them back\<close>

datatype arg = Plain string | Quoted string

fun arg_text :: "arg \<Rightarrow> string" where
  "arg_text (Plain w) = w"
| "arg_text (Quoted w) = dquote # w @ [dquote]"

fun arg_val :: "arg \<Rightarrow> string" where
  "arg_val (Plain w) = w"
| "arg_val (Quoted w) = w"

fun arg_ok :: "arg \<Rightarrow> bool" where
  "arg_ok (Plain w) \<longleftrightarrow> w \<noteq> [] \<and> hd w \<noteq> dquote \<and> (\<forall>c \<in> set w. \<not> c_isspace c)"
| "arg_ok (Quoted w) \<longleftrightarrow> dquote \<notin> set w"

fun join_args :: "arg list \<Rightarrow> string" where
  "join_args [] = []"
| "join_args [a] = arg_text a"
| "join_args (a # as) = arg_text a @ CHR '' '' # join_args as"

lemma is_sep_space [simp]: "is_sep CHR '' ''" "c_isspace CHR '' ''" "\<not> c_isspace dquote"
  by (simp_all add: is_sep_def c_isspace_def)

lemma is_sep_isspace: "is_sep c \<Longrightarrow> c_isspace c"
  by (auto simp: is_sep_def c_isspace_def)

lemma split_fields_Nil [simp]: "split_fields n [] = Some []"
  by (cases n) simp_all

lemma arg_text_Cons: "arg_ok a \<Longrightarrow> \<exists>c s. arg_text a = c # s \<and> \<not> c_isspace c"
  by (cases a) (auto simp: neq_Nil_conv)

lemma skip_space_arg: "arg_ok a \<Longrightarrow> skip_space (arg_text a @ r) = arg_text a @ r"
  using arg_text_Cons [of a] by auto

lemma skip_space_join: "\<forall>a \<in> set as. arg_ok a \<Longrightarrow> skip_space (join_args as) = join_args as"
  by (induction as rule: join_args.induct) (auto dest: skip_space_arg [of _ "[]"] skip_space_arg)

lemma split_fields_arg_last: "arg_ok a \<Longrightarrow> split_fields (Suc n) (arg_text a) = Some [arg_val a]"
proof (cases a)
  case (Plain w)
  assume "arg_ok a"
  with Plain obtain c s where w: "w = c # s" "c \<noteq> dquote" "\<forall>c \<in> set w. \<not> c_isspace c"
    by (auto simp: neq_Nil_conv)
  then have "break_at is_sep w = (w, None)"
    using is_sep_isspace by (intro break_at_None) blast
  with w Plain show ?thesis by (simp del: break_at.simps)
next
  case (Quoted w)
  assume "arg_ok a"
  with Quoted have "break_at (\<lambda>c. c = dquote) (w @ [dquote]) = (w, Some [])"
    by (intro break_at_Some) auto
  with Quoted show ?thesis by simp
qed

lemma split_fields_arg:
  "arg_ok a \<Longrightarrow> split_fields (Suc n) (arg_text a @ CHR '' '' # r) =
     map_option (Cons (arg_val a)) (split_fields n (skip_space r))"
proof (cases a)
  case (Plain w)
  assume "arg_ok a"
  with Plain obtain c s where w: "w = c # s" "c \<noteq> dquote" "\<forall>c \<in> set w. \<not> c_isspace c"
    by (auto simp: neq_Nil_conv)
  then have "break_at is_sep (w @ CHR '' '' # r) = (w, Some r)"
    using is_sep_isspace by (intro break_at_Some) auto
  with w Plain show ?thesis by (simp del: break_at.simps)
next
  case (Quoted w)
  assume "arg_ok a"
  with Quoted have "break_at (\<lambda>c. c = dquote) (w @ dquote # CHR '' '' # r) = (w, Some (CHR '' '' # r))"
    by (intro break_at_Some) auto
  with Quoted show ?thesis by simp
qed

lemma split_fields_join:
  "\<forall>a \<in> set as. arg_ok a \<Longrightarrow> length as \<le> n \<Longrightarrow> split_fields n (join_args as) = Some (map arg_val as)"
proof (induction as arbitrary: n rule: join_args.induct)
  case (2 a)
  then show ?case using split_fields_arg_last by (cases n) auto
next
  case (3 a b as)
  then obtain m where n: "n = Suc m" by (cases n) auto
  have "split_fields m (skip_space (join_args (b # as))) = Some (map arg_val (b # as))"
    using 3 n by (simp add: skip_space_join)
  then show ?case using 3 n by (simp add: split_fields_arg)
qed simp

text \<open>C13: \<open>split_line\<close> reads back what the server writes: a line of at most \<open>n\<close> arguments separated
  by blanks, each either a plain word (without white space and not starting with a quote) or a quoted
  text (of any characters but the quote, possibly empty), splits into exactly those arguments.\<close>

theorem split_line_join:
  assumes "\<forall>a \<in> set as. arg_ok a" and "length as \<le> n"
  shows "split_line n (join_args as) = Some (map arg_val as)"
  using assms by (simp add: split_line_def skip_space_join split_fields_join)

lemma split_line_join_witness:
  "split_line 3 (join_args [Plain ''*!*'', Quoted ''go away'', Plain ''60'']) =
     Some [''*!*'', ''go away'', ''60'']"
  using split_line_join [of "[Plain ''*!*'', Quoted ''go away'', Plain ''60'']" 3]
  by (simp add: c_isspace_def)

lemma split_line_join_nl:
  assumes "\<forall>a \<in> set as. arg_ok a" and "length as \<le> n" and "as \<noteq> []"
  shows "split_line n (join_args as @ [CHR 0x0A]) = Some (map arg_val as)"
proof -
  have aux: "split_fields n (join_args as @ [CHR 0x0A]) = Some (map arg_val as)"
    if "\<forall>a \<in> set as. arg_ok a" "length as \<le> n" "as \<noteq> []" for as n
    using that
  proof (induction as arbitrary: n rule: join_args.induct)
    case (2 a)
    then obtain m where n: "n = Suc m" by (cases n) auto
    show ?case
    proof (cases a)
      case (Plain w)
      with 2 have "break_at is_sep (w @ [CHR 0x0A]) = (w, Some [])"
        using is_sep_isspace by (intro break_at_Some) (auto simp: is_sep_def)
      with 2 Plain n show ?thesis by (auto simp: neq_Nil_conv simp del: break_at.simps)
    next
      case (Quoted w)
      with 2 have "break_at (\<lambda>c. c = dquote) (w @ dquote # [CHR 0x0A]) = (w, Some [CHR 0x0A])"
        by (intro break_at_Some) auto
      with Quoted n show ?thesis by simp
    qed
  next
    case (3 a b as)
    then obtain m where n: "n = Suc m" by (cases n) auto
    obtain c s where "join_args (b # as) = c # s" "\<not> c_isspace c"
      using arg_text_Cons [of b] 3 by (cases as) auto
    then have "skip_space (join_args (b # as) @ [CHR 0x0A]) = join_args (b # as) @ [CHR 0x0A]"
      by simp
    then show ?case using 3 n by (simp add: split_fields_arg)
  qed simp
  obtain a bs where as: "as = a # bs" using assms by (cases as) auto
  have "skip_space (join_args as @ [CHR 0x0A]) = join_args as @ [CHR 0x0A]"
    using arg_text_Cons [of a] assms as by (cases bs) auto
  with aux assms show ?thesis by (simp add: split_line_def)
qed

lemma next_arg_plain:
  "arg_ok a \<Longrightarrow> r \<noteq> [] \<Longrightarrow> skip_space r = r \<Longrightarrow>
   next_arg (Some (arg_text a @ CHR '' '' # r)) = (Some (arg_val a), Some r)"
proof (cases a)
  case (Plain w)
  assume "arg_ok a" "r \<noteq> []" "skip_space r = r"
  with Plain have b: "break_at is_sep (w @ CHR '' '' # r) = (w, Some r)"
    and sk: "skip_space (w @ CHR '' '' # r) = w @ CHR '' '' # r" and hd: "w \<noteq> []" "hd w \<noteq> dquote"
    using is_sep_isspace skip_space_arg [of a] by (auto intro!: break_at_Some)
  show ?thesis using Plain \<open>r \<noteq> []\<close> \<open>skip_space r = r\<close> hd
    by (simp add: next_arg_def sk b Let_def)
next
  case (Quoted w)
  assume "arg_ok a" "r \<noteq> []" "skip_space r = r"
  with Quoted have "break_at (\<lambda>c. c = dquote) (w @ dquote # CHR '' '' # r) = (w, Some (CHR '' '' # r))"
    by (auto intro!: break_at_Some)
  with Quoted \<open>r \<noteq> []\<close> \<open>skip_space r = r\<close> show ?thesis by (simp add: next_arg_def)
qed

lemma next_arg_last: "arg_ok a \<Longrightarrow> next_arg (Some (arg_text a)) = (Some (arg_val a), None)"
proof (cases a)
  case (Plain w)
  assume "arg_ok a"
  with Plain have "break_at is_sep w = (w, None)" "skip_space w = w" "w \<noteq> []" "hd w \<noteq> dquote"
    using is_sep_isspace skip_space_arg [of a "[]"] by (auto intro!: break_at_None)
  with Plain show ?thesis by (simp add: next_arg_def)
next
  case (Quoted w)
  assume "arg_ok a"
  with Quoted have "break_at (\<lambda>c. c = dquote) (w @ [dquote]) = (w, Some [])"
    by (auto intro!: break_at_Some)
  with Quoted show ?thesis by (simp add: next_arg_def)
qed

lemma next_arg_shorter:
  "next_arg (Some s) = (w, Some r) \<Longrightarrow> length r < length s"
proof -
  assume n: "next_arg (Some s) = (w, Some r)"
  let ?r = "skip_space s"
  have "length ?r \<le> length s" by (rule length_skip_space)
  moreover have "length (skip_space t) < length ?r"
    if "break_at P (if b then tl ?r else ?r) = (v, Some t)" for P b v t
    using break_at_length [OF that] length_skip_space [of t] by (cases b) (auto simp: less_diff_conv)
  ultimately show ?thesis using n
    by (auto simp: next_arg_def Let_def split: prod.splits option.splits if_splits)
      (metis (full_types) order_less_le_trans)+
qed

section \<open>Message headers\<close>

text \<open>
  \<open>set_val\<close> stores a 16-bit value in little-endian order whatever the byte order of the host; the
  reading side takes the two bytes back with \<open>memcpy\<close> and \<open>BSWAP16\<close>.
\<close>

definition set_val :: "nat \<Rightarrow> string" where
  "set_val val = [char_of (val mod 256), char_of (val div 256 mod 256)]"

definition get_val :: "char \<Rightarrow> char \<Rightarrow> nat" where
  "get_val lo hi = code lo + 256 * code hi"

lemma get_set_val: "v < 65536 \<Longrightarrow> set_val v = [lo, hi] \<Longrightarrow> get_val lo hi = v"
  by (auto simp: set_val_def get_val_def)

lemma set_get_val: "set_val (get_val lo hi) = [lo, hi]"
  by (simp add: set_val_def get_val_def char_eq_code_iff)

lemma get_val_less: "get_val lo hi < 65536"
  using code_less_256 [of lo] code_less_256 [of hi] unfolding get_val_def by linarith

section \<open>Nonces\<close>

definition hex_digit :: "nat \<Rightarrow> char" where
  "hex_digit n = ''0123456789ABCDEF'' ! n"

text \<open>
  \<open>expand_hex\<close> works in place, from the last byte to the first: \<open>expand_loop i v\<close> is the loop with
  the index counting down from \<open>i - 1\<close>.  The second store of a round reads \<open>v[i]\<close> after the first.
\<close>

fun expand_loop :: "nat \<Rightarrow> string \<Rightarrow> string" where
  "expand_loop 0 v = v"
| "expand_loop (Suc i) v =
     (let v = v[2 * i + 1 := hex_digit (code (v ! i) mod 16)];
          v = v[2 * i := hex_digit (code (v ! i) div 16 mod 16)]
      in expand_loop i v)"

definition expand_hex :: "string \<Rightarrow> nat \<Rightarrow> string" where
  "expand_hex v vsize = expand_loop vsize v"

definition hex_pair :: "char \<Rightarrow> string" where
  "hex_pair c = [hex_digit (code c div 16), hex_digit (code c mod 16)]"

lemma length_hex_pair [simp]: "length (hex_pair c) = 2"
  by (simp add: hex_pair_def)

lemma length_concat_hex [simp]: "length (concat (map hex_pair bs)) = 2 * length bs"
  by (induction bs) simp_all

lemma code_div_16_mod [simp]: "code c div 16 mod 16 = code c div 16"
  using code_less_256 [of c] by (simp add: less_mult_imp_div_less)

lemma expand_loop_hex:
  "length bs = n \<Longrightarrow> length junk = n \<Longrightarrow>
   expand_loop n (bs @ junk @ rest) = concat (map hex_pair bs) @ rest"
proof (induction n arbitrary: bs junk rest)
  case (Suc n)
  obtain bs' b where bs: "bs = bs' @ [b]" "length bs' = n"
    using Suc.prems(1) by (metis length_Suc_conv_rev)
  show ?case
  proof (cases n)
    case 0
    then obtain j where "junk = [j]" "bs' = []" using Suc.prems bs by (cases junk) auto
    then show ?thesis using bs 0 by (simp add: hex_pair_def Let_def)
  next
    case (Suc m)
    have l: "length (bs @ junk) = 2 * Suc n" using Suc.prems by simp
    let ?v = "bs @ junk @ rest"
    let ?v1 = "?v[2 * n + 1 := hex_digit (code b mod 16)]"
    let ?v2 = "?v1[2 * n := hex_digit (code b div 16)]"
    have nth: "?v ! n = b" "?v1 ! n = b" using bs Suc by (simp_all add: nth_append)
    obtain j1 j2 js where junk: "junk = js @ [j1, j2]" "length js = m"
      using Suc.prems(2) Suc by (metis append_Cons append_Nil append_assoc length_Suc_conv_rev)
    have "?v2 = bs' @ (b # js) @ hex_pair b @ rest"
      using bs junk Suc by (simp add: hex_pair_def list_update_append)
    then have "expand_loop (Suc n) ?v = expand_loop n (bs' @ (b # js) @ hex_pair b @ rest)"
      using nth by (simp add: Let_def)
    also have "\<dots> = concat (map hex_pair bs') @ hex_pair b @ rest"
      using bs junk Suc by (intro Suc.IH) auto
    finally show ?thesis using bs by simp
  qed
qed simp

text \<open>
  \<open>get_random_bytes\<close> takes four bytes from each value of \<open>rand ()\<close>, low byte first; the successive
  values of \<open>rand ()\<close> are the argument \<open>rs\<close>.
\<close>

fun get_random_bytes :: "nat list \<Rightarrow> nat \<Rightarrow> string" where
  "get_random_bytes rs 0 = []"
| "get_random_bytes [] (Suc n) = []"
| "get_random_bytes (v # rs) (Suc n) =
     take (Suc n) (map char_of [v mod 256, v div 256 mod 256, v div 65536 mod 256, v div 16777216 mod 256])
     @ get_random_bytes rs (Suc n - 4)"

definition generate_nonce :: "nat list \<Rightarrow> string" where
  "generate_nonce rs =
     (let nonce = get_random_bytes rs 8 @ replicate 8 (CHR 0x00) in expand_hex nonce 8)"

lemma length_get_random_bytes:
  "n \<le> 4 * length rs \<Longrightarrow> length (get_random_bytes rs n) = n"
proof (induction rs n rule: get_random_bytes.induct)
  case (3 v rs n)
  then show ?case by (cases "n \<le> 3") (auto simp: min_def)
qed auto

lemma hex_digit_inj: "m < 16 \<Longrightarrow> n < 16 \<Longrightarrow> hex_digit m = hex_digit n \<Longrightarrow> m = n"
  using nth_eq_iff_index_eq [of "''0123456789ABCDEF''" m n] by (simp add: hex_digit_def)

lemma hex_pair_inj: "hex_pair c = hex_pair d \<longleftrightarrow> c = d"
proof
  assume "hex_pair c = hex_pair d"
  then have "hex_digit (code c div 16) = hex_digit (code d div 16)"
    "hex_digit (code c mod 16) = hex_digit (code d mod 16)"
    by (simp_all add: hex_pair_def)
  moreover have "code c div 16 < 16" "code d div 16 < 16"
    using code_less_256 [of c] code_less_256 [of d] by linarith+
  ultimately have "code c div 16 = code d div 16" "code c mod 16 = code d mod 16"
    using hex_digit_inj by simp_all
  then have "code c = code d" by (metis div_mult_mod_eq)
  then show "c = d" by (rule char_eq_code_iff [THEN iffD2])
qed simp

lemma concat_hex_inj:
  "length bs = length cs \<Longrightarrow> concat (map hex_pair bs) = concat (map hex_pair cs) \<longleftrightarrow> bs = cs"
  by (induction bs cs rule: list_induct2) (simp_all add: hex_pair_inj)

lemma generate_nonce_hex:
  "2 \<le> length rs \<Longrightarrow> generate_nonce rs = concat (map hex_pair (get_random_bytes rs 8))"
  using expand_loop_hex [of "get_random_bytes rs 8" 8 "replicate 8 (CHR 0x00)" "[]"]
    length_get_random_bytes [of 8 rs]
  by (simp add: generate_nonce_def expand_hex_def)

text \<open>The in-place expansion of \<open>expand_hex\<close> loses nothing: expanding the first \<open>n\<close> bytes of a
  buffer of at least \<open>2 n\<close> bytes gives their hexadecimal digits in order, high digit first, and
  leaves the rest of the buffer alone; so a nonce is 16 digits long and two nonces are equal only if
  their 8 random bytes are.\<close>

lemma expand_hex_in_place:
  assumes "length bs = n" and "length junk = n" and "2 \<le> length rs" and "2 \<le> length rs'"
  shows "expand_hex (bs @ junk @ rest) n = concat (map hex_pair bs) @ rest \<and>
    length (generate_nonce rs) = 16 \<and>
    (generate_nonce rs = generate_nonce rs' \<longleftrightarrow> get_random_bytes rs 8 = get_random_bytes rs' 8)"
  using assms length_get_random_bytes [of 8]
  by (simp add: expand_loop_hex expand_hex_def generate_nonce_hex concat_hex_inj)

lemma expand_hex_in_place_witness:
  "expand_hex (map char_of [0x1F, 0xA0, 0, 0 :: nat]) 2 = ''1FA0'' \<and> length (generate_nonce [7, 9]) = 16"
  using expand_hex_in_place [of "map char_of [0x1F, 0xA0 :: nat]" 2 "map char_of [0, 0 :: nat]"
      "[7, 9]" "[7, 9]" "[]"]
  by (simp add: hex_pair_def hex_digit_def)

end
