(* ===== verification/State.thy ===== *)
theory State
  imports CHash Text
begin

text \<open>
  The shared state of the server (\<open>src/opennap.h\<close>) and the service routines every handler calls
  (\<open>src/serverlib.c\<close>, and from other files \<open>notify_mods\<close>, \<open>notify_ops\<close>, \<open>is_chanop\<close>,
  \<open>find_channel\<close>, \<open>invalid_nick\<close>, \<open>get_level\<close>).

  A pointer is an identifier into one of the stores of the state record: \<open>s_users\<close> for \<open>USER\<close>,
  \<open>s_chans\<close> for \<open>CHANNEL\<close>, \<open>s_conns\<close> for \<open>CONNECTION\<close>, \<open>s_dbs\<close> for \<open>USERDB\<close>, \<open>s_hotl\<close> for
  \<open>HOTLIST\<close>.  Freeing an object removes it from its store, so a pointer that is followed after that
  is an identifier outside the store's domain; the invariants of the later theories say that there
  is none.  The hash tables hold identifiers, as the C tables hold pointers.

  Output is a trace: \<open>queue_data\<close> appends a frame (connection, message type, text) to \<open>s_out\<close>.
  Writing to the log and running out of memory are not modelled.
\<close>

section \<open>Constants\<close>

datatype level = LEVEL_LEECH | LEVEL_USER | LEVEL_MODERATOR | LEVEL_ADMIN | LEVEL_ELITE

fun level_num :: "level \<Rightarrow> nat" where
  "level_num LEVEL_LEECH = 0"
| "level_num LEVEL_USER = 1"
| "level_num LEVEL_MODERATOR = 2"
| "level_num LEVEL_ADMIN = 3"
| "level_num LEVEL_ELITE = 4"

text \<open>The code compares levels as the integers of the enumeration.\<close>

instantiation level :: linorder
begin

definition less_eq_level :: "level \<Rightarrow> level \<Rightarrow> bool" where
  "less_eq_level a b \<longleftrightarrow> level_num a \<le> level_num b"

definition less_level :: "level \<Rightarrow> level \<Rightarrow> bool" where
  "less_level a b \<longleftrightarrow> level_num a < level_num b"

instance
proof
  fix x y z :: level
  show "x < y \<longleftrightarrow> x \<le> y \<and> \<not> y \<le> x" by (auto simp: less_eq_level_def less_level_def)
  show "x \<le> x" by (simp add: less_eq_level_def)
  show "x \<le> y \<Longrightarrow> y \<le> z \<Longrightarrow> x \<le> z" by (simp add: less_eq_level_def)
  show "x \<le> y \<Longrightarrow> y \<le> x \<Longrightarrow> x = y" by (cases x; cases y) (simp_all add: less_eq_level_def)
  show "x \<le> y \<or> y \<le> x" by (auto simp: less_eq_level_def)
qed

end

lemmas level_order = less_eq_level_def less_level_def

lemma level_top [simp]: "x \<le> LEVEL_ELITE" "\<not> LEVEL_ELITE < x" "LEVEL_LEECH \<le> x"
  by (cases x; simp add: level_order)+

fun Levels :: "level \<Rightarrow> string" where
  "Levels LEVEL_LEECH = ''Leech''"
| "Levels LEVEL_USER = ''User''"
| "Levels LEVEL_MODERATOR = ''Moderator''"
| "Levels LEVEL_ADMIN = ''Admin''"
| "Levels LEVEL_ELITE = ''Elite''"

definition get_level :: "string \<Rightarrow> level option" where
  "get_level s =
     (if strncaseeq ''lee'' s 3 then Some LEVEL_LEECH
      else if strncaseeq ''use'' s 3 then Some LEVEL_USER
      else if strncaseeq ''mod'' s 3 then Some LEVEL_MODERATOR
      else if strncaseeq ''eli'' s 3 then Some LEVEL_ELITE
      else if strncaseeq ''adm'' s 3 then Some LEVEL_ADMIN
      else None)"

lemma get_level_Levels [simp]: "get_level (Levels l) = Some l"
  by (cases l) (simp_all add: get_level_def strncaseeq_def char_eval)

datatype conn_class = CLASS_UNKNOWN | CLASS_USER | CLASS_SERVER

abbreviation (input) ON_OPERATOR :: "32 word" where "ON_OPERATOR \<equiv> 1"
abbreviation (input) ON_CHANNEL_VOICE :: "32 word" where "ON_CHANNEL_VOICE \<equiv> 2"
abbreviation (input) ON_CHANNEL_MUZZLED :: "32 word" where "ON_CHANNEL_MUZZLED \<equiv> 4"

abbreviation (input) ON_CHANNEL_USER :: "32 word" where "ON_CHANNEL_USER \<equiv> 1"
abbreviation (input) ON_CHANNEL_PRIVATE :: "32 word" where "ON_CHANNEL_PRIVATE \<equiv> 2"
abbreviation (input) ON_CHANNEL_MODERATED :: "32 word" where "ON_CHANNEL_MODERATED \<equiv> 4"
abbreviation (input) ON_CHANNEL_INVITE :: "32 word" where "ON_CHANNEL_INVITE \<equiv> 8"
abbreviation (input) ON_CHANNEL_TOPIC :: "32 word" where "ON_CHANNEL_TOPIC \<equiv> 16"

abbreviation (input) ON_MUZZLED :: "16 word" where "ON_MUZZLED \<equiv> 1"
abbreviation (input) ON_CLOAKED :: "16 word" where "ON_CLOAKED \<equiv> 2"

abbreviation (input) ERROR_MODE :: "32 word" where "ERROR_MODE \<equiv> 1"
abbreviation (input) BANLOG_MODE :: "32 word" where "BANLOG_MODE \<equiv> 2"
abbreviation (input) CHANGELOG_MODE :: "32 word" where "CHANGELOG_MODE \<equiv> 4"
abbreviation (input) KILLLOG_MODE :: "32 word" where "KILLLOG_MODE \<equiv> 8"
abbreviation (input) LEVELLOG_MODE :: "32 word" where "LEVELLOG_MODE \<equiv> 16"
abbreviation (input) SERVERLOG_MODE :: "32 word" where "SERVERLOG_MODE \<equiv> 32"
abbreviation (input) MUZZLELOG_MODE :: "32 word" where "MUZZLELOG_MODE \<equiv> 64"
abbreviation (input) PORTLOG_MODE :: "32 word" where "PORTLOG_MODE \<equiv> 128"
abbreviation (input) WALLOPLOG_MODE :: "32 word" where "WALLOPLOG_MODE \<equiv> 256"
abbreviation (input) CLOAKLOG_MODE :: "32 word" where "CLOAKLOG_MODE \<equiv> 512"
abbreviation (input) FLOODLOG_MODE :: "32 word" where "FLOODLOG_MODE \<equiv> 1024"
abbreviation (input) LOGALL_MODE :: "32 word" where "LOGALL_MODE \<equiv> 2047"

abbreviation (input) MSG_SERVER_ERROR :: nat where "MSG_SERVER_ERROR \<equiv> 0"
abbreviation (input) MSG_CLIENT_LOGIN :: nat where "MSG_CLIENT_LOGIN \<equiv> 2"
abbreviation (input) MSG_SERVER_EMAIL :: nat where "MSG_SERVER_EMAIL \<equiv> 3"
abbreviation (input) MSG_CLIENT_LOGIN_REGISTER :: nat where "MSG_CLIENT_LOGIN_REGISTER \<equiv> 6"
abbreviation (input) MSG_CLIENT_REGISTER :: nat where "MSG_CLIENT_REGISTER \<equiv> 7"
abbreviation (input) MSG_SERVER_REGISTER_OK :: nat where "MSG_SERVER_REGISTER_OK \<equiv> 8"
abbreviation (input) MSG_SERVER_REGISTER_FAIL :: nat where "MSG_SERVER_REGISTER_FAIL \<equiv> 9"
abbreviation (input) MSG_SERVER_BAD_NICK :: nat where "MSG_SERVER_BAD_NICK \<equiv> 10"
abbreviation (input) MSG_CLIENT_CHECK_PASS :: nat where "MSG_CLIENT_CHECK_PASS \<equiv> 11"
abbreviation (input) MSG_SERVER_PASS_OK :: nat where "MSG_SERVER_PASS_OK \<equiv> 12"
abbreviation (input) MSG_SERVER_ECHO :: nat where "MSG_SERVER_ECHO \<equiv> 13"
abbreviation (input) MSG_CLIENT_ADD_FILE :: nat where "MSG_CLIENT_ADD_FILE \<equiv> 100"
abbreviation (input) MSG_CLIENT_REMOVE_FILE :: nat where "MSG_CLIENT_REMOVE_FILE \<equiv> 102"
abbreviation (input) MSG_CLIENT_SEARCH :: nat where "MSG_CLIENT_SEARCH \<equiv> 200"
abbreviation (input) MSG_SERVER_SEARCH_RESULT :: nat where "MSG_SERVER_SEARCH_RESULT \<equiv> 201"
abbreviation (input) MSG_SERVER_SEARCH_END :: nat where "MSG_SERVER_SEARCH_END \<equiv> 202"
abbreviation (input) MSG_CLIENT_DOWNLOAD :: nat where "MSG_CLIENT_DOWNLOAD \<equiv> 203"
abbreviation (input) MSG_SERVER_FILE_READY :: nat where "MSG_SERVER_FILE_READY \<equiv> 204"
abbreviation (input) MSG_CLIENT_PRIVMSG :: nat where "MSG_CLIENT_PRIVMSG \<equiv> 205"
abbreviation (input) MSG_SERVER_SEND_ERROR :: nat where "MSG_SERVER_SEND_ERROR \<equiv> 206"
abbreviation (input) MSG_CLIENT_ADD_HOTLIST :: nat where "MSG_CLIENT_ADD_HOTLIST \<equiv> 207"
abbreviation (input) MSG_CLIENT_ADD_HOTLIST_SEQ :: nat where "MSG_CLIENT_ADD_HOTLIST_SEQ \<equiv> 208"
abbreviation (input) MSG_SERVER_USER_SIGNON :: nat where "MSG_SERVER_USER_SIGNON \<equiv> 209"
abbreviation (input) MSG_SERVER_USER_SIGNOFF :: nat where "MSG_SERVER_USER_SIGNOFF \<equiv> 210"
abbreviation (input) MSG_CLIENT_BROWSE :: nat where "MSG_CLIENT_BROWSE \<equiv> 211"
abbreviation (input) MSG_SERVER_BROWSE_RESPONSE :: nat where "MSG_SERVER_BROWSE_RESPONSE \<equiv> 212"
abbreviation (input) MSG_SERVER_BROWSE_END :: nat where "MSG_SERVER_BROWSE_END \<equiv> 213"
abbreviation (input) MSG_SERVER_STATS :: nat where "MSG_SERVER_STATS \<equiv> 214"
abbreviation (input) MSG_CLIENT_RESUME_REQUEST :: nat where "MSG_CLIENT_RESUME_REQUEST \<equiv> 215"
abbreviation (input) MSG_SERVER_RESUME_MATCH :: nat where "MSG_SERVER_RESUME_MATCH \<equiv> 216"
abbreviation (input) MSG_SERVER_RESUME_MATCH_END :: nat where "MSG_SERVER_RESUME_MATCH_END \<equiv> 217"
abbreviation (input) MSG_CLIENT_DOWNLOAD_START :: nat where "MSG_CLIENT_DOWNLOAD_START \<equiv> 218"
abbreviation (input) MSG_CLIENT_DOWNLOAD_END :: nat where "MSG_CLIENT_DOWNLOAD_END \<equiv> 219"
abbreviation (input) MSG_CLIENT_UPLOAD_START :: nat where "MSG_CLIENT_UPLOAD_START \<equiv> 220"
abbreviation (input) MSG_CLIENT_UPLOAD_END :: nat where "MSG_CLIENT_UPLOAD_END \<equiv> 221"
abbreviation (input) MSG_CLIENT_CHECK_PORT :: nat where "MSG_CLIENT_CHECK_PORT \<equiv> 300"
abbreviation (input) MSG_SERVER_HOTLIST_ACK :: nat where "MSG_SERVER_HOTLIST_ACK \<equiv> 301"
abbreviation (input) MSG_CLIENT_REMOVE_HOTLIST :: nat where "MSG_CLIENT_REMOVE_HOTLIST \<equiv> 303"
abbreviation (input) MSG_SERVER_DISCONNECTING :: nat where "MSG_SERVER_DISCONNECTING \<equiv> 316"
abbreviation (input) MSG_CLIENT_IGNORE_LIST :: nat where "MSG_CLIENT_IGNORE_LIST \<equiv> 320"
abbreviation (input) MSG_SERVER_IGNORE_ENTRY :: nat where "MSG_SERVER_IGNORE_ENTRY \<equiv> 321"
abbreviation (input) MSG_CLIENT_IGNORE_USER :: nat where "MSG_CLIENT_IGNORE_USER \<equiv> 322"
abbreviation (input) MSG_CLIENT_UNIGNORE_USER :: nat where "MSG_CLIENT_UNIGNORE_USER \<equiv> 323"
abbreviation (input) MSG_SERVER_NOT_IGNORED :: nat where "MSG_SERVER_NOT_IGNORED \<equiv> 324"
abbreviation (input) MSG_SERVER_ALREADY_IGNORED :: nat where "MSG_SERVER_ALREADY_IGNORED \<equiv> 325"
abbreviation (input) MSG_CLIENT_CLEAR_IGNORE :: nat where "MSG_CLIENT_CLEAR_IGNORE \<equiv> 326"
abbreviation (input) MSG_CLIENT_JOIN :: nat where "MSG_CLIENT_JOIN \<equiv> 400"
abbreviation (input) MSG_CLIENT_PART :: nat where "MSG_CLIENT_PART \<equiv> 401"
abbreviation (input) MSG_CLIENT_PUBLIC :: nat where "MSG_CLIENT_PUBLIC \<equiv> 402"
abbreviation (input) MSG_SERVER_PUBLIC :: nat where "MSG_SERVER_PUBLIC \<equiv> 403"
abbreviation (input) MSG_SERVER_NOSUCH :: nat where "MSG_SERVER_NOSUCH \<equiv> 404"
abbreviation (input) MSG_SERVER_JOIN_ACK :: nat where "MSG_SERVER_JOIN_ACK \<equiv> 405"
abbreviation (input) MSG_SERVER_JOIN :: nat where "MSG_SERVER_JOIN \<equiv> 406"
abbreviation (input) MSG_SERVER_PART :: nat where "MSG_SERVER_PART \<equiv> 407"
abbreviation (input) MSG_SERVER_CHANNEL_USER_LIST :: nat where "MSG_SERVER_CHANNEL_USER_LIST \<equiv> 408"
abbreviation (input) MSG_SERVER_CHANNEL_USER_LIST_END :: nat where "MSG_SERVER_CHANNEL_USER_LIST_END \<equiv> 409"
abbreviation (input) MSG_SERVER_TOPIC :: nat where "MSG_SERVER_TOPIC \<equiv> 410"
abbreviation (input) MSG_CLIENT_CHANNEL_BAN_LIST :: nat where "MSG_CLIENT_CHANNEL_BAN_LIST \<equiv> 420"
abbreviation (input) MSG_SERVER_CHANNEL_BAN_LIST :: nat where "MSG_SERVER_CHANNEL_BAN_LIST \<equiv> 421"
abbreviation (input) MSG_CLIENT_CHANNEL_BAN :: nat where "MSG_CLIENT_CHANNEL_BAN \<equiv> 422"
abbreviation (input) MSG_CLIENT_CHANNEL_UNBAN :: nat where "MSG_CLIENT_CHANNEL_UNBAN \<equiv> 423"
abbreviation (input) MSG_CLIENT_CHANNEL_CLEAR_BANS :: nat where "MSG_CLIENT_CHANNEL_CLEAR_BANS \<equiv> 424"
abbreviation (input) MSG_CLIENT_DOWNLOAD_FIREWALL :: nat where "MSG_CLIENT_DOWNLOAD_FIREWALL \<equiv> 500"
abbreviation (input) MSG_SERVER_UPLOAD_FIREWALL :: nat where "MSG_SERVER_UPLOAD_FIREWALL \<equiv> 501"
abbreviation (input) MSG_CLIENT_USERSPEED :: nat where "MSG_CLIENT_USERSPEED \<equiv> 600"
abbreviation (input) MSG_SERVER_USER_SPEED :: nat where "MSG_SERVER_USER_SPEED \<equiv> 601"
abbreviation (input) MSG_CLIENT_WHOIS :: nat where "MSG_CLIENT_WHOIS \<equiv> 603"
abbreviation (input) MSG_SERVER_WHOIS_RESPONSE :: nat where "MSG_SERVER_WHOIS_RESPONSE \<equiv> 604"
abbreviation (input) MSG_SERVER_WHOWAS :: nat where "MSG_SERVER_WHOWAS \<equiv> 605"
abbreviation (input) MSG_CLIENT_SETUSERLEVEL :: nat where "MSG_CLIENT_SETUSERLEVEL \<equiv> 606"
abbreviation (input) MSG_SERVER_UPLOAD_REQUEST :: nat where "MSG_SERVER_UPLOAD_REQUEST \<equiv> 607"
abbreviation (input) MSG_CLIENT_UPLOAD_OK :: nat where "MSG_CLIENT_UPLOAD_OK \<equiv> 608"
abbreviation (input) MSG_CLIENT_KILL :: nat where "MSG_CLIENT_KILL \<equiv> 610"
abbreviation (input) MSG_CLIENT_NUKE :: nat where "MSG_CLIENT_NUKE \<equiv> 611"
abbreviation (input) MSG_CLIENT_BAN :: nat where "MSG_CLIENT_BAN \<equiv> 612"
abbreviation (input) MSG_CLIENT_ALTER_PORT :: nat where "MSG_CLIENT_ALTER_PORT \<equiv> 613"
abbreviation (input) MSG_CLIENT_UNBAN :: nat where "MSG_CLIENT_UNBAN \<equiv> 614"
abbreviation (input) MSG_CLIENT_BANLIST :: nat where "MSG_CLIENT_BANLIST \<equiv> 615"
abbreviation (input) MSG_SERVER_IP_BANLIST :: nat where "MSG_SERVER_IP_BANLIST \<equiv> 616"
abbreviation (input) MSG_CLIENT_LIST_CHANNELS :: nat where "MSG_CLIENT_LIST_CHANNELS \<equiv> 617"
abbreviation (input) MSG_SERVER_CHANNEL_LIST_END :: nat where "MSG_SERVER_CHANNEL_LIST_END \<equiv> 617"
abbreviation (input) MSG_SERVER_CHANNEL_LIST :: nat where "MSG_SERVER_CHANNEL_LIST \<equiv> 618"
abbreviation (input) MSG_CLIENT_LIMIT :: nat where "MSG_CLIENT_LIMIT \<equiv> 619"
abbreviation (input) MSG_SERVER_LIMIT :: nat where "MSG_SERVER_LIMIT \<equiv> 620"
abbreviation (input) MSG_CLIENT_MOTD :: nat where "MSG_CLIENT_MOTD \<equiv> 621"
abbreviation (input) MSG_SERVER_MOTD :: nat where "MSG_SERVER_MOTD \<equiv> 621"
abbreviation (input) MSG_CLIENT_MUZZLE :: nat where "MSG_CLIENT_MUZZLE \<equiv> 622"
abbreviation (input) MSG_CLIENT_UNMUZZLE :: nat where "MSG_CLIENT_UNMUZZLE \<equiv> 623"
abbreviation (input) MSG_CLIENT_UNNUKE :: nat where "MSG_CLIENT_UNNUKE \<equiv> 624"
abbreviation (input) MSG_CLIENT_ALTER_SPEED :: nat where "MSG_CLIENT_ALTER_SPEED \<equiv> 625"
abbreviation (input) MSG_CLIENT_DATA_PORT_ERROR :: nat where "MSG_CLIENT_DATA_PORT_ERROR \<equiv> 626"
abbreviation (input) MSG_SERVER_DATA_PORT_ERROR :: nat where "MSG_SERVER_DATA_PORT_ERROR \<equiv> 626"
abbreviation (input) MSG_CLIENT_WALLOP :: nat where "MSG_CLIENT_WALLOP \<equiv> 627"
abbreviation (input) MSG_SERVER_WALLOP :: nat where "MSG_SERVER_WALLOP \<equiv> 627"
abbreviation (input) MSG_CLIENT_ANNOUNCE :: nat where "MSG_CLIENT_ANNOUNCE \<equiv> 628"
abbreviation (input) MSG_SERVER_ANNOUNCE :: nat where "MSG_SERVER_ANNOUNCE \<equiv> 628"
abbreviation (input) MSG_SERVER_NICK_BANLIST :: nat where "MSG_SERVER_NICK_BANLIST \<equiv> 629"
abbreviation (input) MSG_CLIENT_CLOAK :: nat where "MSG_CLIENT_CLOAK \<equiv> 652"
abbreviation (input) MSG_CLIENT_CHANGE_SPEED :: nat where "MSG_CLIENT_CHANGE_SPEED \<equiv> 700"
abbreviation (input) MSG_CLIENT_CHANGE_PASS :: nat where "MSG_CLIENT_CHANGE_PASS \<equiv> 701"
abbreviation (input) MSG_CLIENT_CHANGE_EMAIL :: nat where "MSG_CLIENT_CHANGE_EMAIL \<equiv> 702"
abbreviation (input) MSG_CLIENT_CHANGE_DATA_PORT :: nat where "MSG_CLIENT_CHANGE_DATA_PORT \<equiv> 703"
abbreviation (input) MSG_SERVER_GHOST :: nat where "MSG_SERVER_GHOST \<equiv> 748"
abbreviation (input) MSG_CLIENT_PING_SERVER :: nat where "MSG_CLIENT_PING_SERVER \<equiv> 750"
abbreviation (input) MSG_CLIENT_PING :: nat where "MSG_CLIENT_PING \<equiv> 751"
abbreviation (input) MSG_SERVER_PING :: nat where "MSG_SERVER_PING \<equiv> 751"
abbreviation (input) MSG_CLIENT_PONG :: nat where "MSG_CLIENT_PONG \<equiv> 752"
abbreviation (input) MSG_SERVER_PONG :: nat where "MSG_SERVER_PONG \<equiv> 752"
abbreviation (input) MSG_CLIENT_ALTER_PASS :: nat where "MSG_CLIENT_ALTER_PASS \<equiv> 753"
abbreviation (input) MSG_CLIENT_SERVER_RECONFIG :: nat where "MSG_CLIENT_SERVER_RECONFIG \<equiv> 800"
abbreviation (input) MSG_CLIENT_SERVER_VERSION :: nat where "MSG_CLIENT_SERVER_VERSION \<equiv> 801"
abbreviation (input) MSG_CLIENT_SERVER_CONFIG :: nat where "MSG_CLIENT_SERVER_CONFIG \<equiv> 810"
abbreviation (input) MSG_CLIENT_CLEAR_CHANNEL :: nat where "MSG_CLIENT_CLEAR_CHANNEL \<equiv> 820"
abbreviation (input) MSG_CLIENT_REDIRECT :: nat where "MSG_CLIENT_REDIRECT \<equiv> 821"
abbreviation (input) MSG_CLIENT_CYCLE :: nat where "MSG_CLIENT_CYCLE \<equiv> 822"
abbreviation (input) MSG_CLIENT_SET_CHAN_LEVEL :: nat where "MSG_CLIENT_SET_CHAN_LEVEL \<equiv> 823"
abbreviation (input) MSG_CLIENT_EMOTE :: nat where "MSG_CLIENT_EMOTE \<equiv> 824"
abbreviation (input) MSG_SERVER_NAMES_LIST :: nat where "MSG_SERVER_NAMES_LIST \<equiv> 825"
abbreviation (input) MSG_CLIENT_CHANNEL_LIMIT :: nat where "MSG_CLIENT_CHANNEL_LIMIT \<equiv> 826"
abbreviation (input) MSG_CLIENT_FULL_CHANNEL_LIST :: nat where "MSG_CLIENT_FULL_CHANNEL_LIST \<equiv> 827"
abbreviation (input) MSG_SERVER_FULL_CHANNEL_INFO :: nat where "MSG_SERVER_FULL_CHANNEL_INFO \<equiv> 828"
abbreviation (input) MSG_CLIENT_KICK :: nat where "MSG_CLIENT_KICK \<equiv> 829"
abbreviation (input) MSG_SERVER_NAMES_LIST_END :: nat where "MSG_SERVER_NAMES_LIST_END \<equiv> 830"
abbreviation (input) MSG_CLIENT_NAMES_LIST :: nat where "MSG_CLIENT_NAMES_LIST \<equiv> 830"
abbreviation (input) MSG_CLIENT_GLOBAL_USER_LIST :: nat where "MSG_CLIENT_GLOBAL_USER_LIST \<equiv> 831"
abbreviation (input) MSG_SERVER_GLOBAL_USER_LIST :: nat where "MSG_SERVER_GLOBAL_USER_LIST \<equiv> 832"
abbreviation (input) MSG_CLIENT_ADD_DIRECTORY :: nat where "MSG_CLIENT_ADD_DIRECTORY \<equiv> 870"
abbreviation (input) MSG_CLIENT_QUIT :: nat where "MSG_CLIENT_QUIT \<equiv> 10000"
abbreviation (input) MSG_SERVER_LOGIN :: nat where "MSG_SERVER_LOGIN \<equiv> 10010"
abbreviation (input) MSG_SERVER_LOGIN_ACK :: nat where "MSG_SERVER_LOGIN_ACK \<equiv> 10011"
abbreviation (input) MSG_SERVER_USER_SHARING :: nat where "MSG_SERVER_USER_SHARING \<equiv> 10012"
abbreviation (input) MSG_SERVER_USER_IP :: nat where "MSG_SERVER_USER_IP \<equiv> 10013"
abbreviation (input) MSG_SERVER_REGINFO :: nat where "MSG_SERVER_REGINFO \<equiv> 10014"
abbreviation (input) MSG_SERVER_REMOTE_SEARCH :: nat where "MSG_SERVER_REMOTE_SEARCH \<equiv> 10015"
abbreviation (input) MSG_SERVER_REMOTE_SEARCH_RESULT :: nat where "MSG_SERVER_REMOTE_SEARCH_RESULT \<equiv> 10016"
abbreviation (input) MSG_SERVER_REMOTE_SEARCH_END :: nat where "MSG_SERVER_REMOTE_SEARCH_END \<equiv> 10017"
abbreviation (input) MSG_SERVER_ENCAPSULATED :: nat where "MSG_SERVER_ENCAPSULATED \<equiv> 10018"
abbreviation (input) MSG_SERVER_LINK_INFO :: nat where "MSG_SERVER_LINK_INFO \<equiv> 10019"
abbreviation (input) MSG_SERVER_QUIT :: nat where "MSG_SERVER_QUIT \<equiv> 10020"
abbreviation (input) MSG_SERVER_NOTIFY_MODS :: nat where "MSG_SERVER_NOTIFY_MODS \<equiv> 10021"
abbreviation (input) MSG_CLIENT_CONNECT :: nat where "MSG_CLIENT_CONNECT \<equiv> 10100"
abbreviation (input) MSG_CLIENT_DISCONNECT :: nat where "MSG_CLIENT_DISCONNECT \<equiv> 10101"
abbreviation (input) MSG_CLIENT_KILL_SERVER :: nat where "MSG_CLIENT_KILL_SERVER \<equiv> 10110"
abbreviation (input) MSG_CLIENT_REMOVE_SERVER :: nat where "MSG_CLIENT_REMOVE_SERVER \<equiv> 10111"
abbreviation (input) MSG_CLIENT_LINKS :: nat where "MSG_CLIENT_LINKS \<equiv> 10112"
abbreviation (input) MSG_SERVER_LINKS :: nat where "MSG_SERVER_LINKS \<equiv> 10112"
abbreviation (input) MSG_CLIENT_USAGE_STATS :: nat where "MSG_CLIENT_USAGE_STATS \<equiv> 10115"
abbreviation (input) MSG_SERVER_USAGE_STATS :: nat where "MSG_SERVER_USAGE_STATS \<equiv> 10115"
abbreviation (input) MSG_CLIENT_REHASH :: nat where "MSG_CLIENT_REHASH \<equiv> 10117"
abbreviation (input) MSG_CLIENT_REGISTER_USER :: nat where "MSG_CLIENT_REGISTER_USER \<equiv> 10200"
abbreviation (input) MSG_CLIENT_CHANNEL_LEVEL :: nat where "MSG_CLIENT_CHANNEL_LEVEL \<equiv> 10201"
abbreviation (input) MSG_CLIENT_KICK_USER :: nat where "MSG_CLIENT_KICK_USER \<equiv> 10202"
abbreviation (input) MSG_CLIENT_USER_MODE :: nat where "MSG_CLIENT_USER_MODE \<equiv> 10203"
abbreviation (input) MSG_SERVER_USER_MODE :: nat where "MSG_SERVER_USER_MODE \<equiv> 10203"
abbreviation (input) MSG_CLIENT_OP :: nat where "MSG_CLIENT_OP \<equiv> 10204"
abbreviation (input) MSG_CLIENT_DEOP :: nat where "MSG_CLIENT_DEOP \<equiv> 10205"
abbreviation (input) MSG_CLIENT_OP_LIST :: nat where "MSG_CLIENT_OP_LIST \<equiv> 10206"
abbreviation (input) MSG_CLIENT_DROP_CHANNEL :: nat where "MSG_CLIENT_DROP_CHANNEL \<equiv> 10207"
abbreviation (input) MSG_CLIENT_CHANNEL_WALLOP :: nat where "MSG_CLIENT_CHANNEL_WALLOP \<equiv> 10208"
abbreviation (input) MSG_CLIENT_CHANNEL_MODE :: nat where "MSG_CLIENT_CHANNEL_MODE \<equiv> 10209"
abbreviation (input) MSG_CLIENT_CHANNEL_INVITE :: nat where "MSG_CLIENT_CHANNEL_INVITE \<equiv> 10210"
abbreviation (input) MSG_CLIENT_CHANNEL_VOICE :: nat where "MSG_CLIENT_CHANNEL_VOICE \<equiv> 10211"
abbreviation (input) MSG_CLIENT_CHANNEL_UNVOICE :: nat where "MSG_CLIENT_CHANNEL_UNVOICE \<equiv> 10212"
abbreviation (input) MSG_CLIENT_CHANNEL_MUZZLE :: nat where "MSG_CLIENT_CHANNEL_MUZZLE \<equiv> 10213"
abbreviation (input) MSG_CLIENT_CHANNEL_UNMUZZLE :: nat where "MSG_CLIENT_CHANNEL_UNMUZZLE \<equiv> 10214"
abbreviation (input) MSG_CLIENT_SHARE_FILE :: nat where "MSG_CLIENT_SHARE_FILE \<equiv> 10300"
abbreviation (input) MSG_CLIENT_BROWSE_NEW :: nat where "MSG_CLIENT_BROWSE_NEW \<equiv> 10301"
abbreviation (input) MSG_SERVER_BROWSE_RESULT_NEW :: nat where "MSG_SERVER_BROWSE_RESULT_NEW \<equiv> 10302"

section \<open>Data\<close>

type_synonym uid = nat
type_synonym chid = nat
type_synonym cid = nat
type_synonym did = nat
type_synonym hid = nat

record chanuser =
  cu_flags :: "32 word"
  cu_user :: uid

record ban =
  b_target :: string
  b_setby :: string
  b_reason :: "string option"
  b_when :: int
  b_timeout :: int

record channel =
  ch_name :: string
  ch_topic :: string
  ch_ops :: "string list"
  ch_users :: "chanuser list"
  ch_limit :: nat
  ch_flags :: "32 word"
  ch_level :: level
  ch_bans :: "ban list"
  ch_timestamp :: int
  ch_invited :: "uid list"

record user =
  u_nick :: string
  u_pass :: string
  u_level :: level
  u_speed :: nat
  u_local :: bool
  u_muzzled :: bool
  u_cloaked :: bool
  u_sharing :: bool
  u_unsharing :: bool
  u_shared :: nat
  u_libsize :: int
  u_ip :: "32 word"
  u_server :: string
  u_con :: cid
  u_clientinfo :: string
  u_uploads :: nat
  u_downloads :: nat
  u_totalup :: nat
  u_totaldown :: nat
  u_port :: nat
  u_conport :: nat
  u_connected :: int
  u_channels :: "chid list"
  u_invited :: "chid list"

text \<open>
  A connection carries the fields of its \<open>USEROPT\<close> and \<open>AUTH\<close> parts directly.  The former, as \<open>c_user\<close>,
  are used for \<open>CLASS_USER\<close> connections only, \<open>c_files\<close> being the table of the files that the user shares
  (\<open>NULL\<close> before the first one); \<open>c_recvbuf\<close> is the input that is not consumed yet; \<open>c_nonce\<close> and \<open>c_sendernonce\<close> belong to \<open>AUTH\<close>, which is there while
  \<open>c_server_login\<close> is set, and \<open>c_local_port\<close> is what \<open>get_local_port\<close> returns for the socket.  An address is in network byte order, its first octet the lowest byte.
\<close>

record conn =
  c_class :: conn_class
  c_user :: uid
  c_host :: string
  c_numerics :: bool
  c_destroy :: bool
  c_killed :: bool
  c_flood :: int
  c_usermode :: "32 word"
  c_hotlist :: "hid list"
  c_ignore :: "string list"
  c_ip :: "32 word"
  c_port :: nat
  c_local_port :: nat
  c_connecting :: bool
  c_server_login :: bool
  c_nonce :: "string option"
  c_sendernonce :: "string option"
  c_compress :: int
  c_timer :: int
  c_files :: "nat htab option"
  c_recvbuf :: string

record hotlist =
  h_nick :: string
  h_users :: "cid list"

record userdb =
  db_nick :: string
  db_password :: string
  db_email :: string
  db_level :: level
  db_flags :: "16 word"
  db_timestamp :: int
  db_lastSeen :: int

record link =
  l_server :: string
  l_peer :: string
  l_port :: nat
  l_peerport :: nat
  l_hops :: int

record config =
  Server_Name :: string
  Max_Nick_Length :: int
  Max_Channel_Length :: int
  Max_User_Channels :: int
  Max_Hotlist :: int
  Max_Ignore :: int
  Max_Topic :: int
  Max_Reason :: int
  Channel_Limit :: int
  Nick_Expire :: int
  Flood_Commands :: int
  Flood_Time :: int
  Strict_Channels :: bool
  Registered_Only :: bool
  Auto_Register :: bool
  Eject_When_Full :: bool
  Max_Client_String :: int
  Max_Clones :: int
  Max_Connections :: int
  Max_Command_Length :: int
  Max_Shared :: int
  Max_Search_Results :: int
  Max_Browse_Result :: int
  Search_Timeout :: int
  Login_Timeout :: int
  Server_Pass :: string
  Compression_Level :: int
  Client_Queue_Length :: int
  Server_Queue_Length :: int
  Stat_Click :: int
  Listen_Addr :: string
  Server_Ports :: "string list"
  Collect_Interval :: int
  Uid :: int
  Gid :: int
  Connection_Hard_Limit :: int
  Max_Data_Size :: int
  Max_Rss_Size :: int
  Lock_Memory :: bool
  User_Db_Interval :: int
  Config_Dir :: string
  Stats_Port :: int

text \<open>A search that waits for other servers (\<open>src/search.c\<close>).\<close>

record dsearch =
  ds_con :: cid
  ds_nick :: string
  ds_id :: string
  ds_count :: int
  ds_numServers :: int
  ds_timestamp :: int

text \<open>
  A shared file (\<open>DATUM\<close>) and the list of the files that have a word in their name (\<open>FLIST\<close>), for a build
  without \<open>--enable-resume\<close>.  \<open>d_user\<close> is \<open>None\<close> and \<open>d_size\<close> -1 once the file is no longer shared.
\<close>

type_synonym fid = nat
type_synonym flid = nat

record datum =
  d_user :: "uid option"
  d_filename :: string
  d_size :: "32 word"
  d_duration :: nat
  d_bitrate :: nat
  d_frequency :: nat
  d_type :: nat
  d_refcount :: "5 word"

record flist =
  fl_key :: string
  fl_list :: "fid list"
  fl_count :: int

text \<open>
  Globals that few handlers use: \<open>LastFlooder\<close> of \<open>src/handler.c\<close>, the lines of the \<open>motd\<close> file,
  \<open>Remote_Search\<close> of \<open>src/search.c\<close>, the word filter, the stores of shared files and of their lists with
  their allocators, and the table of the lists.
\<close>

record misc =
  m_Num_Clients :: int
  m_LastFlooder :: string
  m_Server_Names :: "string list"
  m_motd :: "string list"
  m_SigCaught :: bool
  m_searches :: "dsearch list"
  m_Search_Count :: nat
  m_Filter :: "string htab option"
  m_datums :: "fid \<rightharpoonup> datum"
  m_flists :: "flid \<rightharpoonup> flist"
  m_File_Table :: "flid htab"
  m_next_file :: nat
  m_next_flist :: nat
  m_servers :: "string list option"

type_synonym frame = "cid \<times> nat \<times> string"

record srv =
  s_users :: "uid \<rightharpoonup> user"
  s_chans :: "chid \<rightharpoonup> channel"
  s_conns :: "cid \<rightharpoonup> conn"
  s_dbs :: "did \<rightharpoonup> userdb"
  s_hotl :: "hid \<rightharpoonup> hotlist"
  s_Users :: "uid htab"
  s_Channels :: "chid htab"
  s_Hotlist :: "hid htab"
  s_User_Db :: "did htab"
  s_Bans :: "ban list"
  s_Servers :: "cid list"
  s_Server_Links :: "link list"
  s_Clients :: "cid option list"
  s_next :: nat
  s_next_db :: nat
  s_next_hot :: nat
  s_rand :: "nat \<Rightarrow> nat"
  s_cfg :: config
  s_time :: int
  s_Buf_len :: nat
  s_Num_Files :: int
  s_Num_Gigs :: int
  s_Local_Files :: int
  s_misc :: misc
  s_out :: "frame list"

text \<open>
  \<open>s_next\<close>, \<open>s_next_db\<close> and \<open>s_next_hot\<close> are the allocators: the next identifier of a
  channel, registration and hotlist entry, above all identifiers in use.  \<open>s_rand\<close> are the values
  that the calls of \<open>rand ()\<close> to come will return.  \<open>s_Buf_len\<close> is
  \<open>strlen (Buf)\<close> of the global scratch buffer when a handler is entered; only \<open>join\<close> reads it.
\<close>

abbreviation usr :: "srv \<Rightarrow> uid \<Rightarrow> user" where "usr s u \<equiv> the (s_users s u)"
abbreviation chn :: "srv \<Rightarrow> chid \<Rightarrow> channel" where "chn s c \<equiv> the (s_chans s c)"
abbreviation cnx :: "srv \<Rightarrow> cid \<Rightarrow> conn" where "cnx s c \<equiv> the (s_conns s c)"
abbreviation dbs :: "srv \<Rightarrow> did \<Rightarrow> userdb" where "dbs s d \<equiv> the (s_dbs s d)"
abbreviation hot :: "srv \<Rightarrow> hid \<Rightarrow> hotlist" where "hot s h \<equiv> the (s_hotl s h)"
abbreviation user_con :: "srv \<Rightarrow> uid \<Rightarrow> cid" where "user_con s u \<equiv> u_con (usr s u)"

definition ISSERVER :: "cid \<Rightarrow> srv \<Rightarrow> bool" where
  "ISSERVER c s \<longleftrightarrow> c_class (cnx s c) = CLASS_SERVER"

definition ISUSER :: "cid \<Rightarrow> srv \<Rightarrow> bool" where
  "ISUSER c s \<longleftrightarrow> c_class (cnx s c) = CLASS_USER"

definition ISUNKNOWN :: "cid \<Rightarrow> srv \<Rightarrow> bool" where
  "ISUNKNOWN c s \<longleftrightarrow> c_class (cnx s c) = CLASS_UNKNOWN"

definition my_ntoa :: "32 word \<Rightarrow> string" where
  "my_ntoa ip =
     nat_dec (unat ip mod 256) @ ''.'' @ nat_dec (unat ip div 2 ^ 8 mod 256) @ ''.'' @
     nat_dec (unat ip div 2 ^ 16 mod 256) @ ''.'' @ nat_dec (unat ip div 2 ^ 24)"

text \<open>Assignments through a pointer.\<close>

definition upd_user :: "uid \<Rightarrow> (user \<Rightarrow> user) \<Rightarrow> srv \<Rightarrow> srv" where
  "upd_user u f s = s\<lparr>s_users := (s_users s)(u := map_option f (s_users s u))\<rparr>"

definition upd_chan :: "chid \<Rightarrow> (channel \<Rightarrow> channel) \<Rightarrow> srv \<Rightarrow> srv" where
  "upd_chan c f s = s\<lparr>s_chans := (s_chans s)(c := map_option f (s_chans s c))\<rparr>"

definition upd_conn :: "cid \<Rightarrow> (conn \<Rightarrow> conn) \<Rightarrow> srv \<Rightarrow> srv" where
  "upd_conn c f s = s\<lparr>s_conns := (s_conns s)(c := map_option f (s_conns s c))\<rparr>"

definition upd_db :: "did \<Rightarrow> (userdb \<Rightarrow> userdb) \<Rightarrow> srv \<Rightarrow> srv" where
  "upd_db d f s = s\<lparr>s_dbs := (s_dbs s)(d := map_option f (s_dbs s d))\<rparr>"

definition upd_hot :: "hid \<Rightarrow> (hotlist \<Rightarrow> hotlist) \<Rightarrow> srv \<Rightarrow> srv" where
  "upd_hot h f s = s\<lparr>s_hotl := (s_hotl s)(h := map_option f (s_hotl s h))\<rparr>"

section \<open>Output\<close>

definition emit :: "frame list \<Rightarrow> srv \<Rightarrow> srv" where
  "emit fs s = s\<lparr>s_out := s_out s @ fs\<rparr>"

definition queue_data :: "cid \<Rightarrow> nat \<Rightarrow> string \<Rightarrow> srv \<Rightarrow> srv" where
  "queue_data con tag text s = emit [(con, tag, text)] s"

text \<open>\<open>Buf\<close> has 2048 bytes, 4 of them the header.\<close>

definition form_message :: "string \<Rightarrow> string" where
  "form_message text = snprintf_to (2048 - 4) text"

definition send_cmd :: "cid \<Rightarrow> nat \<Rightarrow> string \<Rightarrow> srv \<Rightarrow> srv" where
  "send_cmd con msgtype text s = queue_data con msgtype (form_message text) s"

definition pass_message :: "cid option \<Rightarrow> nat \<Rightarrow> string \<Rightarrow> srv \<Rightarrow> srv" where
  "pass_message con tag pkt s =
     emit (map (\<lambda>c. (c, tag, pkt)) (filter (\<lambda>c. Some c \<noteq> con) (s_Servers s))) s"

definition pass_message_args :: "cid option \<Rightarrow> nat \<Rightarrow> string \<Rightarrow> srv \<Rightarrow> srv" where
  "pass_message_args con msgtype text s =
     (if s_Servers s = [] then s else pass_message con msgtype (form_message text) s)"

definition send_cmd_pre :: "cid \<Rightarrow> nat \<Rightarrow> string \<Rightarrow> string \<Rightarrow> srv \<Rightarrow> srv" where
  "send_cmd_pre con tag prefix text s =
     (if c_numerics (cnx s con) then queue_data con tag (form_message text) s
      else queue_data con MSG_SERVER_NOSUCH (form_message (prefix @ text)) s)"

definition send_user :: "uid \<Rightarrow> nat \<Rightarrow> string \<Rightarrow> srv \<Rightarrow> srv" where
  "send_user user tag text s =
     (if u_local (usr s user) then queue_data (user_con s user) tag (form_message text) s
      else
        let pre = form_message ('':'' @ Server_Name (s_cfg s) @ '' '' @ u_nick (usr s user) @ '' '');
            body = snprintf_to (2048 - 8 - length pre) text
        in queue_data (user_con s user) MSG_SERVER_ENCAPSULATED
             (pre @ set_val (length body) @ set_val tag @ body) s)"

definition notify_mods :: "32 word \<Rightarrow> string \<Rightarrow> srv \<Rightarrow> srv" where
  "notify_mods lvl text s =
     emit [(c, MSG_SERVER_NOSUCH, form_message text).
             Some c \<leftarrow> s_Clients s,
             ISUSER c s \<and> LEVEL_MODERATOR \<le> u_level (usr s (c_user (cnx s c))) \<and>
             c_usermode (cnx s c) AND lvl \<noteq> 0] s"

text \<open>\<open>notify_ops\<close> formats into a local buffer of 256 bytes.\<close>

definition notify_ops :: "chid \<Rightarrow> string \<Rightarrow> srv \<Rightarrow> srv" where
  "notify_ops chan text s =
     emit [(user_con s (cu_user cu), MSG_SERVER_NOSUCH, snprintf_to (256 - 4) text).
             cu \<leftarrow> ch_users (chn s chan),
             ISUSER (user_con s (cu_user cu)) s \<and>
             (cu_flags cu AND ON_OPERATOR \<noteq> 0 \<or> LEVEL_USER < u_level (usr s (cu_user cu)))] s"

definition nosuchuser :: "cid \<Rightarrow> srv \<Rightarrow> srv" where
  "nosuchuser con s =
     (if ISUSER con s then send_cmd con MSG_SERVER_NOSUCH ''User is not currently online.'' s else s)"

definition permission_denied :: "cid \<Rightarrow> srv \<Rightarrow> srv" where
  "permission_denied con s =
     (if ISUSER con s then send_cmd con MSG_SERVER_NOSUCH ''permission denied'' s else s)"

definition unparsable :: "cid \<Rightarrow> srv \<Rightarrow> srv" where
  "unparsable con s =
     (if ISUSER con s then send_cmd con MSG_SERVER_NOSUCH ''parameters are unparsable'' s else s)"

definition nosuchchannel :: "cid \<Rightarrow> srv \<Rightarrow> srv" where
  "nosuchchannel con s =
     (if ISUSER con s then send_cmd con MSG_SERVER_NOSUCH ''no such channel'' s else s)"

definition invalid_channel_msg :: "cid \<Rightarrow> srv \<Rightarrow> srv" where
  "invalid_channel_msg con s =
     (if ISUSER con s then send_cmd con MSG_SERVER_NOSUCH ''invalid channel'' s else s)"

definition invalid_nick_msg :: "cid \<Rightarrow> srv \<Rightarrow> srv" where
  "invalid_nick_msg con s =
     (if ISUSER con s then send_cmd con MSG_SERVER_NOSUCH ''invalid nickname'' s else s)"

text \<open>The frequent \<open>if (ISUSER (con)) send_cmd (con, MSG_SERVER_NOSUCH, ...)\<close>.\<close>

definition tell_user :: "cid \<Rightarrow> string \<Rightarrow> srv \<Rightarrow> srv" where
  "tell_user con text s = (if ISUSER con s then send_cmd con MSG_SERVER_NOSUCH text s else s)"


subsection \<open>What output leaves unchanged\<close>

text \<open>The output routines change \<open>s_out\<close> only, the assignments one store only.\<close>

lemma emit_frame [simp]:
  "s_users (emit fs s) = s_users s"
  "s_chans (emit fs s) = s_chans s"
  "s_conns (emit fs s) = s_conns s"
  "s_dbs (emit fs s) = s_dbs s"
  "s_hotl (emit fs s) = s_hotl s"
  "s_Users (emit fs s) = s_Users s"
  "s_Channels (emit fs s) = s_Channels s"
  "s_Hotlist (emit fs s) = s_Hotlist s"
  "s_User_Db (emit fs s) = s_User_Db s"
  "s_Bans (emit fs s) = s_Bans s"
  "s_Servers (emit fs s) = s_Servers s"
  "s_Server_Links (emit fs s) = s_Server_Links s"
  "s_Clients (emit fs s) = s_Clients s"
  "s_next (emit fs s) = s_next s"
  "s_next_db (emit fs s) = s_next_db s"
  "s_next_hot (emit fs s) = s_next_hot s"
  "s_rand (emit fs s) = s_rand s"
  "s_cfg (emit fs s) = s_cfg s"
  "s_time (emit fs s) = s_time s"
  "s_Buf_len (emit fs s) = s_Buf_len s"
  "s_Num_Files (emit fs s) = s_Num_Files s"
  "s_Num_Gigs (emit fs s) = s_Num_Gigs s"
  "s_Local_Files (emit fs s) = s_Local_Files s"
  "s_misc (emit fs s) = s_misc s"
  by (simp_all add: emit_def)

lemma queue_data_frame [simp]:
  "s_users (queue_data c t m s) = s_users s"
  "s_chans (queue_data c t m s) = s_chans s"
  "s_conns (queue_data c t m s) = s_conns s"
  "s_dbs (queue_data c t m s) = s_dbs s"
  "s_hotl (queue_data c t m s) = s_hotl s"
  "s_Users (queue_data c t m s) = s_Users s"
  "s_Channels (queue_data c t m s) = s_Channels s"
  "s_Hotlist (queue_data c t m s) = s_Hotlist s"
  "s_User_Db (queue_data c t m s) = s_User_Db s"
  "s_Bans (queue_data c t m s) = s_Bans s"
  "s_Servers (queue_data c t m s) = s_Servers s"
  "s_Server_Links (queue_data c t m s) = s_Server_Links s"
  "s_Clients (queue_data c t m s) = s_Clients s"
  "s_next (queue_data c t m s) = s_next s"
  "s_next_db (queue_data c t m s) = s_next_db s"
  "s_next_hot (queue_data c t m s) = s_next_hot s"
  "s_rand (queue_data c t m s) = s_rand s"
  "s_cfg (queue_data c t m s) = s_cfg s"
  "s_time (queue_data c t m s) = s_time s"
  "s_Buf_len (queue_data c t m s) = s_Buf_len s"
  "s_Num_Files (queue_data c t m s) = s_Num_Files s"
  "s_Num_Gigs (queue_data c t m s) = s_Num_Gigs s"
  "s_Local_Files (queue_data c t m s) = s_Local_Files s"
  "s_misc (queue_data c t m s) = s_misc s"
  by (simp_all add: queue_data_def)

lemma send_cmd_frame [simp]:
  "s_users (send_cmd c t m s) = s_users s"
  "s_chans (send_cmd c t m s) = s_chans s"
  "s_conns (send_cmd c t m s) = s_conns s"
  "s_dbs (send_cmd c t m s) = s_dbs s"
  "s_hotl (send_cmd c t m s) = s_hotl s"
  "s_Users (send_cmd c t m s) = s_Users s"
  "s_Channels (send_cmd c t m s) = s_Channels s"
  "s_Hotlist (send_cmd c t m s) = s_Hotlist s"
  "s_User_Db (send_cmd c t m s) = s_User_Db s"
  "s_Bans (send_cmd c t m s) = s_Bans s"
  "s_Servers (send_cmd c t m s) = s_Servers s"
  "s_Server_Links (send_cmd c t m s) = s_Server_Links s"
  "s_Clients (send_cmd c t m s) = s_Clients s"
  "s_next (send_cmd c t m s) = s_next s"
  "s_next_db (send_cmd c t m s) = s_next_db s"
  "s_next_hot (send_cmd c t m s) = s_next_hot s"
  "s_rand (send_cmd c t m s) = s_rand s"
  "s_cfg (send_cmd c t m s) = s_cfg s"
  "s_time (send_cmd c t m s) = s_time s"
  "s_Buf_len (send_cmd c t m s) = s_Buf_len s"
  "s_Num_Files (send_cmd c t m s) = s_Num_Files s"
  "s_Num_Gigs (send_cmd c t m s) = s_Num_Gigs s"
  "s_Local_Files (send_cmd c t m s) = s_Local_Files s"
  "s_misc (send_cmd c t m s) = s_misc s"
  by (simp_all add: send_cmd_def)

lemma pass_message_frame [simp]:
  "s_users (pass_message c t m s) = s_users s"
  "s_chans (pass_message c t m s) = s_chans s"
  "s_conns (pass_message c t m s) = s_conns s"
  "s_dbs (pass_message c t m s) = s_dbs s"
  "s_hotl (pass_message c t m s) = s_hotl s"
  "s_Users (pass_message c t m s) = s_Users s"
  "s_Channels (pass_message c t m s) = s_Channels s"
  "s_Hotlist (pass_message c t m s) = s_Hotlist s"
  "s_User_Db (pass_message c t m s) = s_User_Db s"
  "s_Bans (pass_message c t m s) = s_Bans s"
  "s_Servers (pass_message c t m s) = s_Servers s"
  "s_Server_Links (pass_message c t m s) = s_Server_Links s"
  "s_Clients (pass_message c t m s) = s_Clients s"
  "s_next (pass_message c t m s) = s_next s"
  "s_next_db (pass_message c t m s) = s_next_db s"
  "s_next_hot (pass_message c t m s) = s_next_hot s"
  "s_rand (pass_message c t m s) = s_rand s"
  "s_cfg (pass_message c t m s) = s_cfg s"
  "s_time (pass_message c t m s) = s_time s"
  "s_Buf_len (pass_message c t m s) = s_Buf_len s"
  "s_Num_Files (pass_message c t m s) = s_Num_Files s"
  "s_Num_Gigs (pass_message c t m s) = s_Num_Gigs s"
  "s_Local_Files (pass_message c t m s) = s_Local_Files s"
  "s_misc (pass_message c t m s) = s_misc s"
  by (simp_all add: pass_message_def)

lemma pass_message_args_frame [simp]:
  "s_users (pass_message_args c t m s) = s_users s"
  "s_chans (pass_message_args c t m s) = s_chans s"
  "s_conns (pass_message_args c t m s) = s_conns s"
  "s_dbs (pass_message_args c t m s) = s_dbs s"
  "s_hotl (pass_message_args c t m s) = s_hotl s"
  "s_Users (pass_message_args c t m s) = s_Users s"
  "s_Channels (pass_message_args c t m s) = s_Channels s"
  "s_Hotlist (pass_message_args c t m s) = s_Hotlist s"
  "s_User_Db (pass_message_args c t m s) = s_User_Db s"
  "s_Bans (pass_message_args c t m s) = s_Bans s"
  "s_Servers (pass_message_args c t m s) = s_Servers s"
  "s_Server_Links (pass_message_args c t m s) = s_Server_Links s"
  "s_Clients (pass_message_args c t m s) = s_Clients s"
  "s_next (pass_message_args c t m s) = s_next s"
  "s_next_db (pass_message_args c t m s) = s_next_db s"
  "s_next_hot (pass_message_args c t m s) = s_next_hot s"
  "s_rand (pass_message_args c t m s) = s_rand s"
  "s_cfg (pass_message_args c t m s) = s_cfg s"
  "s_time (pass_message_args c t m s) = s_time s"
  "s_Buf_len (pass_message_args c t m s) = s_Buf_len s"
  "s_Num_Files (pass_message_args c t m s) = s_Num_Files s"
  "s_Num_Gigs (pass_message_args c t m s) = s_Num_Gigs s"
  "s_Local_Files (pass_message_args c t m s) = s_Local_Files s"
  "s_misc (pass_message_args c t m s) = s_misc s"
  by (simp_all add: pass_message_args_def)

lemma send_cmd_pre_frame [simp]:
  "s_users (send_cmd_pre c t p m s) = s_users s"
  "s_chans (send_cmd_pre c t p m s) = s_chans s"
  "s_conns (send_cmd_pre c t p m s) = s_conns s"
  "s_dbs (send_cmd_pre c t p m s) = s_dbs s"
  "s_hotl (send_cmd_pre c t p m s) = s_hotl s"
  "s_Users (send_cmd_pre c t p m s) = s_Users s"
  "s_Channels (send_cmd_pre c t p m s) = s_Channels s"
  "s_Hotlist (send_cmd_pre c t p m s) = s_Hotlist s"
  "s_User_Db (send_cmd_pre c t p m s) = s_User_Db s"
  "s_Bans (send_cmd_pre c t p m s) = s_Bans s"
  "s_Servers (send_cmd_pre c t p m s) = s_Servers s"
  "s_Server_Links (send_cmd_pre c t p m s) = s_Server_Links s"
  "s_Clients (send_cmd_pre c t p m s) = s_Clients s"
  "s_next (send_cmd_pre c t p m s) = s_next s"
  "s_next_db (send_cmd_pre c t p m s) = s_next_db s"
  "s_next_hot (send_cmd_pre c t p m s) = s_next_hot s"
  "s_rand (send_cmd_pre c t p m s) = s_rand s"
  "s_cfg (send_cmd_pre c t p m s) = s_cfg s"
  "s_time (send_cmd_pre c t p m s) = s_time s"
  "s_Buf_len (send_cmd_pre c t p m s) = s_Buf_len s"
  "s_Num_Files (send_cmd_pre c t p m s) = s_Num_Files s"
  "s_Num_Gigs (send_cmd_pre c t p m s) = s_Num_Gigs s"
  "s_Local_Files (send_cmd_pre c t p m s) = s_Local_Files s"
  "s_misc (send_cmd_pre c t p m s) = s_misc s"
  by (simp_all add: send_cmd_pre_def)

lemma send_user_frame [simp]:
  "s_users (send_user u t m s) = s_users s"
  "s_chans (send_user u t m s) = s_chans s"
  "s_conns (send_user u t m s) = s_conns s"
  "s_dbs (send_user u t m s) = s_dbs s"
  "s_hotl (send_user u t m s) = s_hotl s"
  "s_Users (send_user u t m s) = s_Users s"
  "s_Channels (send_user u t m s) = s_Channels s"
  "s_Hotlist (send_user u t m s) = s_Hotlist s"
  "s_User_Db (send_user u t m s) = s_User_Db s"
  "s_Bans (send_user u t m s) = s_Bans s"
  "s_Servers (send_user u t m s) = s_Servers s"
  "s_Server_Links (send_user u t m s) = s_Server_Links s"
  "s_Clients (send_user u t m s) = s_Clients s"
  "s_next (send_user u t m s) = s_next s"
  "s_next_db (send_user u t m s) = s_next_db s"
  "s_next_hot (send_user u t m s) = s_next_hot s"
  "s_rand (send_user u t m s) = s_rand s"
  "s_cfg (send_user u t m s) = s_cfg s"
  "s_time (send_user u t m s) = s_time s"
  "s_Buf_len (send_user u t m s) = s_Buf_len s"
  "s_Num_Files (send_user u t m s) = s_Num_Files s"
  "s_Num_Gigs (send_user u t m s) = s_Num_Gigs s"
  "s_Local_Files (send_user u t m s) = s_Local_Files s"
  "s_misc (send_user u t m s) = s_misc s"
  by (simp_all add: send_user_def Let_def)

lemma notify_mods_frame [simp]:
  "s_users (notify_mods l m s) = s_users s"
  "s_chans (notify_mods l m s) = s_chans s"
  "s_conns (notify_mods l m s) = s_conns s"
  "s_dbs (notify_mods l m s) = s_dbs s"
  "s_hotl (notify_mods l m s) = s_hotl s"
  "s_Users (notify_mods l m s) = s_Users s"
  "s_Channels (notify_mods l m s) = s_Channels s"
  "s_Hotlist (notify_mods l m s) = s_Hotlist s"
  "s_User_Db (notify_mods l m s) = s_User_Db s"
  "s_Bans (notify_mods l m s) = s_Bans s"
  "s_Servers (notify_mods l m s) = s_Servers s"
  "s_Server_Links (notify_mods l m s) = s_Server_Links s"
  "s_Clients (notify_mods l m s) = s_Clients s"
  "s_next (notify_mods l m s) = s_next s"
  "s_next_db (notify_mods l m s) = s_next_db s"
  "s_next_hot (notify_mods l m s) = s_next_hot s"
  "s_rand (notify_mods l m s) = s_rand s"
  "s_cfg (notify_mods l m s) = s_cfg s"
  "s_time (notify_mods l m s) = s_time s"
  "s_Buf_len (notify_mods l m s) = s_Buf_len s"
  "s_Num_Files (notify_mods l m s) = s_Num_Files s"
  "s_Num_Gigs (notify_mods l m s) = s_Num_Gigs s"
  "s_Local_Files (notify_mods l m s) = s_Local_Files s"
  "s_misc (notify_mods l m s) = s_misc s"
  by (simp_all add: notify_mods_def)

lemma notify_ops_frame [simp]:
  "s_users (notify_ops ch m s) = s_users s"
  "s_chans (notify_ops ch m s) = s_chans s"
  "s_conns (notify_ops ch m s) = s_conns s"
  "s_dbs (notify_ops ch m s) = s_dbs s"
  "s_hotl (notify_ops ch m s) = s_hotl s"
  "s_Users (notify_ops ch m s) = s_Users s"
  "s_Channels (notify_ops ch m s) = s_Channels s"
  "s_Hotlist (notify_ops ch m s) = s_Hotlist s"
  "s_User_Db (notify_ops ch m s) = s_User_Db s"
  "s_Bans (notify_ops ch m s) = s_Bans s"
  "s_Servers (notify_ops ch m s) = s_Servers s"
  "s_Server_Links (notify_ops ch m s) = s_Server_Links s"
  "s_Clients (notify_ops ch m s) = s_Clients s"
  "s_next (notify_ops ch m s) = s_next s"
  "s_next_db (notify_ops ch m s) = s_next_db s"
  "s_next_hot (notify_ops ch m s) = s_next_hot s"
  "s_rand (notify_ops ch m s) = s_rand s"
  "s_cfg (notify_ops ch m s) = s_cfg s"
  "s_time (notify_ops ch m s) = s_time s"
  "s_Buf_len (notify_ops ch m s) = s_Buf_len s"
  "s_Num_Files (notify_ops ch m s) = s_Num_Files s"
  "s_Num_Gigs (notify_ops ch m s) = s_Num_Gigs s"
  "s_Local_Files (notify_ops ch m s) = s_Local_Files s"
  "s_misc (notify_ops ch m s) = s_misc s"
  by (simp_all add: notify_ops_def)

lemma nosuchuser_frame [simp]:
  "s_users (nosuchuser c s) = s_users s"
  "s_chans (nosuchuser c s) = s_chans s"
  "s_conns (nosuchuser c s) = s_conns s"
  "s_dbs (nosuchuser c s) = s_dbs s"
  "s_hotl (nosuchuser c s) = s_hotl s"
  "s_Users (nosuchuser c s) = s_Users s"
  "s_Channels (nosuchuser c s) = s_Channels s"
  "s_Hotlist (nosuchuser c s) = s_Hotlist s"
  "s_User_Db (nosuchuser c s) = s_User_Db s"
  "s_Bans (nosuchuser c s) = s_Bans s"
  "s_Servers (nosuchuser c s) = s_Servers s"
  "s_Server_Links (nosuchuser c s) = s_Server_Links s"
  "s_Clients (nosuchuser c s) = s_Clients s"
  "s_next (nosuchuser c s) = s_next s"
  "s_next_db (nosuchuser c s) = s_next_db s"
  "s_next_hot (nosuchuser c s) = s_next_hot s"
  "s_rand (nosuchuser c s) = s_rand s"
  "s_cfg (nosuchuser c s) = s_cfg s"
  "s_time (nosuchuser c s) = s_time s"
  "s_Buf_len (nosuchuser c s) = s_Buf_len s"
  "s_Num_Files (nosuchuser c s) = s_Num_Files s"
  "s_Num_Gigs (nosuchuser c s) = s_Num_Gigs s"
  "s_Local_Files (nosuchuser c s) = s_Local_Files s"
  "s_misc (nosuchuser c s) = s_misc s"
  by (simp_all add: nosuchuser_def)

lemma permission_denied_frame [simp]:
  "s_users (permission_denied c s) = s_users s"
  "s_chans (permission_denied c s) = s_chans s"
  "s_conns (permission_denied c s) = s_conns s"
  "s_dbs (permission_denied c s) = s_dbs s"
  "s_hotl (permission_denied c s) = s_hotl s"
  "s_Users (permission_denied c s) = s_Users s"
  "s_Channels (permission_denied c s) = s_Channels s"
  "s_Hotlist (permission_denied c s) = s_Hotlist s"
  "s_User_Db (permission_denied c s) = s_User_Db s"
  "s_Bans (permission_denied c s) = s_Bans s"
  "s_Servers (permission_denied c s) = s_Servers s"
  "s_Server_Links (permission_denied c s) = s_Server_Links s"
  "s_Clients (permission_denied c s) = s_Clients s"
  "s_next (permission_denied c s) = s_next s"
  "s_next_db (permission_denied c s) = s_next_db s"
  "s_next_hot (permission_denied c s) = s_next_hot s"
  "s_rand (permission_denied c s) = s_rand s"
  "s_cfg (permission_denied c s) = s_cfg s"
  "s_time (permission_denied c s) = s_time s"
  "s_Buf_len (permission_denied c s) = s_Buf_len s"
  "s_Num_Files (permission_denied c s) = s_Num_Files s"
  "s_Num_Gigs (permission_denied c s) = s_Num_Gigs s"
  "s_Local_Files (permission_denied c s) = s_Local_Files s"
  "s_misc (permission_denied c s) = s_misc s"
  by (simp_all add: permission_denied_def)

lemma unparsable_frame [simp]:
  "s_users (unparsable c s) = s_users s"
  "s_chans (unparsable c s) = s_chans s"
  "s_conns (unparsable c s) = s_conns s"
  "s_dbs (unparsable c s) = s_dbs s"
  "s_hotl (unparsable c s) = s_hotl s"
  "s_Users (unparsable c s) = s_Users s"
  "s_Channels (unparsable c s) = s_Channels s"
  "s_Hotlist (unparsable c s) = s_Hotlist s"
  "s_User_Db (unparsable c s) = s_User_Db s"
  "s_Bans (unparsable c s) = s_Bans s"
  "s_Servers (unparsable c s) = s_Servers s"
  "s_Server_Links (unparsable c s) = s_Server_Links s"
  "s_Clients (unparsable c s) = s_Clients s"
  "s_next (unparsable c s) = s_next s"
  "s_next_db (unparsable c s) = s_next_db s"
  "s_next_hot (unparsable c s) = s_next_hot s"
  "s_rand (unparsable c s) = s_rand s"
  "s_cfg (unparsable c s) = s_cfg s"
  "s_time (unparsable c s) = s_time s"
  "s_Buf_len (unparsable c s) = s_Buf_len s"
  "s_Num_Files (unparsable c s) = s_Num_Files s"
  "s_Num_Gigs (unparsable c s) = s_Num_Gigs s"
  "s_Local_Files (unparsable c s) = s_Local_Files s"
  "s_misc (unparsable c s) = s_misc s"
  by (simp_all add: unparsable_def)

lemma nosuchchannel_frame [simp]:
  "s_users (nosuchchannel c s) = s_users s"
  "s_chans (nosuchchannel c s) = s_chans s"
  "s_conns (nosuchchannel c s) = s_conns s"
  "s_dbs (nosuchchannel c s) = s_dbs s"
  "s_hotl (nosuchchannel c s) = s_hotl s"
  "s_Users (nosuchchannel c s) = s_Users s"
  "s_Channels (nosuchchannel c s) = s_Channels s"
  "s_Hotlist (nosuchchannel c s) = s_Hotlist s"
  "s_User_Db (nosuchchannel c s) = s_User_Db s"
  "s_Bans (nosuchchannel c s) = s_Bans s"
  "s_Servers (nosuchchannel c s) = s_Servers s"
  "s_Server_Links (nosuchchannel c s) = s_Server_Links s"
  "s_Clients (nosuchchannel c s) = s_Clients s"
  "s_next (nosuchchannel c s) = s_next s"
  "s_next_db (nosuchchannel c s) = s_next_db s"
  "s_next_hot (nosuchchannel c s) = s_next_hot s"
  "s_rand (nosuchchannel c s) = s_rand s"
  "s_cfg (nosuchchannel c s) = s_cfg s"
  "s_time (nosuchchannel c s) = s_time s"
  "s_Buf_len (nosuchchannel c s) = s_Buf_len s"
  "s_Num_Files (nosuchchannel c s) = s_Num_Files s"
  "s_Num_Gigs (nosuchchannel c s) = s_Num_Gigs s"
  "s_Local_Files (nosuchchannel c s) = s_Local_Files s"
  "s_misc (nosuchchannel c s) = s_misc s"
  by (simp_all add: nosuchchannel_def)

lemma invalid_channel_msg_frame [simp]:
  "s_users (invalid_channel_msg c s) = s_users s"
  "s_chans (invalid_channel_msg c s) = s_chans s"
  "s_conns (invalid_channel_msg c s) = s_conns s"
  "s_dbs (invalid_channel_msg c s) = s_dbs s"
  "s_hotl (invalid_channel_msg c s) = s_hotl s"
  "s_Users (invalid_channel_msg c s) = s_Users s"
  "s_Channels (invalid_channel_msg c s) = s_Channels s"
  "s_Hotlist (invalid_channel_msg c s) = s_Hotlist s"
  "s_User_Db (invalid_channel_msg c s) = s_User_Db s"
  "s_Bans (invalid_channel_msg c s) = s_Bans s"
  "s_Servers (invalid_channel_msg c s) = s_Servers s"
  "s_Server_Links (invalid_channel_msg c s) = s_Server_Links s"
  "s_Clients (invalid_channel_msg c s) = s_Clients s"
  "s_next (invalid_channel_msg c s) = s_next s"
  "s_next_db (invalid_channel_msg c s) = s_next_db s"
  "s_next_hot (invalid_channel_msg c s) = s_next_hot s"
  "s_rand (invalid_channel_msg c s) = s_rand s"
  "s_cfg (invalid_channel_msg c s) = s_cfg s"
  "s_time (invalid_channel_msg c s) = s_time s"
  "s_Buf_len (invalid_channel_msg c s) = s_Buf_len s"
  "s_Num_Files (invalid_channel_msg c s) = s_Num_Files s"
  "s_Num_Gigs (invalid_channel_msg c s) = s_Num_Gigs s"
  "s_Local_Files (invalid_channel_msg c s) = s_Local_Files s"
  "s_misc (invalid_channel_msg c s) = s_misc s"
  by (simp_all add: invalid_channel_msg_def)

lemma invalid_nick_msg_frame [simp]:
  "s_users (invalid_nick_msg c s) = s_users s"
  "s_chans (invalid_nick_msg c s) = s_chans s"
  "s_conns (invalid_nick_msg c s) = s_conns s"
  "s_dbs (invalid_nick_msg c s) = s_dbs s"
  "s_hotl (invalid_nick_msg c s) = s_hotl s"
  "s_Users (invalid_nick_msg c s) = s_Users s"
  "s_Channels (invalid_nick_msg c s) = s_Channels s"
  "s_Hotlist (invalid_nick_msg c s) = s_Hotlist s"
  "s_User_Db (invalid_nick_msg c s) = s_User_Db s"
  "s_Bans (invalid_nick_msg c s) = s_Bans s"
  "s_Servers (invalid_nick_msg c s) = s_Servers s"
  "s_Server_Links (invalid_nick_msg c s) = s_Server_Links s"
  "s_Clients (invalid_nick_msg c s) = s_Clients s"
  "s_next (invalid_nick_msg c s) = s_next s"
  "s_next_db (invalid_nick_msg c s) = s_next_db s"
  "s_next_hot (invalid_nick_msg c s) = s_next_hot s"
  "s_rand (invalid_nick_msg c s) = s_rand s"
  "s_cfg (invalid_nick_msg c s) = s_cfg s"
  "s_time (invalid_nick_msg c s) = s_time s"
  "s_Buf_len (invalid_nick_msg c s) = s_Buf_len s"
  "s_Num_Files (invalid_nick_msg c s) = s_Num_Files s"
  "s_Num_Gigs (invalid_nick_msg c s) = s_Num_Gigs s"
  "s_Local_Files (invalid_nick_msg c s) = s_Local_Files s"
  "s_misc (invalid_nick_msg c s) = s_misc s"
  by (simp_all add: invalid_nick_msg_def)

lemma tell_user_frame [simp]:
  "s_users (tell_user c m s) = s_users s"
  "s_chans (tell_user c m s) = s_chans s"
  "s_conns (tell_user c m s) = s_conns s"
  "s_dbs (tell_user c m s) = s_dbs s"
  "s_hotl (tell_user c m s) = s_hotl s"
  "s_Users (tell_user c m s) = s_Users s"
  "s_Channels (tell_user c m s) = s_Channels s"
  "s_Hotlist (tell_user c m s) = s_Hotlist s"
  "s_User_Db (tell_user c m s) = s_User_Db s"
  "s_Bans (tell_user c m s) = s_Bans s"
  "s_Servers (tell_user c m s) = s_Servers s"
  "s_Server_Links (tell_user c m s) = s_Server_Links s"
  "s_Clients (tell_user c m s) = s_Clients s"
  "s_next (tell_user c m s) = s_next s"
  "s_next_db (tell_user c m s) = s_next_db s"
  "s_next_hot (tell_user c m s) = s_next_hot s"
  "s_rand (tell_user c m s) = s_rand s"
  "s_cfg (tell_user c m s) = s_cfg s"
  "s_time (tell_user c m s) = s_time s"
  "s_Buf_len (tell_user c m s) = s_Buf_len s"
  "s_Num_Files (tell_user c m s) = s_Num_Files s"
  "s_Num_Gigs (tell_user c m s) = s_Num_Gigs s"
  "s_Local_Files (tell_user c m s) = s_Local_Files s"
  "s_misc (tell_user c m s) = s_misc s"
  by (simp_all add: tell_user_def)

lemma upd_user_frame [simp]:
  "s_users (upd_user u f s) = (s_users s)(u := map_option f (s_users s u))"
  "s_chans (upd_user u f s) = s_chans s"
  "s_conns (upd_user u f s) = s_conns s"
  "s_dbs (upd_user u f s) = s_dbs s"
  "s_hotl (upd_user u f s) = s_hotl s"
  "s_Users (upd_user u f s) = s_Users s"
  "s_Channels (upd_user u f s) = s_Channels s"
  "s_Hotlist (upd_user u f s) = s_Hotlist s"
  "s_User_Db (upd_user u f s) = s_User_Db s"
  "s_Bans (upd_user u f s) = s_Bans s"
  "s_Servers (upd_user u f s) = s_Servers s"
  "s_Server_Links (upd_user u f s) = s_Server_Links s"
  "s_Clients (upd_user u f s) = s_Clients s"
  "s_next (upd_user u f s) = s_next s"
  "s_next_db (upd_user u f s) = s_next_db s"
  "s_next_hot (upd_user u f s) = s_next_hot s"
  "s_rand (upd_user u f s) = s_rand s"
  "s_cfg (upd_user u f s) = s_cfg s"
  "s_time (upd_user u f s) = s_time s"
  "s_Buf_len (upd_user u f s) = s_Buf_len s"
  "s_Num_Files (upd_user u f s) = s_Num_Files s"
  "s_Num_Gigs (upd_user u f s) = s_Num_Gigs s"
  "s_Local_Files (upd_user u f s) = s_Local_Files s"
  "s_misc (upd_user u f s) = s_misc s"
  by (simp_all add: upd_user_def)

lemma upd_chan_frame [simp]:
  "s_chans (upd_chan u f s) = (s_chans s)(u := map_option f (s_chans s u))"
  "s_users (upd_chan u f s) = s_users s"
  "s_conns (upd_chan u f s) = s_conns s"
  "s_dbs (upd_chan u f s) = s_dbs s"
  "s_hotl (upd_chan u f s) = s_hotl s"
  "s_Users (upd_chan u f s) = s_Users s"
  "s_Channels (upd_chan u f s) = s_Channels s"
  "s_Hotlist (upd_chan u f s) = s_Hotlist s"
  "s_User_Db (upd_chan u f s) = s_User_Db s"
  "s_Bans (upd_chan u f s) = s_Bans s"
  "s_Servers (upd_chan u f s) = s_Servers s"
  "s_Server_Links (upd_chan u f s) = s_Server_Links s"
  "s_Clients (upd_chan u f s) = s_Clients s"
  "s_next (upd_chan u f s) = s_next s"
  "s_next_db (upd_chan u f s) = s_next_db s"
  "s_next_hot (upd_chan u f s) = s_next_hot s"
  "s_rand (upd_chan u f s) = s_rand s"
  "s_cfg (upd_chan u f s) = s_cfg s"
  "s_time (upd_chan u f s) = s_time s"
  "s_Buf_len (upd_chan u f s) = s_Buf_len s"
  "s_Num_Files (upd_chan u f s) = s_Num_Files s"
  "s_Num_Gigs (upd_chan u f s) = s_Num_Gigs s"
  "s_Local_Files (upd_chan u f s) = s_Local_Files s"
  "s_misc (upd_chan u f s) = s_misc s"
  by (simp_all add: upd_chan_def)

lemma upd_conn_frame [simp]:
  "s_conns (upd_conn u f s) = (s_conns s)(u := map_option f (s_conns s u))"
  "s_users (upd_conn u f s) = s_users s"
  "s_chans (upd_conn u f s) = s_chans s"
  "s_dbs (upd_conn u f s) = s_dbs s"
  "s_hotl (upd_conn u f s) = s_hotl s"
  "s_Users (upd_conn u f s) = s_Users s"
  "s_Channels (upd_conn u f s) = s_Channels s"
  "s_Hotlist (upd_conn u f s) = s_Hotlist s"
  "s_User_Db (upd_conn u f s) = s_User_Db s"
  "s_Bans (upd_conn u f s) = s_Bans s"
  "s_Servers (upd_conn u f s) = s_Servers s"
  "s_Server_Links (upd_conn u f s) = s_Server_Links s"
  "s_Clients (upd_conn u f s) = s_Clients s"
  "s_next (upd_conn u f s) = s_next s"
  "s_next_db (upd_conn u f s) = s_next_db s"
  "s_next_hot (upd_conn u f s) = s_next_hot s"
  "s_rand (upd_conn u f s) = s_rand s"
  "s_cfg (upd_conn u f s) = s_cfg s"
  "s_time (upd_conn u f s) = s_time s"
  "s_Buf_len (upd_conn u f s) = s_Buf_len s"
  "s_Num_Files (upd_conn u f s) = s_Num_Files s"
  "s_Num_Gigs (upd_conn u f s) = s_Num_Gigs s"
  "s_Local_Files (upd_conn u f s) = s_Local_Files s"
  "s_misc (upd_conn u f s) = s_misc s"
  by (simp_all add: upd_conn_def)

lemma upd_db_frame [simp]:
  "s_dbs (upd_db u f s) = (s_dbs s)(u := map_option f (s_dbs s u))"
  "s_users (upd_db u f s) = s_users s"
  "s_chans (upd_db u f s) = s_chans s"
  "s_conns (upd_db u f s) = s_conns s"
  "s_hotl (upd_db u f s) = s_hotl s"
  "s_Users (upd_db u f s) = s_Users s"
  "s_Channels (upd_db u f s) = s_Channels s"
  "s_Hotlist (upd_db u f s) = s_Hotlist s"
  "s_User_Db (upd_db u f s) = s_User_Db s"
  "s_Bans (upd_db u f s) = s_Bans s"
  "s_Servers (upd_db u f s) = s_Servers s"
  "s_Server_Links (upd_db u f s) = s_Server_Links s"
  "s_Clients (upd_db u f s) = s_Clients s"
  "s_next (upd_db u f s) = s_next s"
  "s_next_db (upd_db u f s) = s_next_db s"
  "s_next_hot (upd_db u f s) = s_next_hot s"
  "s_rand (upd_db u f s) = s_rand s"
  "s_cfg (upd_db u f s) = s_cfg s"
  "s_time (upd_db u f s) = s_time s"
  "s_Buf_len (upd_db u f s) = s_Buf_len s"
  "s_Num_Files (upd_db u f s) = s_Num_Files s"
  "s_Num_Gigs (upd_db u f s) = s_Num_Gigs s"
  "s_Local_Files (upd_db u f s) = s_Local_Files s"
  "s_misc (upd_db u f s) = s_misc s"
  by (simp_all add: upd_db_def)

lemma upd_hot_frame [simp]:
  "s_hotl (upd_hot u f s) = (s_hotl s)(u := map_option f (s_hotl s u))"
  "s_users (upd_hot u f s) = s_users s"
  "s_chans (upd_hot u f s) = s_chans s"
  "s_conns (upd_hot u f s) = s_conns s"
  "s_dbs (upd_hot u f s) = s_dbs s"
  "s_Users (upd_hot u f s) = s_Users s"
  "s_Channels (upd_hot u f s) = s_Channels s"
  "s_Hotlist (upd_hot u f s) = s_Hotlist s"
  "s_User_Db (upd_hot u f s) = s_User_Db s"
  "s_Bans (upd_hot u f s) = s_Bans s"
  "s_Servers (upd_hot u f s) = s_Servers s"
  "s_Server_Links (upd_hot u f s) = s_Server_Links s"
  "s_Clients (upd_hot u f s) = s_Clients s"
  "s_next (upd_hot u f s) = s_next s"
  "s_next_db (upd_hot u f s) = s_next_db s"
  "s_next_hot (upd_hot u f s) = s_next_hot s"
  "s_rand (upd_hot u f s) = s_rand s"
  "s_cfg (upd_hot u f s) = s_cfg s"
  "s_time (upd_hot u f s) = s_time s"
  "s_Buf_len (upd_hot u f s) = s_Buf_len s"
  "s_Num_Files (upd_hot u f s) = s_Num_Files s"
  "s_Num_Gigs (upd_hot u f s) = s_Num_Gigs s"
  "s_Local_Files (upd_hot u f s) = s_Local_Files s"
  "s_misc (upd_hot u f s) = s_misc s"
  by (simp_all add: upd_hot_def)


lemma class_frame [simp]:
  "ISUSER c (emit fs s) = ISUSER c s" "ISSERVER c (emit fs s) = ISSERVER c s"
  "ISUSER c (queue_data d t m s) = ISUSER c s" "ISSERVER c (queue_data d t m s) = ISSERVER c s"
  "ISUSER c (send_cmd d t m s) = ISUSER c s" "ISSERVER c (send_cmd d t m s) = ISSERVER c s"
  "ISUSER c (pass_message x t m s) = ISUSER c s" "ISSERVER c (pass_message x t m s) = ISSERVER c s"
  "ISUSER c (pass_message_args x t m s) = ISUSER c s" "ISSERVER c (pass_message_args x t m s) = ISSERVER c s"
  "ISUSER c (send_cmd_pre d t p m s) = ISUSER c s" "ISSERVER c (send_cmd_pre d t p m s) = ISSERVER c s"
  "ISUSER c (send_user u t m s) = ISUSER c s" "ISSERVER c (send_user u t m s) = ISSERVER c s"
  "ISUSER c (notify_mods l m s) = ISUSER c s" "ISSERVER c (notify_mods l m s) = ISSERVER c s"
  "ISUSER c (notify_ops ch m s) = ISUSER c s" "ISSERVER c (notify_ops ch m s) = ISSERVER c s"
  "ISUSER c (nosuchuser d s) = ISUSER c s" "ISSERVER c (nosuchuser d s) = ISSERVER c s"
  "ISUSER c (permission_denied d s) = ISUSER c s" "ISSERVER c (permission_denied d s) = ISSERVER c s"
  "ISUSER c (unparsable d s) = ISUSER c s" "ISSERVER c (unparsable d s) = ISSERVER c s"
  "ISUSER c (nosuchchannel d s) = ISUSER c s" "ISSERVER c (nosuchchannel d s) = ISSERVER c s"
  "ISUSER c (invalid_channel_msg d s) = ISUSER c s" "ISSERVER c (invalid_channel_msg d s) = ISSERVER c s"
  "ISUSER c (invalid_nick_msg d s) = ISUSER c s" "ISSERVER c (invalid_nick_msg d s) = ISSERVER c s"
  "ISUSER c (tell_user d m s) = ISUSER c s" "ISSERVER c (tell_user d m s) = ISSERVER c s"
  "ISUSER c (upd_user u f s) = ISUSER c s" "ISSERVER c (upd_user u f s) = ISSERVER c s"
  "ISUSER c (upd_chan ch g s) = ISUSER c s" "ISSERVER c (upd_chan ch g s) = ISSERVER c s"
  "ISUSER c (upd_db e h s) = ISUSER c s" "ISSERVER c (upd_db e h s) = ISSERVER c s"
  "ISUSER c (upd_hot e k s) = ISUSER c s" "ISSERVER c (upd_hot e k s) = ISSERVER c s"
  by (simp_all add: ISUSER_def ISSERVER_def)

section \<open>Finding the sender of a message\<close>

definition pop_user :: "cid \<Rightarrow> string \<Rightarrow> srv \<Rightarrow> (string option \<times> uid) option" where
  "pop_user con pkt s =
     (if ISSERVER con s then
        (case pkt of
           [] \<Rightarrow> None
         | c # rest \<Rightarrow>
             if c \<noteq> CHR '':'' then None
             else case next_arg (Some rest) of
                (None, _) \<Rightarrow> None
              | (Some ptr, pkt) \<Rightarrow>
                  (case hash_lookup (s_Users s) ptr of
                     None \<Rightarrow> None
                   | Some user \<Rightarrow> if u_local (usr s user) then None else Some (pkt, user)))
      else Some (Some pkt, c_user (cnx s con)))"

definition is_server :: "string \<Rightarrow> srv \<Rightarrow> bool" where
  "is_server name s \<longleftrightarrow>
     (\<exists>c \<in> set (s_Servers s). strcaseeq name (c_host (cnx s c))) \<or>
     (\<exists>l \<in> set (s_Server_Links s). strcaseeq name (l_server l) \<or> strcaseeq name (l_peer l))"

text \<open>The result is the packet, the sender's name, and the \<open>USER\<close> (\<open>None\<close> for a server).\<close>

definition pop_user_server ::
    "cid \<Rightarrow> string \<Rightarrow> srv \<Rightarrow> (string option \<times> string \<times> uid option) option" where
  "pop_user_server con pkt s =
     (if ISSERVER con s then
        (case pkt of
           [] \<Rightarrow> None
         | c # rest \<Rightarrow>
             if c \<noteq> CHR '':'' then None
             else case next_arg (Some rest) of
                (None, _) \<Rightarrow> None
              | (Some nick, pkt) \<Rightarrow>
                  if is_server nick s then Some (pkt, nick, None)
                  else (case hash_lookup (s_Users s) nick of
                          None \<Rightarrow> None
                        | Some user \<Rightarrow> Some (pkt, nick, Some user)))
      else Some (Some pkt, u_nick (usr s (c_user (cnx s con))), Some (c_user (cnx s con))))"

section \<open>Small helpers\<close>

definition is_ignoring :: "string list \<Rightarrow> string \<Rightarrow> bool" where
  "is_ignoring ignore nick \<longleftrightarrow> list_ex (\<lambda>i. strcaseeq nick i) ignore"

definition truncate_to :: "int \<Rightarrow> string \<Rightarrow> string" where
  "truncate_to m t = (if 0 < m \<and> m < int (length t) then take (nat m) t else t)"

definition truncate_reason :: "srv \<Rightarrow> string \<Rightarrow> string" where
  "truncate_reason s r = truncate_to (Max_Reason (s_cfg s)) r"

definition find_channel :: "chid list \<Rightarrow> string \<Rightarrow> srv \<Rightarrow> chid option" where
  "find_channel channels name s = find (\<lambda>c. strcaseeq (ch_name (chn s c)) name) channels"

definition find_chanuser :: "chanuser list \<Rightarrow> uid \<Rightarrow> chanuser option" where
  "find_chanuser us user = find (\<lambda>cu. cu_user cu = user) us"

definition is_chanop :: "chid \<Rightarrow> uid \<Rightarrow> srv \<Rightarrow> bool" where
  "is_chanop chan user s =
     (case find_chanuser (ch_users (chn s chan)) user of
        None \<Rightarrow> False
      | Some cu \<Rightarrow> cu_flags cu AND ON_OPERATOR \<noteq> 0)"

definition is_member :: "chid \<Rightarrow> uid \<Rightarrow> srv \<Rightarrow> bool" where
  "is_member chan user s \<longleftrightarrow> list_ex (\<lambda>cu. cu_user cu = user) (ch_users (chn s chan))"

text \<open>\<open>list_delete\<close> of \<open>src/list.c\<close> unlinks the first element that is the given pointer.\<close>

fun list_delete :: "'a list \<Rightarrow> 'a \<Rightarrow> 'a list" where
  "list_delete [] d = []"
| "list_delete (x # xs) d = (if x = d then xs else x # list_delete xs d)"

definition bad_nick_chars :: string where
  "bad_nick_chars = ''%$*?.!'' @ [dquote, CHR '','']"

definition invalid_nick :: "srv \<Rightarrow> string \<Rightarrow> bool" where
  "invalid_nick s n \<longleftrightarrow>
     strcaseeq n ''operserv'' \<or> strcaseeq n ''chanserv'' \<or> strcaseeq n ''operator'' \<or>
     (n \<noteq> [] \<and> hd n \<in> set ''#&:'') \<or>
     list_ex (\<lambda>c. schar c < 33 \<or> 126 < schar c \<or> c \<in> set bad_nick_chars) n \<or>
     n = [] \<or> (0 < Max_Nick_Length (s_cfg s) \<and> Max_Nick_Length (s_cfg s) < int (length n))"

definition bad_channel_chars :: string where
  "bad_channel_chars = ''%$*?'' @ [dquote, CHR '','']"

definition invalid_channel :: "srv \<Rightarrow> string \<Rightarrow> bool" where
  "invalid_channel s n \<longleftrightarrow>
     (case n of
        [] \<Rightarrow> True
      | c # r \<Rightarrow> (c \<noteq> CHR ''#'' \<and> c \<noteq> CHR ''&'') \<or>
          list_ex (\<lambda>c. schar c < 33 \<or> 126 < schar c \<or> c \<in> set bad_channel_chars) r \<or>
          r = [] \<or>
          (0 < Max_Channel_Length (s_cfg s) \<and> Max_Channel_Length (s_cfg s) < int (length r)))"

lemma list_delete_simps [simp]:
  "d \<notin> set xs \<Longrightarrow> list_delete xs d = xs"
  "distinct xs \<Longrightarrow> distinct (list_delete xs d)"
  "distinct xs \<Longrightarrow> set (list_delete xs d) = set xs - {d}"
proof -
  show "d \<notin> set xs \<Longrightarrow> list_delete xs d = xs" by (induction xs) auto
  show sd: "distinct xs \<Longrightarrow> set (list_delete xs d) = set xs - {d}" by (induction xs) auto
  have sub: "set (list_delete ys d) \<subseteq> set ys" for ys by (induction ys) auto
  show "distinct xs \<Longrightarrow> distinct (list_delete xs d)"
    by (induction xs) (use sub in auto)
qed

lemma truncate_to_length: "0 < m \<Longrightarrow> int (length (truncate_to m t)) \<le> m"
  by (simp add: truncate_to_def)

end
