(* ===== verification/Membership.thy ===== *)
theory Membership
  imports State
begin

text \<open>
  Channel membership.  A \<open>USER\<close> lists the channels it is on and those it is invited to; a \<open>CHANNEL\<close>
  lists its members (with their flags) and its invited users; both directions are raw pointers, and
  a channel is freed when its last member leaves.  This theory models the primitives that keep the
  two directions together (\<open>part_channel\<close> and \<open>channel_remove\<close> of \<open>src/part_channel.c\<close>,
  \<open>free_channel\<close> of \<open>src/serverlib.c\<close>) and states the invariant \<open>wf\<close> of the pointer structure: the
  lists agree, have no duplicates and no dangling pointer, and the hash tables find exactly the
  live objects under their names.
\<close>

section \<open>The primitives\<close>

fun channel_remove :: "chanuser list \<Rightarrow> uid \<Rightarrow> chanuser list" where
  "channel_remove [] user = []"
| "channel_remove (cu # us) user = (if cu_user cu = user then us else cu # channel_remove us user)"

text \<open>\<open>free_channel\<close> takes the channel out of the invite lists of its invited users.\<close>

definition uninvite :: "chid \<Rightarrow> uid \<Rightarrow> srv \<Rightarrow> srv" where
  "uninvite chan user s = upd_user user (\<lambda>u. u\<lparr>u_invited := list_delete (u_invited u) chan\<rparr>) s"

definition free_channel :: "chid \<Rightarrow> srv \<Rightarrow> srv" where
  "free_channel chan s =
     (let s = fold (uninvite chan) (ch_invited (chn s chan)) s
      in s\<lparr>s_chans := (s_chans s)(chan := None)\<rparr>)"

text \<open>\<open>hash_remove (Channels, name)\<close>, whose destroy callback is \<open>free_channel\<close>.\<close>

definition channels_remove :: "string \<Rightarrow> srv \<Rightarrow> srv" where
  "channels_remove name s =
     (case hash_remove (s_Channels s) name of
        (h, None) \<Rightarrow> s\<lparr>s_Channels := h\<rparr>
      | (h, Some chan) \<Rightarrow> free_channel chan (s\<lparr>s_Channels := h\<rparr>))"

definition part_channel :: "chid \<Rightarrow> uid \<Rightarrow> srv \<Rightarrow> srv" where
  "part_channel chan user s =
     (let s = upd_chan chan (\<lambda>c. c\<lparr>ch_users := channel_remove (ch_users c) user\<rparr>) s
      in if ch_users (chn s chan) \<noteq> [] then
           emit [(user_con s (cu_user cu), MSG_SERVER_PART,
                  form_message (ch_name (chn s chan) @ '' '' @ u_nick (usr s user) @ '' '' @
                    nat_dec (u_shared (usr s user)) @ '' '' @ nat_dec (u_speed (usr s user)))).
                   cu \<leftarrow> ch_users (chn s chan),
                   ISUSER (user_con s (cu_user cu)) s \<and>
                   (\<not> u_cloaked (usr s user) \<or> LEVEL_MODERATOR \<le> u_level (usr s (cu_user cu)))] s
         else if ch_flags (chn s chan) AND ON_CHANNEL_USER \<noteq> 0 then
           channels_remove (ch_name (chn s chan)) s
         else s)"

text \<open>\<open>user->channels = list_delete (user->channels, chan)\<close>.\<close>

definition forget_channel :: "uid \<Rightarrow> chid \<Rightarrow> srv \<Rightarrow> srv" where
  "forget_channel user chan s =
     upd_user user (\<lambda>u. u\<lparr>u_channels := list_delete (u_channels u) chan\<rparr>) s"

section \<open>The invariant\<close>

definition memb :: "srv \<Rightarrow> chid \<Rightarrow> uid \<Rightarrow> bool" where
  "memb s c u \<longleftrightarrow> (\<exists>C. s_chans s c = Some C \<and> u \<in> cu_user ` set (ch_users C))"

definition inch :: "srv \<Rightarrow> uid \<Rightarrow> chid \<Rightarrow> bool" where
  "inch s u c \<longleftrightarrow> (\<exists>U. s_users s u = Some U \<and> c \<in> set (u_channels U))"

definition invd :: "srv \<Rightarrow> uid \<Rightarrow> chid \<Rightarrow> bool" where
  "invd s u c \<longleftrightarrow> (\<exists>U. s_users s u = Some U \<and> c \<in> set (u_invited U))"

definition inviting :: "srv \<Rightarrow> chid \<Rightarrow> uid \<Rightarrow> bool" where
  "inviting s c u \<longleftrightarrow> (\<exists>C. s_chans s c = Some C \<and> u \<in> set (ch_invited C))"

text \<open>
  \<open>X\<close> is the set of pairs for which the two directions of membership may disagree: a handler that
  removes a user from a channel updates one list after the other.
\<close>

definition links_ok :: "(uid \<times> chid) set \<Rightarrow> srv \<Rightarrow> bool" where
  "links_ok X s \<longleftrightarrow>
     (\<forall>u U. s_users s u = Some U \<longrightarrow> distinct (u_channels U) \<and> distinct (u_invited U)) \<and>
     (\<forall>c C. s_chans s c = Some C \<longrightarrow> distinct (map cu_user (ch_users C)) \<and> distinct (ch_invited C)) \<and>
     (\<forall>c u. memb s c u \<or> inviting s c u \<longrightarrow> u \<in> dom (s_users s)) \<and>
     (\<forall>u c. (u, c) \<notin> X \<longrightarrow> (inch s u c \<longleftrightarrow> memb s c u)) \<and>
     (\<forall>u c. invd s u c \<longleftrightarrow> inviting s c u)"

definition chan_table_ok :: "srv \<Rightarrow> bool" where
  "chan_table_ok s \<longleftrightarrow>
     hash_invar (s_Channels s) \<and>
     (\<forall>c C. s_chans s c = Some C \<longrightarrow> hash_stack (s_Channels s) (ch_name C) = [c]) \<and>
     (\<forall>k c. c \<in> set (hash_stack (s_Channels s) k) \<longrightarrow>
        (\<exists>C. s_chans s c = Some C \<and> strcaseeq k (ch_name C))) \<and>
     (\<forall>c \<in> dom (s_chans s). c < s_next s)"

text \<open>
  A user all of whose pairs are in \<open>X\<close> is being freed: it has left the hash table already.
\<close>

definition user_table_ok :: "(uid \<times> chid) set \<Rightarrow> srv \<Rightarrow> bool" where
  "user_table_ok X s \<longleftrightarrow>
     hash_invar (s_Users s) \<and>
     (\<forall>u U c. (u, c) \<notin> X \<and> s_users s u = Some U \<longrightarrow> hash_stack (s_Users s) (u_nick U) = [u]) \<and>
     (\<forall>k u. u \<in> set (hash_stack (s_Users s) k) \<longrightarrow>
        (\<exists>U. s_users s u = Some U \<and> strcaseeq k (u_nick U)))"

definition conn_ok :: "(uid \<times> chid) set \<Rightarrow> srv \<Rightarrow> bool" where
  "conn_ok X s \<longleftrightarrow>
     (\<forall>c K d. s_conns s c = Some K \<and> c_class K = CLASS_USER \<and> (c_user K, d) \<notin> X \<longrightarrow>
        (\<exists>U. s_users s (c_user K) = Some U \<and> u_con U = c \<and> u_local U)) \<and>
     (\<forall>u U. s_users s u = Some U \<longrightarrow> u_con U \<in> dom (s_conns s) \<and>
        (ISUSER (u_con U) s \<longrightarrow> c_user (cnx s (u_con U)) = u))"

definition wf_upto :: "(uid \<times> chid) set \<Rightarrow> srv \<Rightarrow> bool" where
  "wf_upto X s \<longleftrightarrow> links_ok X s \<and> chan_table_ok s \<and> user_table_ok X s \<and> conn_ok X s"

abbreviation wf :: "srv \<Rightarrow> bool" where
  "wf s \<equiv> wf_upto {} s"

lemmas wf_defs = wf_upto_def links_ok_def chan_table_ok_def user_table_ok_def conn_ok_def
  memb_def inch_def invd_def inviting_def ISUSER_def

lemma wf_cong:
  "s_users s = s_users t \<Longrightarrow> s_chans s = s_chans t \<Longrightarrow> s_conns s = s_conns t \<Longrightarrow>
   s_Users s = s_Users t \<Longrightarrow> s_Channels s = s_Channels t \<Longrightarrow> s_next s = s_next t \<Longrightarrow>
   wf_upto X s = wf_upto X t"
  by (simp add: wf_defs)

lemma wf_output [simp]:
  "wf_upto X (emit fs s) = wf_upto X s"
  "wf_upto X (queue_data d t m s) = wf_upto X s"
  "wf_upto X (send_cmd d t m s) = wf_upto X s"
  "wf_upto X (pass_message x t m s) = wf_upto X s"
  "wf_upto X (pass_message_args x t m s) = wf_upto X s"
  "wf_upto X (send_cmd_pre d t p m s) = wf_upto X s"
  "wf_upto X (send_user u t m s) = wf_upto X s"
  "wf_upto X (notify_mods l m s) = wf_upto X s"
  "wf_upto X (notify_ops ch m s) = wf_upto X s"
  "wf_upto X (nosuchuser d s) = wf_upto X s"
  "wf_upto X (permission_denied d s) = wf_upto X s"
  "wf_upto X (unparsable d s) = wf_upto X s"
  "wf_upto X (nosuchchannel d s) = wf_upto X s"
  "wf_upto X (invalid_channel_msg d s) = wf_upto X s"
  "wf_upto X (invalid_nick_msg d s) = wf_upto X s"
  "wf_upto X (tell_user d m s) = wf_upto X s"
  by (rule wf_cong; simp)+

lemma wf_upto_mono: "wf_upto X s \<Longrightarrow> X \<subseteq> Y \<Longrightarrow> wf_upto Y s"
  unfolding wf_upto_def links_ok_def user_table_ok_def conn_ok_def by (elim conjE, intro conjI; blast)

text \<open>Membership is unchanged by output.\<close>

lemma memb_cong: "s_chans s = s_chans t \<Longrightarrow> memb s = memb t"
  by (simp add: memb_def fun_eq_iff)

lemma memb_output [simp]:
  "memb (emit fs s) = memb s" "memb (queue_data d t m s) = memb s" "memb (send_cmd d t m s) = memb s"
  "memb (pass_message x t m s) = memb s" "memb (pass_message_args x t m s) = memb s"
  "memb (send_cmd_pre d t p m s) = memb s" "memb (send_user u t m s) = memb s"
  "memb (notify_mods l m s) = memb s" "memb (notify_ops ch m s) = memb s" "memb (nosuchuser d s) = memb s"
  "memb (permission_denied d s) = memb s" "memb (unparsable d s) = memb s" "memb (nosuchchannel d s) = memb s"
  "memb (invalid_channel_msg d s) = memb s" "memb (invalid_nick_msg d s) = memb s"
  "memb (tell_user d m s) = memb s"
  by (rule memb_cong; simp)+

section \<open>Reading a well-formed state\<close>

lemma wf_lookup_chan:
  assumes "wf_upto X s" "hash_lookup (s_Channels s) k = Some c"
  obtains C where "s_chans s c = Some C" "strcaseeq k (ch_name C)"
proof -
  from assms(1) have t: "chan_table_ok s" by (simp add: wf_upto_def)
  then have "c \<in> set (hash_stack (s_Channels s) k)"
    using hash.lookup_in_stack [OF _ assms(2)] unfolding chan_table_ok_def by blast
  with t that show thesis unfolding chan_table_ok_def by blast
qed

lemma wf_lookup_user:
  assumes "wf_upto X s" "hash_lookup (s_Users s) k = Some u"
  obtains U where "s_users s u = Some U" "strcaseeq k (u_nick U)"
proof -
  from assms(1) have t: "user_table_ok X s" by (simp add: wf_upto_def)
  then have "u \<in> set (hash_stack (s_Users s) k)"
    using hash.lookup_in_stack [OF _ assms(2)] unfolding user_table_ok_def by blast
  with t that show thesis unfolding user_table_ok_def by blast
qed

lemma wf_chan_lookup:
  assumes "wf_upto X s" "s_chans s c = Some C"
  shows "hash_lookup (s_Channels s) (ch_name C) = Some c"
  using assms by (auto simp: wf_upto_def chan_table_ok_def hash_lookup_stack)

lemma wf_lookup_chan_dom: "wf_upto X s \<Longrightarrow> hash_lookup (s_Channels s) k = Some c \<Longrightarrow> c \<in> dom (s_chans s)"
  by (erule wf_lookup_chan) auto

lemma wf_lookup_user_dom: "wf_upto X s \<Longrightarrow> hash_lookup (s_Users s) k = Some u \<Longrightarrow> u \<in> dom (s_users s)"
  by (erule wf_lookup_user) auto

lemma wf_con_user:
  "wf s \<Longrightarrow> con \<in> dom (s_conns s) \<Longrightarrow> ISUSER con s \<Longrightarrow> c_user (cnx s con) \<in> dom (s_users s)"
  unfolding wf_upto_def conn_ok_def ISUSER_def by fastforce

definition registered :: "cid \<Rightarrow> srv \<Rightarrow> bool" where
  "registered con s \<longleftrightarrow> con \<in> dom (s_conns s) \<and> (ISUSER con s \<or> ISSERVER con s)"

lemma wf_pop_user:
  "wf s \<Longrightarrow> registered con s \<Longrightarrow> pop_user con pkt s = Some (r, u) \<Longrightarrow> u \<in> dom (s_users s)"
  by (auto simp: pop_user_def registered_def dest: wf_con_user wf_lookup_user_dom
      split: if_splits list.splits prod.splits option.splits)

lemma wf_pop_user_server:
  "wf s \<Longrightarrow> registered con s \<Longrightarrow> pop_user_server con pkt s = Some (r, n, Some u) \<Longrightarrow>
   u \<in> dom (s_users s)"
  by (auto simp: pop_user_server_def registered_def dest: wf_con_user wf_lookup_user_dom
      split: if_splits list.splits prod.splits option.splits)

lemma wf_find_channel:
  assumes "wf s" "u \<in> dom (s_users s)" "find_channel (u_channels (usr s u)) k s = Some c"
  shows "inch s u c" "c \<in> dom (s_chans s)" "memb s c u"
proof -
  show i: "inch s u c"
    using assms by (auto simp: find_channel_def inch_def find_Some_iff)
  then show "memb s c u" using assms by (simp add: wf_upto_def links_ok_def)
  then show "c \<in> dom (s_chans s)" by (auto simp: memb_def)
qed

section \<open>What the primitives do\<close>

lemma set_channel_remove:
  "distinct (map cu_user us) \<Longrightarrow> cu_user ` set (channel_remove us u) = cu_user ` set us - {u}"
proof (induction us)
  case (Cons cu us)
  then have "cu_user cu \<notin> cu_user ` set us" by simp
  with Cons show ?case by (cases "cu_user cu = u") auto
qed simp

lemma channel_remove_subset: "set (channel_remove us u) \<subseteq> set us"
  by (induction us) auto

lemma distinct_channel_remove:
  "distinct (map cu_user us) \<Longrightarrow> distinct (map cu_user (channel_remove us u))"
  by (induction us) (use channel_remove_subset in fastforce)+

section \<open>How the invariant is kept\<close>

lemma links_okI:
  assumes "\<And>u U. s_users s u = Some U \<Longrightarrow> distinct (u_channels U) \<and> distinct (u_invited U)"
    and "\<And>c C. s_chans s c = Some C \<Longrightarrow> distinct (map cu_user (ch_users C)) \<and> distinct (ch_invited C)"
    and "\<And>c u. memb s c u \<or> inviting s c u \<Longrightarrow> u \<in> dom (s_users s)"
    and "\<And>u c. (u, c) \<notin> X \<Longrightarrow> inch s u c \<longleftrightarrow> memb s c u"
    and "\<And>u c. invd s u c \<longleftrightarrow> inviting s c u"
  shows "links_ok X s"
  unfolding links_ok_def using assms by blast

lemma links_okD:
  assumes "links_ok X s"
  shows "s_users s u = Some U \<Longrightarrow> distinct (u_channels U)"
    and "s_users s u = Some U \<Longrightarrow> distinct (u_invited U)"
    and "s_chans s c = Some C \<Longrightarrow> distinct (map cu_user (ch_users C))"
    and "s_chans s c = Some C \<Longrightarrow> distinct (ch_invited C)"
    and "memb s c u \<Longrightarrow> u \<in> dom (s_users s)"
    and "inviting s c u \<Longrightarrow> u \<in> dom (s_users s)"
    and "(u, c) \<notin> X \<Longrightarrow> inch s u c \<longleftrightarrow> memb s c u"
    and "invd s u c \<longleftrightarrow> inviting s c u"
  using assms unfolding links_ok_def by blast+

lemma chan_table_okI:
  assumes "hash_invar (s_Channels s)"
    and "\<And>c C. s_chans s c = Some C \<Longrightarrow> hash_stack (s_Channels s) (ch_name C) = [c]"
    and "\<And>k c. c \<in> set (hash_stack (s_Channels s) k) \<Longrightarrow> \<exists>C. s_chans s c = Some C \<and> strcaseeq k (ch_name C)"
    and "\<And>c C. s_chans s c = Some C \<Longrightarrow> c < s_next s"
  shows "chan_table_ok s"
  unfolding chan_table_ok_def using assms by (metis domD)

lemma chan_table_okD:
  assumes "chan_table_ok s"
  shows "hash_invar (s_Channels s)"
    and "s_chans s c = Some C \<Longrightarrow> hash_stack (s_Channels s) (ch_name C) = [c]"
    and "c \<in> set (hash_stack (s_Channels s) k) \<Longrightarrow> \<exists>C. s_chans s c = Some C \<and> strcaseeq k (ch_name C)"
    and "s_chans s c = Some C \<Longrightarrow> c < s_next s"
  using assms unfolding chan_table_ok_def by blast+

lemma user_table_okI:
  assumes "hash_invar (s_Users s)"
    and "\<And>u c U. (u, c) \<notin> X \<Longrightarrow> s_users s u = Some U \<Longrightarrow> hash_stack (s_Users s) (u_nick U) = [u]"
    and "\<And>k u. u \<in> set (hash_stack (s_Users s) k) \<Longrightarrow> \<exists>U. s_users s u = Some U \<and> strcaseeq k (u_nick U)"
  shows "user_table_ok X s"
  unfolding user_table_ok_def using assms by blast

lemma user_table_okD:
  assumes "user_table_ok X s"
  shows "hash_invar (s_Users s)"
    and "(u, c) \<notin> X \<Longrightarrow> s_users s u = Some U \<Longrightarrow> hash_stack (s_Users s) (u_nick U) = [u]"
    and "u \<in> set (hash_stack (s_Users s) k) \<Longrightarrow> \<exists>U. s_users s u = Some U \<and> strcaseeq k (u_nick U)"
  using assms unfolding user_table_ok_def by blast+

lemma conn_okI:
  assumes "\<And>c K d. s_conns s c = Some K \<Longrightarrow> c_class K = CLASS_USER \<Longrightarrow> (c_user K, d) \<notin> X \<Longrightarrow>
      \<exists>U. s_users s (c_user K) = Some U \<and> u_con U = c \<and> u_local U"
    and "\<And>u U. s_users s u = Some U \<Longrightarrow>
      u_con U \<in> dom (s_conns s) \<and> (ISUSER (u_con U) s \<longrightarrow> c_user (cnx s (u_con U)) = u)"
  shows "conn_ok X s"
  unfolding conn_ok_def using assms by blast

lemma conn_okD:
  assumes "conn_ok X s"
  shows "s_conns s c = Some K \<Longrightarrow> c_class K = CLASS_USER \<Longrightarrow> (c_user K, d) \<notin> X \<Longrightarrow>
      \<exists>U. s_users s (c_user K) = Some U \<and> u_con U = c \<and> u_local U"
    and "s_users s u = Some U \<Longrightarrow> u_con U \<in> dom (s_conns s)"
    and "s_users s u = Some U \<Longrightarrow> ISUSER (u_con U) s \<Longrightarrow> c_user (cnx s (u_con U)) = u"
  using assms unfolding conn_ok_def by blast+

lemma wf_uptoD:
  assumes "wf_upto X s"
  shows "links_ok X s" "chan_table_ok s" "user_table_ok X s" "conn_ok X s"
  using assms by (simp_all add: wf_upto_def)

lemma wf_uptoI: "links_ok X s \<Longrightarrow> chan_table_ok s \<Longrightarrow> user_table_ok X s \<Longrightarrow> conn_ok X s \<Longrightarrow> wf_upto X s"
  by (simp add: wf_upto_def)

lemma dom_upd [simp]: "dom (m(d := map_option f (m d))) = dom m"
  by (auto simp: dom_def)

lemma upd_Some:
  assumes "(m(d := map_option f (m d))) e = Some y"
  obtains x where "m e = Some x" "y = (if e = d then f x else x)"
  using assms by (cases "e = d") auto

text \<open>Steps that leave parts of the state alone keep the parts of the invariant about them.\<close>

lemma chan_table_ok_cong:
  "s_Channels s = s_Channels t \<Longrightarrow> s_chans s = s_chans t \<Longrightarrow> s_next s = s_next t \<Longrightarrow>
   chan_table_ok s = chan_table_ok t"
  by (simp add: chan_table_ok_def)

lemma user_table_ok_cong:
  "s_Users s = s_Users t \<Longrightarrow> s_users s = s_users t \<Longrightarrow> user_table_ok X s = user_table_ok X t"
  by (simp add: user_table_ok_def)

lemma conn_ok_cong: "s_conns s = s_conns t \<Longrightarrow> s_users s = s_users t \<Longrightarrow> conn_ok X s = conn_ok X t"
  by (simp add: conn_ok_def ISUSER_def)

text \<open>
  The hash tables and the connections depend on the names, the connections and the liveness of the
  objects only.
\<close>

definition user_key :: "user \<Rightarrow> string \<times> cid \<times> bool" where
  "user_key U = (u_nick U, u_con U, u_local U)"

lemma map_option_eqD: "map_option f x = map_option f y \<Longrightarrow> x = Some a \<Longrightarrow> \<exists>b. y = Some b \<and> f b = f a"
  by (cases y) auto

lemma chan_table_ok_names:
  assumes w: "wf_upto X s"
    and chans: "\<And>d. map_option ch_name (s_chans t d) = map_option ch_name (s_chans s d)"
    and eqs: "s_Channels t = s_Channels s" "s_next t = s_next s"
  shows "chan_table_ok t"
proof (rule chan_table_okI)
  note CT = chan_table_okD [OF wf_uptoD(2) [OF w]]
  show "hash_stack (s_Channels t) (ch_name D) = [d]" "d < s_next t" if "s_chans t d = Some D" for d D
    using map_option_eqD [OF chans that] CT(2) [of d] CT(4) [of d] by (auto simp: eqs)
  show "\<exists>D. s_chans t d = Some D \<and> strcaseeq k (ch_name D)" if "d \<in> set (hash_stack (s_Channels t) k)" for k d
    using CT(3) [of d k] that map_option_eqD [OF chans [symmetric]] by (fastforce simp: eqs)
  show "hash_invar (s_Channels t)" using CT(1) by (simp add: eqs)
qed

lemma users_ok_keys:
  assumes w: "wf_upto X s"
    and users: "\<And>v. map_option user_key (s_users t v) = map_option user_key (s_users s v)"
    and eqs: "s_Users t = s_Users s" "s_conns t = s_conns s"
  shows "user_table_ok X t" "conn_ok X t"
proof -
  note UT = user_table_okD [OF wf_uptoD(3) [OF w]] and CO = conn_okD [OF wf_uptoD(4) [OF w]]
  have u1: "\<exists>U. s_users s v = Some U \<and> user_key U = user_key V" if "s_users t v = Some V" for v V
    using map_option_eqD [OF users that] .
  have u2: "\<exists>U. s_users t v = Some U \<and> user_key U = user_key V" if "s_users s v = Some V" for v V
    using map_option_eqD [OF users [symmetric] that] .
  show "user_table_ok X t"
  proof (rule user_table_okI)
    show "hash_stack (s_Users t) (u_nick V) = [v]" if "(v, d) \<notin> X" "s_users t v = Some V" for v d V
      using u1 [OF that(2)] UT(2) [OF that(1)] by (auto simp: eqs user_key_def)
    show "\<exists>V. s_users t v = Some V \<and> strcaseeq k (u_nick V)" if "v \<in> set (hash_stack (s_Users t) k)" for k v
      using UT(3) [of v k] that u2 by (fastforce simp: eqs user_key_def)
  qed (use UT(1) in \<open>simp add: eqs\<close>)
  show "conn_ok X t"
  proof (rule conn_okI)
    show "\<exists>U. s_users t (c_user K) = Some U \<and> u_con U = d \<and> u_local U"
      if "s_conns t d = Some K" "c_class K = CLASS_USER" "(c_user K, e) \<notin> X" for d K e
      using CO(1) [of d K e] that u2 by (fastforce simp: eqs user_key_def)
    show "u_con V \<in> dom (s_conns t) \<and> (ISUSER (u_con V) t \<longrightarrow> c_user (cnx t (u_con V)) = v)"
      if "s_users t v = Some V" for v V
      using u1 [OF that] CO(2,3) [of v] eqs(2) by (elim exE conjE) (simp add: user_key_def ISUSER_def)
  qed
qed

text \<open>An assignment to other fields than the lists, the name and the connection keeps \<open>wf\<close>.\<close>

lemma wf_upd_chan:
  assumes w: "wf_upto X s"
    and f: "\<And>C. ch_name (f C) = ch_name C" "\<And>C. map cu_user (ch_users (f C)) = map cu_user (ch_users C)"
      "\<And>C. ch_invited (f C) = ch_invited C"
  shows "wf_upto X (upd_chan c f s)"
proof -
  let ?t = "upd_chan c f s"
  note L = links_okD [OF wf_uptoD(1) [OF w]] and T = chan_table_okD [OF wf_uptoD(2) [OF w]]
  have set: "cu_user ` set (ch_users (f C)) = cu_user ` set (ch_users C)" for C
    by (metis f(2) list.set_map)
  have old: "\<exists>C. s_chans s d = Some C \<and> ch_name D = ch_name C \<and>
      map cu_user (ch_users D) = map cu_user (ch_users C) \<and> ch_invited D = ch_invited C"
    if "s_chans ?t d = Some D" for d D
    using that by (auto simp: f elim!: upd_Some simp del: fun_upd_apply)
  have "memb ?t d u = memb s d u" "inviting ?t d u = inviting s d u" for d u
    by (cases "s_chans s c"; simp add: memb_def inviting_def set f)+
  moreover have "inch ?t = inch s" "invd ?t = invd s"
    by (simp_all add: inch_def invd_def fun_eq_iff)
  note eqs = calculation this
  have "links_ok X ?t"
  proof (rule links_okI)
    show "distinct (map cu_user (ch_users D)) \<and> distinct (ch_invited D)" if "s_chans ?t d = Some D" for d D
      using old [OF that] L(3,4) by auto
    show "v \<in> dom (s_users ?t)" if "memb ?t d v \<or> inviting ?t d v" for d v
      using that L(5,6) unfolding eqs upd_chan_frame by blast
  qed (use L in \<open>auto simp: eqs\<close>)
  moreover have "chan_table_ok ?t" "user_table_ok X ?t" "conn_ok X ?t"
    by (rule chan_table_ok_names [OF w] users_ok_keys [OF w]; simp add: f option.map_comp comp_def)+
  ultimately show ?thesis by (intro wf_uptoI)
qed

lemma wf_upd_user:
  assumes w: "wf_upto X s"
    and f: "\<And>U. u_nick (f U) = u_nick U" "\<And>U. u_con (f U) = u_con U"
      "\<And>U. u_channels (f U) = u_channels U" "\<And>U. u_invited (f U) = u_invited U"
      "\<And>U. u_local (f U) = u_local U"
  shows "wf_upto X (upd_user u f s)"
proof -
  let ?t = "upd_user u f s"
  note L = links_okD [OF wf_uptoD(1) [OF w]]
  have old: "\<exists>U. s_users s v = Some U \<and> u_channels V = u_channels U \<and> u_invited V = u_invited U"
    if "s_users ?t v = Some V" for v V
    using that by (auto simp: f elim!: upd_Some simp del: fun_upd_apply)
  have dom: "dom (s_users ?t) = dom (s_users s)" by (simp only: upd_user_frame dom_upd)
  have "inch ?t v d = inch s v d" "invd ?t v d = invd s v d" for v d
    by (cases "s_users s u"; simp add: inch_def invd_def f)+
  moreover have "memb ?t = memb s" "inviting ?t = inviting s"
    by (simp_all add: memb_def inviting_def fun_eq_iff)
  note eqs = calculation this
  have "links_ok X ?t"
  proof (rule links_okI)
    show "distinct (u_channels V) \<and> distinct (u_invited V)" if "s_users ?t v = Some V" for v V
      using old [OF that] L(1,2) by auto
    show "v \<in> dom (s_users ?t)" if "memb ?t d v \<or> inviting ?t d v" for d v
      using that L(5,6) unfolding dom eqs by blast
  qed (use L in \<open>auto simp: eqs\<close>)
  moreover have "chan_table_ok ?t" "user_table_ok X ?t" "conn_ok X ?t"
    by (rule chan_table_ok_names [OF w] users_ok_keys [OF w];
        simp add: f user_key_def [abs_def] option.map_comp comp_def)+
  ultimately show ?thesis by (intro wf_uptoI)
qed

lemma wf_upd_conn:
  assumes "wf_upto X s" and f: "\<And>K. c_class (f K) = c_class K" "\<And>K. c_user (f K) = c_user K"
  shows "wf_upto X (upd_conn c f s)"
proof -
  let ?t = "upd_conn c f s"
  have "conn_ok X ?t"
  proof (rule conn_okI)
    show "\<exists>U. s_users ?t (c_user K) = Some U \<and> u_con U = d \<and> u_local U"
      if "s_conns ?t d = Some K" "c_class K = CLASS_USER" "(c_user K, e) \<notin> X" for d K e
      using that conn_okD(1) [OF wf_uptoD(4) [OF assms(1)], of d _ e]
      by (auto simp: f split: if_splits)
    show "u_con U \<in> dom (s_conns ?t) \<and> (ISUSER (u_con U) ?t \<longrightarrow> c_user (cnx ?t (u_con U)) = u)"
      if u: "s_users ?t u = Some U" for u U
    proof -
      have d: "u_con U \<in> dom (s_conns s)" "ISUSER (u_con U) s \<longrightarrow> c_user (cnx s (u_con U)) = u"
        using u conn_okD(2,3) [OF wf_uptoD(4) [OF assms(1)], of u] by simp_all
      then obtain K where "s_conns s (u_con U) = Some K" by blast
      with d(2) show ?thesis by (auto simp: f ISUSER_def)
    qed
  qed
  moreover have "links_ok X ?t" "chan_table_ok ?t" "user_table_ok X ?t"
    using assms(1) by (simp_all add: wf_defs)
  ultimately show ?thesis by (intro wf_uptoI)
qed

lemma class_upd_conn [simp]:
  assumes "\<And>K. c_class (f K) = c_class K"
  shows "ISUSER d (upd_conn c f s) = ISUSER d s" "ISSERVER d (upd_conn c f s) = ISSERVER d s"
  by (cases "s_conns s c"; auto simp: ISUSER_def ISSERVER_def assms)+

subsection \<open>Forgetting a channel\<close>

lemma forget_channel_frame [simp]:
  "s_chans (forget_channel u c s) = s_chans s"
  "s_conns (forget_channel u c s) = s_conns s"
  "s_Users (forget_channel u c s) = s_Users s"
  "s_Channels (forget_channel u c s) = s_Channels s"
  "s_next (forget_channel u c s) = s_next s"
  "dom (s_users (forget_channel u c s)) = dom (s_users s)"
  "ISUSER d (forget_channel u c s) = ISUSER d s"
  "ISSERVER d (forget_channel u c s) = ISSERVER d s"
  by (simp_all add: forget_channel_def del: fun_upd_apply dom_fun_upd)

lemma memb_forget_channel [simp]: "memb (forget_channel u c s) = memb s"
  by (simp add: memb_def fun_eq_iff)

lemma wf_forget_channel:
  assumes w: "wf_upto X s" and "(u, c) \<in> X"
  shows "wf_upto X (forget_channel u c s)"
    and "inch (forget_channel u c s) v d \<longleftrightarrow> inch s v d \<and> (v, d) \<noteq> (u, c)"
proof -
  let ?t = "forget_channel u c s"
  note L = links_okD [OF wf_uptoD(1) [OF w]]
  show i: "inch ?t v d \<longleftrightarrow> inch s v d \<and> (v, d) \<noteq> (u, c)" for v d
    using L(1) [of u] by (cases "s_users s u") (auto simp: inch_def forget_channel_def)
  have old: "\<exists>U. s_users s v = Some U \<and> u_invited V = u_invited U \<and> distinct (u_channels V)"
    if "s_users ?t v = Some V" for v V
    using that L(1) by (auto simp: forget_channel_def elim!: upd_Some simp del: fun_upd_apply)
  have "invd ?t v d = invd s v d" for v d
    by (cases "s_users s u") (simp_all add: invd_def forget_channel_def)
  moreover have "memb ?t = memb s" "inviting ?t = inviting s"
    by (simp_all add: memb_def inviting_def fun_eq_iff)
  note eqs = calculation this
  have "links_ok X ?t"
  proof (rule links_okI)
    show "distinct (u_channels V) \<and> distinct (u_invited V)" if "s_users ?t v = Some V" for v V
      using old [OF that] L(2) by auto
    show "v \<in> dom (s_users ?t)" if "memb ?t d v \<or> inviting ?t d v" for d v
      using that L(5,6) unfolding forget_channel_frame eqs by blast
    show "inch ?t v d = memb ?t d v" if "(v, d) \<notin> X" for v d
      using that assms(2) L(7) by (auto simp: i)
  qed (use L in \<open>auto simp: eqs\<close>)
  moreover have "chan_table_ok ?t" "user_table_ok X ?t" "conn_ok X ?t"
    by (rule chan_table_ok_names [OF w] users_ok_keys [OF w];
        simp add: forget_channel_def user_key_def [abs_def] option.map_comp comp_def)+
  ultimately show "wf_upto X ?t" by (intro wf_uptoI)
qed

subsection \<open>Freeing a channel\<close>

lemma fold_uninvite_frame [simp]:
  "s_chans (fold (uninvite c) us s) = s_chans s"
  "s_conns (fold (uninvite c) us s) = s_conns s"
  "s_Users (fold (uninvite c) us s) = s_Users s"
  "s_Channels (fold (uninvite c) us s) = s_Channels s"
  "s_next (fold (uninvite c) us s) = s_next s" "s_Clients (fold (uninvite c) us s) = s_Clients s"
  "s_misc (fold (uninvite c) us s) = s_misc s"
  by (induction us arbitrary: s) (simp_all add: uninvite_def)

lemma users_fold_uninvite:
  "distinct us \<Longrightarrow>
   s_users (fold (uninvite c) us s) v =
     map_option (\<lambda>U. if v \<in> set us then U\<lparr>u_invited := list_delete (u_invited U) c\<rparr> else U) (s_users s v)"
  by (induction us arbitrary: s) (auto simp: uninvite_def option.map_comp comp_def option.map_ident)

lemma links_ok_drop_chan:
  assumes w: "wf_upto X s" and c: "s_chans s c = Some C" "ch_users C = []"
    and t: "s_chans t = (s_chans s)(c := None)"
      "\<And>v. s_users t v = map_option (\<lambda>U. U\<lparr>u_invited := list_delete (u_invited U) c\<rparr>) (s_users s v)"
  shows "links_ok X t" "\<And>v d. inch t v d \<longleftrightarrow> inch s v d" "\<And>d v. memb t d v \<longleftrightarrow> memb s d v"
proof -
  note L = links_okD [OF wf_uptoD(1) [OF w]]
  show i: "inch t v d \<longleftrightarrow> inch s v d" for v d
    by (auto simp: inch_def t)
  show m: "memb t d v \<longleftrightarrow> memb s d v" for d v
    using c by (auto simp: memb_def t)
  have v: "invd t v d \<longleftrightarrow> invd s v d \<and> d \<noteq> c" for v d
    using L(2) [of v] by (cases "s_users s v") (auto simp: invd_def t)
  have g: "inviting t d v \<longleftrightarrow> inviting s d v \<and> d \<noteq> c" for d v
    by (auto simp: inviting_def t)
  have old: "\<exists>U. s_users s u = Some U \<and> u_channels V = u_channels U \<and> distinct (u_invited V)"
    if "s_users t u = Some V" for u V
    using that L(2) [of u] by (auto simp: t)
  have "s_chans s d = Some D" if "s_chans t d = Some D" for d D
    using that by (auto simp: t split: if_splits)
  moreover have "dom (s_users t) = dom (s_users s)" by (auto simp: dom_def t)
  ultimately show "links_ok X t"
    using L old by (intro links_okI) (simp_all add: i m v g, metis+)
qed

lemma wf_channels_remove:
  assumes w: "wf_upto X s" and c: "s_chans s c = Some C" "ch_users C = []"
    and t': "t = channels_remove (ch_name C) s"
  shows "wf_upto X t"
    and "\<And>v d. inch t v d \<longleftrightarrow> inch s v d" "\<And>d v. memb t d v \<longleftrightarrow> memb s d v"
    and "s_chans t = (s_chans s)(c := None)" "s_conns t = s_conns s" "dom (s_users t) = dom (s_users s)"
proof -
  note L = links_okD [OF wf_uptoD(1) [OF w]] and T = chan_table_okD [OF wf_uptoD(2) [OF w]]
  let ?h = "fst (hash_remove (s_Channels s) (ch_name C))"
  have "snd (hash_remove (s_Channels s) (ch_name C)) = Some c"
    using wf_chan_lookup [OF w c(1)] by (simp add: hash_remove_result)
  then have t: "t = free_channel c (s\<lparr>s_Channels := ?h\<rparr>)"
    by (cases "hash_remove (s_Channels s) (ch_name C)") (simp add: t' channels_remove_def)
  have users: "s_users t v = map_option (\<lambda>U. U\<lparr>u_invited := list_delete (u_invited U) c\<rparr>) (s_users s v)" for v
  proof (cases "s_users s v")
    case (Some U)
    have "v \<in> set (ch_invited C) \<longleftrightarrow> c \<in> set (u_invited U)"
      using L(8) [of v c] Some c by (simp add: invd_def inviting_def)
    then show ?thesis using Some c L(4) [OF c(1)]
      by (auto simp: t free_channel_def Let_def users_fold_uninvite)
  qed (use c L(4) [OF c(1)] in \<open>simp add: t free_channel_def Let_def users_fold_uninvite\<close>)
  show chans: "s_chans t = (s_chans s)(c := None)" and conns: "s_conns t = s_conns s"
    by (simp_all add: t free_channel_def Let_def)
  show dom: "dom (s_users t) = dom (s_users s)" by (auto simp: dom_def users)
  show "\<And>v d. inch t v d \<longleftrightarrow> inch s v d" "\<And>d v. memb t d v \<longleftrightarrow> memb s d v"
    by (rule links_ok_drop_chan [OF w c chans users])+
  have fr: "s_Channels t = ?h" "s_next t = s_next s" "s_Users t = s_Users s"
    by (simp_all add: t free_channel_def Let_def)
  have st: "hash_stack ?h k = (if strcaseeq (ch_name C) k then [] else hash_stack (s_Channels s) k)" for k
    using T(1) T(2) [OF c(1)] hash_stack_cong [of "ch_name C" k "s_Channels s"]
    by (auto simp: hash_stack_remove) (metis list.sel(3))
  have other: "\<not> strcaseeq (ch_name C) (ch_name D)" if "s_chans s d = Some D" "d \<noteq> c" for d D
    using T(2) [OF c(1)] T(2) [OF that(1)] that(2) hash_stack_cong by (metis list.inject)
  have "chan_table_ok t"
  proof (rule chan_table_okI)
    show "hash_stack (s_Channels t) (ch_name D) = [d]" "d < s_next t" if "s_chans t d = Some D" for d D
      using that T(2,4) other by (auto simp: chans fr st split: if_splits)
    show "\<exists>D. s_chans t d = Some D \<and> strcaseeq k (ch_name D)"
      if "d \<in> set (hash_stack (s_Channels t) k)" for k d
    proof -
      have k: "\<not> strcaseeq (ch_name C) k" "d \<in> set (hash_stack (s_Channels s) k)"
        using that by (auto simp: fr st split: if_splits)
      from T(3) [OF k(2)] obtain D where D: "s_chans s d = Some D" "strcaseeq k (ch_name D)" by blast
      with c(1) k(1) have "d \<noteq> c" using strcaseeq_sym by fastforce
      with D show ?thesis by (simp add: chans)
    qed
  qed (use T(1) in \<open>simp add: fr hash_invar_remove\<close>)
  moreover have "user_table_ok X t" "conn_ok X t"
    by (rule users_ok_keys [OF w]; simp add: users fr conns user_key_def [abs_def] option.map_comp comp_def)+
  ultimately show "wf_upto X t"
    using links_ok_drop_chan(1) [OF w c chans users] by (intro wf_uptoI)
qed

subsection \<open>Leaving a channel\<close>

lemma wf_upd_members:
  assumes w: "wf_upto X s" and "(u, c) \<in> X"
    and t: "t = upd_chan c (\<lambda>C. C\<lparr>ch_users := channel_remove (ch_users C) u\<rparr>) s"
  shows "wf_upto X t"
    and "\<And>d v. memb t d v \<longleftrightarrow> memb s d v \<and> (v, d) \<noteq> (u, c)" "\<And>v d. inch t v d \<longleftrightarrow> inch s v d"
proof -
  note L = links_okD [OF wf_uptoD(1) [OF w]]
  show m: "memb t d v \<longleftrightarrow> memb s d v \<and> (v, d) \<noteq> (u, c)" for d v
    using L(3) [of c] by (cases "s_chans s c") (auto simp: memb_def t set_channel_remove)
  show i: "inch t v d \<longleftrightarrow> inch s v d" for v d by (simp add: inch_def t)
  have g: "inviting t d v = inviting s d v" "invd t v d = invd s v d" for d v
    by (cases "s_chans s c"; simp add: inviting_def invd_def t)+
  have old: "\<exists>D'. s_chans s d = Some D' \<and> ch_invited D = ch_invited D' \<and>
      distinct (map cu_user (ch_users D))"
    if "s_chans t d = Some D" for d D
    using that L(3) distinct_channel_remove
    by (auto simp: t elim!: upd_Some simp del: fun_upd_apply)
  have fr: "s_users t = s_users s" "s_Channels t = s_Channels s" "s_next t = s_next s"
    by (simp_all add: t)
  have "links_ok X t"
  proof (rule links_okI)
    show "distinct (map cu_user (ch_users D)) \<and> distinct (ch_invited D)" if "s_chans t d = Some D" for d D
      using old [OF that] L(4) by auto
    show "v \<in> dom (s_users t)" if "memb t d v \<or> inviting t d v" for d v
      using that L(5,6) unfolding m g fr by blast
    show "inch t v d = memb t d v" if "(v, d) \<notin> X" for v d
      using that assms(2) L(7) by (auto simp: i m)
  qed (use L in \<open>auto simp: g fr\<close>)
  moreover have "chan_table_ok t" "user_table_ok X t" "conn_ok X t"
    by (rule chan_table_ok_names [OF w] users_ok_keys [OF w]; simp add: t option.map_comp comp_def)+
  ultimately show "wf_upto X t" by (intro wf_uptoI)
qed

lemma memb_Nil: "s_chans s c = Some C \<Longrightarrow> ch_users C = [] \<longleftrightarrow> (\<forall>v. \<not> memb s c v)"
  by (auto simp: memb_def)

lemma wf_part_channel:
  assumes w: "wf_upto X s" and X: "(u, c) \<in> X" and c: "c \<in> dom (s_chans s)"
    and t: "t = part_channel c u s"
  shows "wf_upto X t"
    and "\<And>d v. memb t d v \<longleftrightarrow> memb s d v \<and> (v, d) \<noteq> (u, c)" "\<And>v d. inch t v d \<longleftrightarrow> inch s v d"
    and "s_conns t = s_conns s" "dom (s_users t) = dom (s_users s)"
    and "s_chans t d = s_chans s d \<or> d = c" "dom (s_chans t) \<subseteq> dom (s_chans s)"
proof -
  define s1 where s1: "s1 = upd_chan c (\<lambda>C. C\<lparr>ch_users := channel_remove (ch_users C) u\<rparr>) s"
  note W = wf_upd_members [OF w X s1]
  obtain C where C: "s_chans s1 c = Some C" using c by (auto simp: s1)
  have fr: "s_conns s1 = s_conns s" "s_users s1 = s_users s" "s_chans s1 d = s_chans s d \<or> d = c"
    "dom (s_chans s1) = dom (s_chans s)" for d
    by (simp_all add: s1 del: fun_upd_apply dom_fun_upd) simp
  have all: "wf_upto X t \<and> (\<forall>d v. memb t d v = (memb s d v \<and> (v, d) \<noteq> (u, c))) \<and>
    (\<forall>v d. inch t v d = inch s v d) \<and> s_conns t = s_conns s \<and> dom (s_users t) = dom (s_users s) \<and>
    (s_chans t d = s_chans s d \<or> d = c) \<and> dom (s_chans t) \<subseteq> dom (s_chans s)" for d
  proof (cases "ch_users C = [] \<and> ch_flags C AND ON_CHANNEL_USER \<noteq> 0")
    case True
    then have t': "t = channels_remove (ch_name C) s1" using C by (simp add: t part_channel_def s1 [symmetric] Let_def)
    show ?thesis
      using wf_channels_remove [OF W(1) C _ t'] True W(2,3) fr(1,2,4) fr(3) [of d] by auto
  next
    case False
    then have "t = emit (s_out t) s1 \<or> (\<exists>fs. t = emit fs s1) \<or> t = s1"
      using C by (auto simp: t part_channel_def s1 [symmetric] Let_def)
    then obtain fs where t': "t = emit fs s1 \<or> t = s1" by blast
    then have "memb t = memb s1" "inch t = inch s1" "s_chans t = s_chans s1" "s_users t = s_users s1"
      "s_conns t = s_conns s1" "wf_upto X t"
      using W(1) by (auto simp: memb_def inch_def fun_eq_iff)
    then show ?thesis
      using W(2,3) fr by simp
  qed
  from all show "wf_upto X t" "\<And>d v. memb t d v \<longleftrightarrow> memb s d v \<and> (v, d) \<noteq> (u, c)"
    "\<And>v d. inch t v d \<longleftrightarrow> inch s v d" "s_conns t = s_conns s" "dom (s_users t) = dom (s_users s)"
    "s_chans t d = s_chans s d \<or> d = c" "dom (s_chans t) \<subseteq> dom (s_chans s)" by blast+
qed

text \<open>
  States that differ in their output and in fields the invariant does not mention only.
\<close>

definition roll :: "srv \<Rightarrow> cid option list \<times> int" where
  "roll s = (s_Clients s, m_Num_Clients (s_misc s))"

declare roll_def [simp]

definition same_core :: "srv \<Rightarrow> srv \<Rightarrow> bool" where
  "same_core s t \<longleftrightarrow> s_users s = s_users t \<and> s_chans s = s_chans t \<and> s_conns s = s_conns t \<and>
     s_Users s = s_Users t \<and> s_Channels s = s_Channels t \<and> s_next s = s_next t \<and> roll s = roll t"

lemma same_core_wf: "same_core s t \<Longrightarrow> wf_upto X s = wf_upto X t"
  by (rule wf_cong) (simp_all add: same_core_def)

lemma same_core_rel: "same_core s t \<Longrightarrow> inch s = inch t \<and> memb s = memb t"
  by (simp add: same_core_def inch_def memb_def fun_eq_iff)

lemma same_core_refl [simp]: "same_core s s"
  by (simp add: same_core_def)

lemma same_core_output [simp]:
  "same_core r (emit fs s) = same_core r s" "same_core (emit fs s) r = same_core s r"
  "same_core r (queue_data d t m s) = same_core r s" "same_core (queue_data d t m s) r = same_core s r"
  "same_core r (send_cmd d t m s) = same_core r s" "same_core (send_cmd d t m s) r = same_core s r"
  "same_core r (pass_message x t m s) = same_core r s" "same_core (pass_message x t m s) r = same_core s r"
  "same_core r (pass_message_args x t m s) = same_core r s"
  "same_core (pass_message_args x t m s) r = same_core s r"
  "same_core r (send_user u t m s) = same_core r s" "same_core (send_user u t m s) r = same_core s r"
  "same_core r (notify_mods l m s) = same_core r s" "same_core (notify_mods l m s) r = same_core s r"
  "same_core r (notify_ops ch m s) = same_core r s" "same_core (notify_ops ch m s) r = same_core s r"
  "same_core r (nosuchuser d s) = same_core r s" "same_core (nosuchuser d s) r = same_core s r"
  "same_core r (permission_denied d s) = same_core r s" "same_core (permission_denied d s) r = same_core s r"
  "same_core r (unparsable d s) = same_core r s" "same_core (unparsable d s) r = same_core s r"
  "same_core r (nosuchchannel d s) = same_core r s" "same_core (nosuchchannel d s) r = same_core s r"
  "same_core r (tell_user d m s) = same_core r s" "same_core (tell_user d m s) r = same_core s r"
  by (simp_all add: same_core_def)

text \<open>A user leaves one channel: the channel is forgotten, then parted, with output in between.\<close>

lemma wf_unlink:
  assumes w: "wf s" and c: "c \<in> dom (s_chans s)"
    and s1: "same_core s1 (forget_channel u c s)" and t: "t = part_channel c u s1"
  shows "wf t" and "\<not> memb t c u" and "dom (s_users t) = dom (s_users s)"
    and "s_conns t = s_conns s"
    and "\<And>d v. memb t d v \<longleftrightarrow> memb s d v \<and> (v, d) \<noteq> (u, c)"
proof -
  have w1: "wf_upto {(u, c)} s" by (rule wf_upto_mono [OF w]) simp
  note F = wf_forget_channel [OF w1, of u c]
  have "wf_upto {(u, c)} s1" using F(1) same_core_wf [OF s1] by simp
  moreover have "c \<in> dom (s_chans s1)" using c s1 by (simp add: same_core_def)
  ultimately have P: "wf_upto {(u, c)} t"
    "\<And>d v. memb t d v \<longleftrightarrow> memb s1 d v \<and> (v, d) \<noteq> (u, c)" "\<And>v d. inch t v d \<longleftrightarrow> inch s1 v d"
    "s_conns t = s_conns s1" "dom (s_users t) = dom (s_users s1)"
    using wf_part_channel [OF _ _ _ t] by auto
  show m: "memb t d v \<longleftrightarrow> memb s d v \<and> (v, d) \<noteq> (u, c)" for d v
    using P(2) same_core_rel [OF s1] by simp
  then show "\<not> memb t c u" by simp
  show "dom (s_users t) = dom (s_users s)" "s_conns t = s_conns s"
    using P(4,5) s1 by (simp_all add: same_core_def)
  have i: "inch t u c = memb t c u" using P(3) F(2) m same_core_rel [OF s1] by simp
  note L = links_okD [OF wf_uptoD(1) [OF P(1)]]
  have "links_ok {} t"
  proof (rule links_okI)
    show "inch t v d = memb t d v" for v d using L(7) [of v d] i by (cases "(v, d) = (u, c)") auto
    show "v \<in> dom (s_users t)" if "memb t d v \<or> inviting t d v" for d v using that L(5,6) by blast
  qed (use L in auto)
  moreover have "user_table_ok {} t"
  proof (rule user_table_okI)
    show "hash_stack (s_Users t) (u_nick U) = [v]" if "s_users t v = Some U" for v U
      using user_table_okD(2) [OF wf_uptoD(3) [OF P(1)], of v "Suc c"] that by simp
  qed (use user_table_okD(1,3) [OF wf_uptoD(3) [OF P(1)]] in auto)
  moreover have "conn_ok {} t"
  proof (rule conn_okI)
    show "\<exists>U. s_users t (c_user K) = Some U \<and> u_con U = d \<and> u_local U"
      if "s_conns t d = Some K" "c_class K = CLASS_USER" for d K
      using conn_okD(1) [OF wf_uptoD(4) [OF P(1)], of d K "Suc c"] that by simp
  qed (use conn_okD(2,3) [OF wf_uptoD(4) [OF P(1)]] in auto)
  ultimately show "wf t" using wf_uptoD(2) [OF P(1)] by (intro wf_uptoI)
qed

end
