(* ===== verification/Sample.thy ===== *)
theory Sample
  imports Membership
begin

text \<open>
  A small concrete state, on which the witnesses evaluate the handlers: the moderator alice
  (connection 0), the user bob (connection 1) and the remote user carl (behind the server on
  connection 2); alice and bob are on the channel \<open>#den\<close>, alice as an operator, and carl is invited.
\<close>

definition sample_cfg :: config where
  "sample_cfg = \<lparr>Server_Name = ''hub'', Max_Nick_Length = 19, Max_Channel_Length = 50,
     Max_User_Channels = 5, Max_Hotlist = 32, Max_Ignore = 32, Max_Topic = 64, Max_Reason = 64,
     Channel_Limit = 200, Nick_Expire = 7776000, Flood_Commands = 0, Flood_Time = 100,
     Strict_Channels = False, Registered_Only = False, Auto_Register = False, Eject_When_Full = False,
     Max_Client_String = 32, Max_Clones = 0, Max_Connections = 1024, Max_Command_Length = 2048,
     Max_Shared = 5000, Max_Search_Results = 100, Max_Browse_Result = 500, Search_Timeout = 180,
     Login_Timeout = 60, Server_Pass = ''opensource'', Compression_Level = 1,
     Client_Queue_Length = 102400, Server_Queue_Length = 1048576, Stat_Click = 60, Listen_Addr = ''0.0.0.0'',
     Server_Ports = [''8888''], Collect_Interval = 300, Uid = - 1, Gid = - 1, Connection_Hard_Limit = 1024,
     Max_Data_Size = - 1, Max_Rss_Size = - 1, Lock_Memory = False, User_Db_Interval = 1800,
     Config_Dir = ''/etc/opennap'', Stats_Port = 8889\<rparr>"

definition sample_user :: "string \<Rightarrow> level \<Rightarrow> bool \<Rightarrow> cid \<Rightarrow> chid list \<Rightarrow> chid list \<Rightarrow> user" where
  "sample_user nick lvl loc con cs ivs = \<lparr>u_nick = nick, u_pass = ''pw'', u_level = lvl, u_speed = 3,
     u_local = loc, u_muzzled = False, u_cloaked = False, u_sharing = False, u_unsharing = False,
     u_shared = 0, u_libsize = 0, u_ip = 0x100000A, u_server = ''hub'', u_con = con,
     u_clientinfo = ''nap'', u_uploads = 0, u_downloads = 0, u_totalup = 0, u_totaldown = 0, u_port = 6699,
     u_conport = 4000, u_connected = 900, u_channels = cs, u_invited = ivs\<rparr>"

definition sample_conn :: "conn_class \<Rightarrow> uid \<Rightarrow> string \<Rightarrow> conn" where
  "sample_conn cl u host = \<lparr>c_class = cl, c_user = u, c_host = host, c_numerics = True, c_destroy = False,
     c_killed = False, c_flood = 0, c_usermode = 0xFFFF, c_hotlist = [], c_ignore = [], c_ip = 0x100000A, c_port = 4000,
     c_local_port = 8888, c_connecting = False, c_server_login = False, c_nonce = None, c_sendernonce = None, c_compress = 0,
     c_timer = 900, c_files = None, c_recvbuf = []\<rparr>"

definition sample_chan :: channel where
  "sample_chan = \<lparr>ch_name = ''#den'', ch_topic = ''hi'', ch_ops = [],
     ch_users = [\<lparr>cu_flags = ON_OPERATOR, cu_user = 0\<rparr>, \<lparr>cu_flags = 0, cu_user = 1\<rparr>],
     ch_limit = 200, ch_flags = ON_CHANNEL_USER, ch_level = LEVEL_USER, ch_bans = [], ch_timestamp = 0,
     ch_invited = [2]\<rparr>"

definition sample :: srv where
  "sample = \<lparr>
     s_users = [0 \<mapsto> sample_user ''alice'' LEVEL_MODERATOR True 0 [0] [],
                1 \<mapsto> sample_user ''bob'' LEVEL_USER True 1 [0] [],
                2 \<mapsto> sample_user ''carl'' LEVEL_USER False 2 [] [0]],
     s_chans = [0 \<mapsto> sample_chan],
     s_conns = [0 \<mapsto> sample_conn CLASS_USER 0 ''h0'', 1 \<mapsto> sample_conn CLASS_USER 1 ''h1'',
                2 \<mapsto> sample_conn CLASS_SERVER 0 ''peer''],
     s_dbs = Map.empty, s_hotl = Map.empty,
     s_Users = hash_add (hash_add (hash_add (hash_init 7) ''alice'' 0) ''bob'' 1) ''carl'' 2,
     s_Channels = hash_add (hash_init 7) ''#den'' 0,
     s_Hotlist = hash_init 7, s_User_Db = hash_init 7,
     s_Bans = [], s_Servers = [2], s_Server_Links = [], s_Clients = [Some 0, Some 1, Some 2],
     s_next = 3, s_next_db = 0, s_next_hot = 0, s_rand = (\<lambda>i. i), s_cfg = sample_cfg, s_time = 1000, s_Buf_len = 0,
     s_Num_Files = 0, s_Num_Gigs = 0, s_Local_Files = 0,
     s_misc = \<lparr>m_Num_Clients = 3, m_LastFlooder = [], m_Server_Names = [], m_motd = [], m_SigCaught = False,
       m_searches = [], m_Search_Count = 0, m_Filter = None, m_datums = Map.empty, m_flists = Map.empty,
       m_File_Table = hash_init 2001, m_next_file = 0, m_next_flist = 0, m_servers = None\<rparr>,
     s_out = []\<rparr>"

lemmas sample_simps = sample_def sample_user_def sample_conn_def sample_chan_def sample_cfg_def

lemma sample_lookup_user:
  "hash_stack (s_Users sample) k = (if strcaseeq ''carl'' k then [2] else if strcaseeq ''bob'' k then [1]
     else if strcaseeq ''alice'' k then [0] else [])"
  by (cases "lower k = ''carl''"; cases "lower k = ''bob''"; cases "lower k = ''alice''")
    (auto simp: sample_def hash_stack_add hash_invar_add strcaseeq_def char_eval)

lemma sample_lookup_chan: "hash_stack (s_Channels sample) k = (if strcaseeq ''#den'' k then [0] else [])"
  by (simp add: sample_def hash_stack_add hash_invar_add)

lemma sample_tables [simp]: "hash_invar (s_Users sample)" "hash_invar (s_Channels sample)"
  by (simp_all add: sample_def hash_invar_add)

lemma sample_memb: "memb sample c u \<longleftrightarrow> c = 0 \<and> (u = 0 \<or> u = 1)"
  by (auto simp: memb_def sample_simps)

lemma sample_inviting: "inviting sample c u \<longleftrightarrow> c = 0 \<and> u = 2"
  by (auto simp: inviting_def sample_simps)

lemma sample_inch: "inch sample u c \<longleftrightarrow> c = 0 \<and> (u = 0 \<or> u = 1)"
  by (auto simp: inch_def sample_simps split: if_splits)

lemma sample_invd: "invd sample u c \<longleftrightarrow> c = 0 \<and> u = 2"
  by (auto simp: invd_def sample_simps split: if_splits)

lemma wf_sample: "wf sample"
proof (rule wf_uptoI)
  show "links_ok {} sample"
    by (rule links_okI)
      (auto simp: sample_memb sample_inviting sample_inch sample_invd, auto simp: sample_simps split: if_splits)
  show "chan_table_ok sample"
    by (rule chan_table_okI)
      (auto simp: sample_lookup_chan strcaseeq_commute split: if_splits,
       auto simp: sample_simps split: if_splits)
  show "user_table_ok {} sample"
    by (rule user_table_okI)
      (auto simp: sample_lookup_user strcaseeq_commute split: if_splits,
       auto simp: sample_simps strcaseeq_def char_eval split: if_splits)
  show "conn_ok {} sample"
    by (rule conn_okI) (auto simp: sample_simps ISUSER_def split: if_splits)
qed

text \<open>Evaluation of the state's parts.\<close>

lemma sample_users [simp]:
  "s_users sample 0 = Some (sample_user ''alice'' LEVEL_MODERATOR True 0 [0] [])"
  "s_users sample (Suc 0) = Some (sample_user ''bob'' LEVEL_USER True 1 [0] [])"
  "s_users sample 2 = Some (sample_user ''carl'' LEVEL_USER False 2 [] [0])"
  by (simp_all add: sample_def)

lemma sample_chans [simp]: "s_chans sample = [0 \<mapsto> sample_chan]"
  by (simp add: sample_def)

lemma sample_conns [simp]:
  "s_conns sample 0 = Some (sample_conn CLASS_USER 0 ''h0'')"
  "s_conns sample (Suc 0) = Some (sample_conn CLASS_USER 1 ''h1'')"
  "s_conns sample 2 = Some (sample_conn CLASS_SERVER 0 ''peer'')"
  by (simp_all add: sample_def)

lemma sample_lookup [simp]:
  "hash_lookup (s_Channels sample) ''#den'' = Some 0"
  "hash_lookup (s_Users sample) ''alice'' = Some 0"
  "hash_lookup (s_Users sample) ''bob'' = Some 1"
  "hash_lookup (s_Users sample) ''carl'' = Some 2"
  by (simp_all add: hash_lookup_stack sample_lookup_user sample_lookup_chan strcaseeq_def char_eval)

lemma sample_misc [simp]:
  "s_Servers sample = [2]" "s_cfg sample = sample_cfg" "s_Bans sample = []" "s_out sample = []"
  "s_Clients sample = [Some 0, Some (Suc 0), Some 2]" "s_time sample = 1000" "s_next sample = 3"
  "s_Buf_len sample = 0" "s_Server_Links sample = []"
  by (simp_all add: sample_def)

lemma sample_class [simp]:
  "ISUSER 0 sample" "ISUSER (Suc 0) sample" "\<not> ISUSER 2 sample"
  "\<not> ISSERVER 0 sample" "\<not> ISSERVER (Suc 0) sample" "ISSERVER 2 sample"
  by (simp_all add: ISUSER_def ISSERVER_def sample_conn_def)

lemma sample_pop_user [simp]:
  "pop_user 0 p sample = Some (Some p, 0)" "pop_user (Suc 0) p sample = Some (Some p, 1)"
  by (simp_all add: pop_user_def sample_conn_def)

lemmas sample_parts = sample_user_def sample_conn_def sample_chan_def sample_cfg_def

lemmas text_eval = get_args_def split_line_def next_arg_def next_arg_noskip_def is_sep_def char_eval

end
