(* ===== verification/Leave.thy ===== *)
theory Leave
  imports Sample
begin

text \<open>
  Leaving a channel: \<open>part\<close> (\<open>src/part.c\<close>), \<open>kick\<close> and \<open>clear_channel\<close> (\<open>src/kick.c\<close>), and the end
  of a user: \<open>free_user\<close> (\<open>src/free_user.c\<close>) and \<open>client_quit\<close> (\<open>src/client_quit.c\<close>).
\<close>

section \<open>The handlers\<close>

definition part :: "cid \<Rightarrow> nat \<Rightarrow> string \<Rightarrow> srv \<Rightarrow> srv" where
  "part con tag pkt s =
     (case pop_user con pkt s of
        None \<Rightarrow> s
      | Some (None, user) \<Rightarrow> s
      | Some (Some pkt, user) \<Rightarrow>
          (case find_channel (u_channels (usr s user)) pkt s of
             None \<Rightarrow> tell_user con ''You are not in that channel'' s
           | Some chan \<Rightarrow>
               let s = (if ISUSER con s then send_cmd con tag (ch_name (chn s chan)) s else s);
                   s = pass_message_args (Some con) MSG_CLIENT_PART
                         ('':'' @ u_nick (usr s user) @ '' '' @ ch_name (chn s chan)) s;
                   s = forget_channel user chan s
               in part_channel chan user s))"

definition can_kick :: "chid \<Rightarrow> uid \<Rightarrow> uid \<Rightarrow> srv \<Rightarrow> bool" where
  "can_kick chan sender user s \<longleftrightarrow>
     u_level (usr s sender) = LEVEL_ELITE \<or> u_level (usr s user) < u_level (usr s sender) \<or>
     (is_chanop chan sender s \<and> u_level (usr s sender) = u_level (usr s user))"

text \<open>What \<open>kick\<close> sends before the user is taken off the channel.\<close>

definition kick_notice ::
    "cid \<Rightarrow> nat \<Rightarrow> uid \<Rightarrow> uid \<Rightarrow> chid \<Rightarrow> string option \<Rightarrow> srv \<Rightarrow> srv" where
  "kick_notice con tag sender user chan why s =
     (let name = ch_name (chn s chan);
          nick = u_nick (usr s sender);
          reason = (case why of None \<Rightarrow> [] | Some r \<Rightarrow> r);
          hide = u_cloaked (usr s sender) \<and> u_level (usr s user) < LEVEL_MODERATOR;
          s = pass_message_args (Some con) tag
                ('':'' @ nick @ '' '' @ name @ '' '' @ u_nick (usr s user) @
                 (case why of None \<Rightarrow> [] | Some r \<Rightarrow> '' '' @ [dquote] @ r @ [dquote])) s
      in if ISUSER (user_con s user) s then
           send_cmd (user_con s user) MSG_SERVER_NOSUCH
             (''You were kicked from channel '' @ name @
              (if hide then [] else '' by '' @ nick) @ '': '' @ reason)
             (send_cmd (user_con s user) MSG_CLIENT_PART name s)
         else s)"

definition kick_out :: "cid \<Rightarrow> nat \<Rightarrow> uid \<Rightarrow> uid \<Rightarrow> chid \<Rightarrow> string option \<Rightarrow> srv \<Rightarrow> srv" where
  "kick_out con tag sender user chan why s =
     (let s = forget_channel user chan (kick_notice con tag sender user chan why s);
          s = notify_ops chan (u_nick (usr s sender) @ '' kicked '' @ u_nick (usr s user) @
                '' out of channel '' @ ch_name (chn s chan) @ '': '' @
                (case why of None \<Rightarrow> [] | Some r \<Rightarrow> r)) s
      in part_channel chan user s)"

definition kick :: "cid \<Rightarrow> nat \<Rightarrow> string \<Rightarrow> srv \<Rightarrow> srv" where
  "kick con tag pkt s =
     (case pop_user con pkt s of
        None \<Rightarrow> s
      | Some (pkt, sender) \<Rightarrow>
          let av = get_args 3 pkt in
          if length av < 2 then unparsable con s
          else case hash_lookup (s_Channels s) (av ! 0) of
            None \<Rightarrow> nosuchchannel con s
          | Some chan \<Rightarrow>
              if chan \<notin> set (u_channels (usr s sender)) then
                tell_user con ''You are not on that channel'' s
              else case hash_lookup (s_Users s) (av ! 1) of
                None \<Rightarrow> nosuchuser con s
              | Some user \<Rightarrow>
                  if u_level (usr s sender) < ch_level (chn s chan) \<or> \<not> can_kick chan sender user s then
                    permission_denied con s
                  else if chan \<notin> set (u_channels (usr s user)) then
                    tell_user con ''users is not on that channel'' s
                  else kick_out con tag sender user chan
                         (if length av = 3 then Some (truncate_reason s (av ! 2)) else None) s)"

text \<open>The body of the loop of \<open>clear_channel\<close>, for one member.\<close>

definition clear_one :: "chid \<Rightarrow> uid \<Rightarrow> string \<Rightarrow> uid \<Rightarrow> srv \<Rightarrow> srv" where
  "clear_one chan sender text user s =
     (if user \<noteq> sender \<and> can_kick chan sender user s then
        let s = forget_channel user chan s;
            s = (if ISUSER (user_con s user) s then
                   send_cmd (user_con s user) MSG_SERVER_NOSUCH
                     (u_nick (usr s sender) @ '' cleared channel '' @ ch_name (chn s chan) @ '': '' @ text)
                     (send_cmd (user_con s user) MSG_CLIENT_PART (ch_name (chn s chan)) s)
                 else s)
        in part_channel chan user s
      else s)"

text \<open>
  The loop steps to the next list element before \<open>part_channel\<close> unlinks the current one, so it visits
  the members present at the start.
\<close>

definition clear_channel :: "cid \<Rightarrow> nat \<Rightarrow> string \<Rightarrow> srv \<Rightarrow> srv" where
  "clear_channel con tag pkt s =
     (case pop_user con pkt s of
        None \<Rightarrow> s
      | Some (pkt, sender) \<Rightarrow>
          (case next_arg pkt of
             (None, _) \<Rightarrow> unparsable con s
           | (Some chanName, pkt) \<Rightarrow>
               (case hash_lookup (s_Channels s) chanName of
                  None \<Rightarrow> nosuchchannel con s
                | Some chan \<Rightarrow>
                    if u_level (usr s sender) < ch_level (chn s chan) then permission_denied con s
                    else
                      let text = (case pkt of None \<Rightarrow> [] | Some p \<Rightarrow> truncate_reason s p);
                          s = pass_message_args (Some con) tag ('':'' @ u_nick (usr s sender) @ '' '' @
                                ch_name (chn s chan) @ '' '' @ text) s;
                          s = notify_ops chan (u_nick (usr s sender) @ '' cleared channel '' @
                                ch_name (chn s chan) @ '': '' @ text) s
                      in fold (clear_one chan sender text) (map cu_user (ch_users (chn s chan))) s)))"

section \<open>The end of a user\<close>

definition drop_invite :: "uid \<Rightarrow> chid \<Rightarrow> srv \<Rightarrow> srv" where
  "drop_invite user chan s = upd_chan chan (\<lambda>c. c\<lparr>ch_invited := list_delete (ch_invited c) user\<rparr>) s"

text \<open>The steps of \<open>free_user\<close>, in the order the function takes them.\<close>

definition announce_quit :: "uid \<Rightarrow> srv \<Rightarrow> srv" where
  "announce_quit user s =
     (if ISUSER (user_con s user) s \<and> s_Servers s \<noteq> [] \<and> \<not> c_killed (cnx s (user_con s user)) then
        pass_message_args (Some (user_con s user)) MSG_CLIENT_QUIT (u_nick (usr s user)) s
      else s)"

definition leave_all :: "uid \<Rightarrow> srv \<Rightarrow> srv" where
  "leave_all user s = fold (\<lambda>c. part_channel c user) (u_channels (usr s user)) s"

definition drop_invites :: "uid \<Rightarrow> srv \<Rightarrow> srv" where
  "drop_invites user s = fold (drop_invite user) (u_invited (usr s user)) s"

definition drop_shares :: "uid \<Rightarrow> srv \<Rightarrow> srv" where
  "drop_shares user s =
     s\<lparr>s_Num_Files := s_Num_Files s - int (u_shared (usr s user)),
       s_Num_Gigs := s_Num_Gigs s - u_libsize (usr s user),
       s_Local_Files := (if ISUSER (user_con s user) s
          then s_Local_Files s - int (u_shared (usr s user)) else s_Local_Files s)\<rparr>"

definition announce_signoff :: "uid \<Rightarrow> srv \<Rightarrow> srv" where
  "announce_signoff user s =
     (case hash_lookup (s_Hotlist s) (u_nick (usr s user)) of
        None \<Rightarrow> s
      | Some h \<Rightarrow> emit (map (\<lambda>c. (c, MSG_SERVER_USER_SIGNOFF, form_message (u_nick (usr s user))))
                         (h_users (hot s h))) s)"

definition stamp_last_seen :: "uid \<Rightarrow> srv \<Rightarrow> srv" where
  "stamp_last_seen user s =
     (case hash_lookup (s_User_Db s) (u_nick (usr s user)) of
        None \<Rightarrow> s
      | Some d \<Rightarrow> upd_db d (\<lambda>db. db\<lparr>db_lastSeen := s_time s\<rparr>) s)"

definition delete_user :: "uid \<Rightarrow> srv \<Rightarrow> srv" where
  "delete_user user s = s\<lparr>s_users := (s_users s)(user := None)\<rparr>"

definition free_user :: "uid \<Rightarrow> srv \<Rightarrow> srv" where
  "free_user user s =
     delete_user user (stamp_last_seen user (announce_signoff user (drop_shares user
       (drop_invites user (leave_all user (announce_quit user s))))))"

text \<open>\<open>hash_remove (Users, nick)\<close>, whose destroy callback is \<open>free_user\<close>.\<close>

definition users_remove :: "string \<Rightarrow> srv \<Rightarrow> srv" where
  "users_remove nick s =
     (case hash_remove (s_Users s) nick of
        (h, None) \<Rightarrow> s\<lparr>s_Users := h\<rparr>
      | (h, Some user) \<Rightarrow> free_user user (s\<lparr>s_Users := h\<rparr>))"

definition client_quit :: "cid \<Rightarrow> nat \<Rightarrow> string \<Rightarrow> srv \<Rightarrow> srv" where
  "client_quit con tag pkt s =
     (if \<not> ISSERVER con s then s
      else case hash_lookup (s_Users s) pkt of
        None \<Rightarrow> s
      | Some user \<Rightarrow>
          if u_local (usr s user) then s
          else
            let s = pass_message_args (Some con) tag (u_nick (usr s user)) s
            in users_remove (u_nick (usr s user)) s)"

lemmas [handler_defs] = part_def kick_def clear_channel_def client_quit_def

section \<open>The invariant is kept\<close>

lemma wf_forget_part:
  "wf s \<Longrightarrow> c \<in> dom (s_chans s) \<Longrightarrow> wf (part_channel c u (forget_channel u c s))"
  by (rule wf_unlink(1) [OF _ _ same_core_refl refl])

lemma wf_forget_notify_part:
  "wf s \<Longrightarrow> c \<in> dom (s_chans s) \<Longrightarrow> wf (part_channel c u (notify_ops d m (forget_channel u c s)))"
  by (rule wf_unlink(1) [OF _ _ _ refl]) (simp_all add: same_core_def)

lemma wf_pop_find_channel:
  assumes "wf s" "registered con s" "pop_user con pkt s = Some (p, u)"
    and "find_channel (u_channels (usr s u)) k s = Some c"
  shows "c \<in> dom (s_chans s)"
  using wf_pop_user [OF assms(1-3)] wf_find_channel(2) assms(1,4) by blast

lemma wf_part: "wf s \<Longrightarrow> registered con s \<Longrightarrow> wf (part con tag pkt s)"
  by (auto simp: part_def Let_def simp del: domIff split: option.split
      intro!: wf_forget_part dest: wf_pop_find_channel)

lemma kick_out_alt:
  "\<exists>s1. same_core s1 (forget_channel u c s) \<and> kick_out con tag sender u c why s = part_channel c u s1"
proof -
  have "same_core (kick_notice con tag sender u c why s) s"
    by (simp add: kick_notice_def Let_def)
  then have "same_core (forget_channel u c (kick_notice con tag sender u c why s)) (forget_channel u c s)"
    by (simp add: same_core_def forget_channel_def)
  then show ?thesis unfolding kick_out_def Let_def by (intro exI conjI) (rule iffD2 [OF same_core_output(16)], assumption, rule refl)
qed

lemma kick_cases:
  obtains "same_core s (kick con tag pkt s)"
  | pkt' sender k c u s1 where "pop_user con pkt s = Some (pkt', sender)"
      "hash_lookup (s_Channels s) k = Some c" "c \<in> set (u_channels (usr s sender))"
      "ch_level (chn s c) \<le> u_level (usr s sender)" "can_kick c sender u s"
      "same_core s1 (forget_channel u c s)" "kick con tag pkt s = part_channel c u s1"
proof -
  have "same_core s (kick con tag pkt s) \<or>
    (\<exists>pkt' sender k c u why. pop_user con pkt s = Some (pkt', sender) \<and>
      hash_lookup (s_Channels s) k = Some c \<and> c \<in> set (u_channels (usr s sender)) \<and>
      ch_level (chn s c) \<le> u_level (usr s sender) \<and> can_kick c sender u s \<and>
      kick con tag pkt s = kick_out con tag sender u c why s)"
    unfolding kick_def Let_def
    by (auto split: option.split simp: not_less)
  then show thesis using that kick_out_alt by metis
qed

lemma wf_kick: "wf s \<Longrightarrow> wf (kick con tag pkt s)"
proof (cases rule: kick_cases [of s con tag pkt])
  case (2 pkt' sender k c u s1)
  moreover assume "wf s"
  ultimately show ?thesis using wf_unlink(1) [OF _ wf_lookup_chan_dom] by blast
qed (simp add: same_core_wf)

lemma wf_clear_one:
  assumes "wf s" "memb s c u"
  shows "wf (clear_one c sender tx u s)"
    and "v \<noteq> u \<Longrightarrow> memb s c v \<Longrightarrow> memb (clear_one c sender tx u s) c v"
proof -
  have c: "c \<in> dom (s_chans s)" using assms(2) by (auto simp: memb_def)
  note U = wf_unlink [OF assms(1) c _ refl, where u = u]
  have "wf (clear_one c sender tx u s) \<and> (v \<noteq> u \<and> memb s c v \<longrightarrow> memb (clear_one c sender tx u s) c v)"
    using assms by (auto simp: clear_one_def Let_def U(5) same_core_def intro!: U(1))
  then show "wf (clear_one c sender tx u s)"
    and "v \<noteq> u \<Longrightarrow> memb s c v \<Longrightarrow> memb (clear_one c sender tx u s) c v" by blast+
qed

text \<open>The members still to be visited are members, so the channel is live while there are any.\<close>

lemma wf_clear_loop:
  "wf s \<Longrightarrow> distinct us \<Longrightarrow> \<forall>u \<in> set us. memb s c u \<Longrightarrow> wf (fold (clear_one c sender tx) us s)"
proof (induction us arbitrary: s)
  case (Cons u us)
  then have m: "memb s c u" by simp
  have "memb (clear_one c sender tx u s) c v" if "v \<in> set us" for v
    using that Cons.prems by (intro wf_clear_one(2) [OF _ m]) auto
  then show ?case
    using Cons.prems(2) by (simp add: Cons.IH wf_clear_one(1) [OF Cons.prems(1) m])
qed simp

lemma wf_members:
  "wf s \<Longrightarrow> c \<in> dom (s_chans s) \<Longrightarrow>
   distinct (map cu_user (ch_users (chn s c))) \<and> (\<forall>u \<in> set (map cu_user (ch_users (chn s c))). memb s c u)"
  by (auto simp: memb_def dest: wf_uptoD(1) intro: links_okD(3))

lemma wf_clear_channel: "wf s \<Longrightarrow> wf (clear_channel con tag pkt s)"
proof -
  assume w: "wf s"
  have "wf (fold (clear_one c sender tx) (map cu_user (ch_users (chn s c)))
      (notify_ops c m (pass_message_args x t m' s)))"
    if "hash_lookup (s_Channels s) k = Some c" for c k sender tx m x t m'
    using w wf_members [OF w wf_lookup_chan_dom [OF w that]]
    by (intro wf_clear_loop) (auto simp: memb_def)
  then show ?thesis using w
    by (auto simp: clear_channel_def Let_def split: option.split prod.split)
qed

section \<open>Freeing a user keeps the invariant\<close>

lemma channels_remove_frame [simp]:
  "s_Users (channels_remove n s) = s_Users s"
  "s_conns (channels_remove n s) = s_conns s" "s_Clients (channels_remove n s) = s_Clients s"
  "s_misc (channels_remove n s) = s_misc s"
  by (simp_all add: channels_remove_def free_channel_def Let_def split: option.split prod.split)

lemma part_channel_frame [simp]:
  "s_Users (part_channel c u s) = s_Users s"
  "s_conns (part_channel c u s) = s_conns s" "s_Clients (part_channel c u s) = s_Clients s"
  "s_misc (part_channel c u s) = s_misc s"
  by (simp_all add: part_channel_def Let_def)

lemma fold_part_frame:
  "s_Users (fold (\<lambda>c. part_channel c u) cs s) = s_Users s"
  "s_conns (fold (\<lambda>c. part_channel c u) cs s) = s_conns s"
  by (induction cs arbitrary: s) simp_all

lemma fold_drop_invite_frame [simp]:
  "s_Users (fold (drop_invite u) cs s) = s_Users s"
  "s_users (fold (drop_invite u) cs s) = s_users s"
  "s_conns (fold (drop_invite u) cs s) = s_conns s"
  "s_Channels (fold (drop_invite u) cs s) = s_Channels s"
  "s_next (fold (drop_invite u) cs s) = s_next s"
  by (induction cs arbitrary: s) (simp_all add: drop_invite_def)

lemma chans_fold_drop_invite:
  "distinct cs \<Longrightarrow>
   s_chans (fold (drop_invite u) cs s) d =
     map_option (\<lambda>C. if d \<in> set cs then C\<lparr>ch_invited := list_delete (ch_invited C) u\<rparr> else C) (s_chans s d)"
  by (induction cs arbitrary: s) (auto simp: drop_invite_def option.map_comp comp_def option.map_ident)

lemma end_steps_frame [simp]:
  "s_users (drop_shares u s) = s_users s" "s_users (announce_signoff u s) = s_users s"
  "s_users (stamp_last_seen u s) = s_users s"
  "s_chans (drop_shares u s) = s_chans s" "s_chans (announce_signoff u s) = s_chans s"
  "s_chans (stamp_last_seen u s) = s_chans s"
  "s_conns (drop_shares u s) = s_conns s" "s_conns (announce_signoff u s) = s_conns s"
  "s_conns (stamp_last_seen u s) = s_conns s"
  "s_Users (drop_shares u s) = s_Users s" "s_Users (announce_signoff u s) = s_Users s"
  "s_Users (stamp_last_seen u s) = s_Users s"
  "s_Channels (drop_shares u s) = s_Channels s" "s_Channels (announce_signoff u s) = s_Channels s"
  "s_Channels (stamp_last_seen u s) = s_Channels s"
  "s_next (drop_shares u s) = s_next s" "s_next (announce_signoff u s) = s_next s"
  "s_next (stamp_last_seen u s) = s_next s"
  by (simp_all add: drop_shares_def announce_signoff_def stamp_last_seen_def split: option.split)

text \<open>The user leaves all its channels: after each step it is a member of those still to be visited.\<close>

lemma wf_fold_part:
  assumes "wf_upto X s" "\<And>c. (u, c) \<in> X" "distinct cs" "\<And>c. memb s c u \<longleftrightarrow> c \<in> set cs"
  shows "wf_upto X (fold (\<lambda>c. part_channel c u) cs s)"
    and "\<not> memb (fold (\<lambda>c. part_channel c u) cs s) d u"
    and "dom (s_users (fold (\<lambda>c. part_channel c u) cs s)) = dom (s_users s)"
  using assms(1,3,4)
proof (induction cs arbitrary: s)
  case (Cons c cs)
  { case 1
    then have "c \<in> dom (s_chans s)" by (auto simp: memb_def)
    note P = wf_part_channel(1,2,5) [OF 1(1) assms(2) this refl]
    with 1 show ?case by (auto intro!: Cons.IH(1)) }
  { case 2
    then have "c \<in> dom (s_chans s)" by (auto simp: memb_def)
    note P = wf_part_channel(1,2,5) [OF 2(1) assms(2) this refl]
    with 2 show ?case by (simp del: domIff) (rule Cons.IH(2), auto) }
  { case 3
    then have "c \<in> dom (s_chans s)" by (auto simp: memb_def)
    note P = wf_part_channel(1,2,5) [OF 3(1) assms(2) this refl]
    have "dom (s_users (fold (\<lambda>c. part_channel c u) cs (part_channel c u s))) = dom (s_users (part_channel c u s))"
      by (rule Cons.IH(3)) (use 3 P in \<open>auto simp del: domIff\<close>)
    then show ?case by (simp add: P(3) del: domIff) }
qed simp_all

text \<open>The last steps: the user is taken off the invite lists and its store entry goes.\<close>

lemma wf_delete_user:
  assumes w: "wf_upto ({u} \<times> UNIV) s" and U: "s_users s u = Some U"
    and m: "\<And>c. \<not> memb s c u" and st: "\<And>k. u \<notin> set (hash_stack (s_Users s) k)"
    and t: "s_users t = (s_users s)(u := None)" "s_chans t = s_chans (fold (drop_invite u) (u_invited U) s)"
      "s_conns t = s_conns s" "s_Users t = s_Users s" "s_Channels t = s_Channels s" "s_next t = s_next s"
  shows "wf_upto ({u} \<times> UNIV) t"
proof -
  let ?X = "{u} \<times> (UNIV :: chid set)"
  note L = links_okD [OF wf_uptoD(1) [OF w]] and T = chan_table_okD [OF wf_uptoD(2) [OF w]]
    and UT = user_table_okD [OF wf_uptoD(3) [OF w]] and CO = conn_okD [OF wf_uptoD(4) [OF w]]
  have ch: "s_chans t d = map_option (\<lambda>C. C\<lparr>ch_invited := list_delete (ch_invited C) u\<rparr>) (s_chans s d)" for d
  proof (cases "s_chans s d")
    case (Some C)
    have "u \<in> set (ch_invited C) \<longleftrightarrow> d \<in> set (u_invited U)"
      using L(8) [of u d] Some U by (simp add: invd_def inviting_def)
    then show ?thesis using Some L(2) [OF U] by (auto simp: t chans_fold_drop_invite)
  qed (use L(2) [OF U] in \<open>simp add: t chans_fold_drop_invite\<close>)
  have old: "\<exists>C'. s_chans s d = Some C' \<and> ch_name C = ch_name C' \<and> ch_users C = ch_users C' \<and>
      distinct (ch_invited C)" if "s_chans t d = Some C" for d C
    using that L(4) [of d] by (auto simp: ch)
  have i: "inch t v d \<longleftrightarrow> inch s v d \<and> v \<noteq> u" "invd t v d \<longleftrightarrow> invd s v d \<and> v \<noteq> u" for v d
    by (auto simp: inch_def invd_def t)
  have mm: "memb t d v \<longleftrightarrow> memb s d v" for v d by (auto simp: memb_def ch)
  have g: "inviting t d v \<longleftrightarrow> inviting s d v \<and> v \<noteq> u" for v d
    using L(4) [of d] by (cases "s_chans s d") (auto simp: inviting_def ch)
  have ne: "v \<noteq> u" "v \<in> dom (s_users s)" if "memb s d v" for d v using that m L(5) by auto
  have "links_ok ?X t"
  proof (rule links_okI)
    show "v \<in> dom (s_users t)" if "memb t d v \<or> inviting t d v" for d v
      using that ne L(6) [of d v] unfolding mm g t by (simp del: domIff fun_upd_apply) blast
    show "inch t v d = memb t d v" if "(v, d) \<notin> ?X" for v d
      using L(7) [of v d] m by (cases "v = u") (auto simp: i mm)
    show "invd t v d = inviting t d v" for v d using L(8) by (simp add: i g)
    show "distinct (map cu_user (ch_users C)) \<and> distinct (ch_invited C)" if "s_chans t c = Some C" for c C
      using old [OF that] L(3) by auto
  qed (use L(1,2) in \<open>auto simp: t split: if_splits\<close>)
  moreover have "chan_table_ok t"
  proof (rule chan_table_okI)
    show "hash_stack (s_Channels t) (ch_name C) = [d]" "d < s_next t" if "s_chans t d = Some C" for d C
      using old [OF that] T(2,4) t by auto
    show "\<exists>C. s_chans t d = Some C \<and> strcaseeq k (ch_name C)"
      if "d \<in> set (hash_stack (s_Channels t) k)" for k d
      using T(3) [of d k] that t(5) by (auto simp: ch)
  qed (use T(1) t in simp)
  moreover have "user_table_ok ?X t"
  proof (rule user_table_okI)
    show "hash_stack (s_Users t) (u_nick V) = [v]" if "(v, e) \<notin> ?X" "s_users t v = Some V" for v V e
      using that UT(2) [of v 0 V] by (auto simp: t split: if_splits)
    show "\<exists>V. s_users t v = Some V \<and> strcaseeq k (u_nick V)"
      if "v \<in> set (hash_stack (s_Users t) k)" for k v
      using that UT(3) [of v k] st [of k] by (cases "v = u") (auto simp: t)
  qed (use UT(1) t in simp)
  moreover have "conn_ok ?X t"
  proof (rule conn_okI)
    show "\<exists>V. s_users t (c_user K) = Some V \<and> u_con V = d \<and> u_local V"
      if "s_conns t d = Some K" "c_class K = CLASS_USER" "(c_user K, e) \<notin> ?X" for d K e
      using that CO(1) [of d K e] by (auto simp: t)
  qed (use CO(2,3) in \<open>auto simp: t ISUSER_def split: if_splits\<close>)
  ultimately show ?thesis by (intro wf_uptoI)
qed

text \<open>Once the user is gone and no connection refers to it, nothing is excused any more.\<close>

lemma wf_user_gone:
  assumes w: "wf_upto ({u} \<times> UNIV) s" and u: "s_users s u = None"
    and con: "\<And>c K. s_conns s c = Some K \<Longrightarrow> c_class K = CLASS_USER \<Longrightarrow> c_user K \<noteq> u"
  shows "wf s"
proof -
  note L = links_okD [OF wf_uptoD(1) [OF w]] and UT = user_table_okD [OF wf_uptoD(3) [OF w]]
    and CO = conn_okD [OF wf_uptoD(4) [OF w]]
  have "links_ok {} s"
  proof (rule links_okI)
    show "inch s v d = memb s d v" for v d
      using L(7) [of v d] L(5) [of d v] u by (cases "v = u") (auto simp: inch_def)
    show "v \<in> dom (s_users s)" if "memb s d v \<or> inviting s d v" for d v using that L(5,6) by blast
  qed (use L in auto)
  moreover have "user_table_ok {} s"
  proof (rule user_table_okI)
    show "hash_stack (s_Users s) (u_nick V) = [v]" if "s_users s v = Some V" for v V
      using UT(2) [of v 0 V] that u by (cases "v = u") auto
  qed (use UT in auto)
  moreover have "conn_ok {} s"
  proof (rule conn_okI)
    show "\<exists>V. s_users s (c_user K) = Some V \<and> u_con V = d \<and> u_local V"
      if "s_conns s d = Some K" "c_class K = CLASS_USER" for d K
      using CO(1) [of d K 0] that con by auto
    show "u_con V \<in> dom (s_conns s) \<and> (ISUSER (u_con V) s \<longrightarrow> c_user (cnx s (u_con V)) = v)"
      if "s_users s v = Some V" for v V using CO(2,3) that by blast
  qed
  ultimately show ?thesis using wf_uptoD(2) [OF w] by (intro wf_uptoI)
qed

lemma wf_upto_users_remove:
  assumes w: "wf s" and u: "hash_lookup (s_Users s) nick = Some u"
  shows "wf_upto ({u} \<times> UNIV) (users_remove nick s)"
proof -
  define h where h: "h = fst (hash_remove (s_Users s) nick)"
  have "snd (hash_remove (s_Users s) nick) = Some u" using u by (simp add: hash_remove_result)
  then have run: "users_remove nick s = free_user u (s\<lparr>s_Users := h\<rparr>)"
    by (cases "hash_remove (s_Users s) nick") (simp add: users_remove_def h)
  let ?X = "{u} \<times> UNIV" and ?s = "s\<lparr>s_Users := h\<rparr>"
  note UT = user_table_okD [OF wf_uptoD(3) [OF w]]
  obtain U where U: "s_users s u = Some U" "strcaseeq nick (u_nick U)" by (rule wf_lookup_user [OF w u])
  have st: "hash_stack h k = (if strcaseeq nick k then [] else hash_stack (s_Users s) k)" for k
    using UT(1) UT(2) [OF _ U(1)] hash_stack_cong [of nick k "s_Users s"]
      hash_stack_cong [OF U(2), of "s_Users s"]
    by (auto simp: h hash_stack_remove) (metis list.sel(3))
  have gone: "u \<notin> set (hash_stack h k)" for k
  proof
    assume a: "u \<in> set (hash_stack h k)"
    then have k: "\<not> strcaseeq nick k" "u \<in> set (hash_stack (s_Users s) k)"
      by (auto simp: st split: if_splits)
    from UT(3) [OF k(2)] U(1) have "strcaseeq k (u_nick U)" by auto
    with k(1) U(2) show False by (simp add: strcaseeq_def)
  qed
  have other: "\<not> strcaseeq nick (u_nick V)" if V: "s_users s v = Some V" "v \<noteq> u" for v V
  proof
    assume "strcaseeq nick (u_nick V)"
    then have "hash_stack (s_Users s) (u_nick V) = hash_stack (s_Users s) (u_nick U)"
      using hash_stack_cong [of nick] U(2) by metis
    with UT(2) [OF _ U(1)] UT(2) [OF _ V(1)] V(2) show False by simp
  qed
  have w1: "wf_upto ?X ?s"
  proof (rule wf_uptoI)
    have "wf_upto ?X s" by (rule wf_upto_mono [OF w]) simp
    then show "links_ok ?X ?s" "chan_table_ok ?s" "conn_ok ?X ?s" by (simp_all add: wf_defs)
    show "user_table_ok ?X ?s"
      using UT other st by (intro user_table_okI) (auto simp: h hash_invar_remove split: if_splits)
  qed
  define s2 where "s2 = announce_quit u ?s"
  have S2: "wf_upto ?X s2" "s_conns s2 = s_conns s" "s_Users s2 = h" "s_users s2 = s_users s" "memb s2 = memb s"
    using w1 by (simp_all add: s2_def announce_quit_def memb_def fun_eq_iff)
  define s3 where s3: "s3 = leave_all u s2"
  have m2: "memb s2 c u \<longleftrightarrow> c \<in> set (u_channels (usr s2 u))" for c
    using links_okD(7) [OF wf_uptoD(1) [OF w], of u c] U S2 by (simp add: inch_def)
  have d2: "distinct (u_channels (usr s2 u))"
    using links_okD(1) [OF wf_uptoD(1) [OF w] U(1)] U S2 by simp
  note F = wf_fold_part [OF S2(1) _ d2 m2, folded leave_all_def s3, simplified]
  obtain U3 where U3: "s_users s3 u = Some U3" using F(3) U S2 by auto
  have run3: "users_remove nick s = delete_user u (stamp_last_seen u (announce_signoff u (drop_shares u
      (drop_invites u s3))))"
    by (simp add: run free_user_def s3 s2_def)
  show ?thesis
    unfolding run3
  proof (rule wf_delete_user [OF F(1) U3 F(2)])
    show "u \<notin> set (hash_stack (s_Users s3) k)" for k
      using gone by (simp add: s3 leave_all_def fold_part_frame S2)
  qed (use U3 in \<open>simp_all add: delete_user_def drop_invites_def\<close>)
qed

text \<open>Nobody else disappears with the user, and no connection changes.\<close>

lemma free_user_conns: "s_conns (free_user u s) = s_conns s"
  by (simp add: free_user_def delete_user_def drop_invites_def leave_all_def fold_part_frame announce_quit_def)

lemma users_remove_conns [simp]: "s_conns (users_remove n s) = s_conns s"
  by (simp add: users_remove_def free_user_conns split: prod.split option.split)

section \<open>Who may be removed\<close>

text \<open>Leaving changes no field of a \<open>USER\<close> but its two channel lists.\<close>

definition user_core :: "user \<Rightarrow> user" where
  "user_core U = U\<lparr>u_channels := [], u_invited := []\<rparr>"

definition same_users :: "srv \<Rightarrow> srv \<Rightarrow> bool" where
  "same_users s t \<longleftrightarrow> (\<forall>v. map_option user_core (s_users t v) = map_option user_core (s_users s v))"

lemma user_core_sel [simp]:
  "u_level (user_core U) = u_level U" "u_nick (user_core U) = u_nick U"
  "u_con (user_core U) = u_con U" "u_local (user_core U) = u_local U"
  by (simp_all add: user_core_def)

lemma same_usersD:
  assumes "same_users s t"
  shows "u_level (usr t v) = u_level (usr s v)" "u_nick (usr t v) = u_nick (usr s v)"
    "user_con t v = user_con s v" "u_local (usr t v) = u_local (usr s v)"
proof -
  have e: "map_option user_core (s_users t v) = map_option user_core (s_users s v)"
    using assms by (simp add: same_users_def)
  have "usr t v = usr s v \<or> user_core (usr t v) = user_core (usr s v)"
    using e by (cases "s_users s v"; cases "s_users t v") auto
  then show "u_level (usr t v) = u_level (usr s v)" "u_nick (usr t v) = u_nick (usr s v)"
    "user_con t v = user_con s v" "u_local (usr t v) = u_local (usr s v)"
    by (metis user_core_sel)+
qed

lemma same_users_trans: "same_users s t \<Longrightarrow> same_users t r \<Longrightarrow> same_users s r"
  by (simp add: same_users_def)

lemma same_users_eq: "s_users t = s_users s \<Longrightarrow> same_users s t"
  by (simp add: same_users_def)

lemma same_users_lists:
  "same_users s (forget_channel u c s)" "same_users s (uninvite c u s)"
  by (simp_all add: same_users_def forget_channel_def uninvite_def user_core_def [abs_def] option.map_comp
      comp_def)

lemma same_users_uninvite: "same_users s (fold (uninvite c) us s)"
proof (induction us arbitrary: s)
  case (Cons u us)
  show ?case using same_users_trans [OF same_users_lists(2) Cons.IH] by simp
qed (simp add: same_users_def)

lemma same_users_part: "same_users s (part_channel c u s)"
proof -
  have f: "same_users s (free_channel c t)" if "s_users t = s_users s" for t c
    using same_users_uninvite [of t c "ch_invited (chn t c)"] that
    by (simp add: free_channel_def Let_def same_users_def)
  show ?thesis
    by (auto simp: part_channel_def Let_def channels_remove_def split: prod.split option.split
        intro: same_users_eq f)
qed

lemma same_users_leave_all: "same_users s (leave_all u s)"
proof -
  have "same_users s (fold (\<lambda>c. part_channel c u) cs s)" for cs s
  proof (induction cs arbitrary: s)
    case (Cons c cs)
    show ?case using same_users_trans [OF same_users_part Cons.IH] by simp
  qed (simp add: same_users_def)
  then show ?thesis by (simp add: leave_all_def)
qed

lemma free_user_users: "s_users (free_user u s) v = None \<longleftrightarrow> v = u \<or> s_users s v = None"
proof -
  have "s_users (announce_quit u s) = s_users s" by (simp add: announce_quit_def)
  then have "s_users (leave_all u (announce_quit u s)) v = None \<longleftrightarrow> s_users s v = None"
    using same_users_leave_all [of "announce_quit u s" u] by (metis option.map_disc_iff same_users_def)
  then show ?thesis by (simp add: free_user_def delete_user_def drop_invites_def)
qed

lemma users_remove_users:
  "hash_lookup (s_Users s) n = Some u \<Longrightarrow> s_users (users_remove n s) v = None \<longleftrightarrow> v = u \<or> s_users s v = None"
proof -
  assume "hash_lookup (s_Users s) n = Some u"
  then have "snd (hash_remove (s_Users s) n) = Some u" by (simp add: hash_remove_result)
  then show ?thesis
    by (cases "hash_remove (s_Users s) n") (simp add: users_remove_def free_user_users)
qed

lemma wf_users_remove:
  assumes w: "wf s" and u: "hash_lookup (s_Users s) nick = Some u"
    and con: "\<And>c K. s_conns s c = Some K \<Longrightarrow> c_class K = CLASS_USER \<Longrightarrow> c_user K \<noteq> u"
  shows "wf (users_remove nick s)"
  using users_remove_users [OF u, of u] con
  by (intro wf_user_gone [OF wf_upto_users_remove [OF w u]]) auto

lemma wf_client_quit: "wf s \<Longrightarrow> wf (client_quit con tag pkt s)"
proof -
  assume w: "wf s"
  have "wf (users_remove (u_nick (usr s u)) (pass_message_args (Some con) tag m s))"
    if u: "hash_lookup (s_Users s) pkt = Some u" "\<not> u_local (usr s u)" for u m
  proof (rule wf_users_remove)
    obtain U where U: "s_users s u = Some U" "strcaseeq pkt (u_nick U)" by (rule wf_lookup_user [OF w u(1)])
    then show "hash_lookup (s_Users (pass_message_args (Some con) tag m s)) (u_nick (usr s u)) = Some u"
      using user_table_okD(2) [OF wf_uptoD(3) [OF w] _ U(1)] by (simp add: hash_lookup_stack)
    show "c_user K \<noteq> u" if "s_conns (pass_message_args (Some con) tag m s) c = Some K"
      "c_class K = CLASS_USER" for c K
      using conn_okD(1) [OF wf_uptoD(4) [OF w], of c K 0] that u(2) U by auto
  qed (use w in simp)
  then show ?thesis using w by (auto simp: client_quit_def Let_def split: option.split)
qed

lemma find_channel_remove:
  "v \<noteq> u \<Longrightarrow> find_chanuser (channel_remove us u) v = find_chanuser us v"
  by (induction us) (auto simp: find_chanuser_def)

lemma part_channel_chan:
  assumes "wf_upto X s" "s_chans s c = Some C" "s_chans (part_channel c u s) c = Some C'"
  shows "C' = C\<lparr>ch_users := channel_remove (ch_users C) u\<rparr>"
proof -
  define s1 where s1: "s1 = upd_chan c (\<lambda>C. C\<lparr>ch_users := channel_remove (ch_users C) u\<rparr>) s"
  have T: "hash_stack (s_Channels s) (ch_name C) = [c]"
    using chan_table_okD(2) [OF wf_uptoD(2) [OF assms(1)] assms(2)] .
  have "snd (hash_remove (s_Channels s1) (ch_name C)) = Some c"
    using T by (simp add: hash_remove_result hash_lookup_stack s1)
  then have "s_chans (channels_remove (ch_name C) s1) c = None"
    by (cases "hash_remove (s_Channels s1) (ch_name C)") (simp add: channels_remove_def free_channel_def Let_def)
  then show ?thesis
    using assms(2,3) by (auto simp: part_channel_def s1 [symmetric] Let_def split: if_splits) (auto simp: s1)
qed

text \<open>Another member's right to kick survives a member's departure.\<close>

lemma can_kick_cong:
  "u_level (usr t a) = u_level (usr s a) \<Longrightarrow> u_level (usr t v) = u_level (usr s v) \<Longrightarrow>
   find_chanuser (ch_users (chn t c)) a = find_chanuser (ch_users (chn s c)) a \<Longrightarrow>
   can_kick c a v t = can_kick c a v s"
  by (simp add: can_kick_def is_chanop_def)

lemma can_kick_clear_one:
  assumes "wf s" "memb s c u" "memb (clear_one c a tx u s) c w"
  shows "can_kick c a v (clear_one c a tx u s) = can_kick c a v s"
proof (cases "u \<noteq> a \<and> can_kick c a u s")
  case True
  let ?s1 = "forget_channel u c s"
  obtain s2 where s2: "clear_one c a tx u s = part_channel c u s2" "same_core s2 ?s1"
    using True by (auto simp: clear_one_def Let_def)
  then have eqs: "s_users s2 = s_users ?s1" "s_chans s2 = s_chans s"
    by (auto simp: same_core_def)
  have "wf_upto {(u, c)} s2"
    using wf_forget_channel(1) [of "{(u, c)}" s u c] wf_upto_mono [OF assms(1), of "{(u, c)}"]
      same_core_wf [OF s2(2)] by simp
  note P = part_channel_chan [OF this, of c _ u]
  obtain C C' where C: "s_chans s c = Some C" "s_chans (part_channel c u s2) c = Some C'"
    using assms(2,3) s2 by (auto simp: memb_def)
  have "same_users s (part_channel c u s2)"
    using same_users_trans [OF same_users_trans [OF same_users_lists(1) same_users_eq] same_users_part] eqs(1) .
  then show ?thesis
    unfolding s2(1) using P [of C C'] C True eqs
    by (intro can_kick_cong same_usersD(1)) (simp_all add: find_channel_remove)
qed (auto simp: clear_one_def)

lemma memb_clear_loop:
  assumes "wf s" "distinct us" "\<forall>u \<in> set us. memb s c u"
  shows "memb (fold (clear_one c a tx) us s) d v \<longleftrightarrow>
    memb s d v \<and> \<not> (d = c \<and> v \<in> set us \<and> v \<noteq> a \<and> can_kick c a v s)"
  using assms
proof (induction us arbitrary: s)
  case (Cons u us)
  let ?t = "clear_one c a tx u s"
  have m: "memb s c u" using Cons.prems(3) by simp
  have c: "c \<in> dom (s_chans s)" using m by (auto simp: memb_def)
  note W = wf_clear_one [OF Cons.prems(1) m, where sender = a and tx = tx]
  have all: "\<forall>w \<in> set us. memb ?t c w" using W(2) Cons.prems(2,3) by (metis distinct.simps(2) list.set_intros(2))
  have step: "memb ?t d v \<longleftrightarrow> memb s d v \<and> \<not> (d = c \<and> v = u \<and> v \<noteq> a \<and> can_kick c a v s)"
    using wf_unlink(5) [OF Cons.prems(1) c _ refl, where u = u]
    by (auto simp: clear_one_def Let_def)
  have "can_kick c a v ?t = can_kick c a v s" if "v \<in> set us"
    using can_kick_clear_one [OF Cons.prems(1) m] all that by blast
  then show ?case using Cons.IH [OF W(1) _ all] Cons.prems(2) by (auto simp: step)
qed simp

text \<open>C7: \<open>clear_channel\<close> empties the channel of exactly the members the sender may kick, itself excepted;
  every other member, and every other channel, is untouched.\<close>

theorem clear_channel_members:
  assumes "wf s" "pop_user con pkt s = Some (pkt', sender)" "next_arg pkt' = (Some name, rest)"
    and "hash_lookup (s_Channels s) name = Some c" "ch_level (chn s c) \<le> u_level (usr s sender)"
  shows "memb (clear_channel con tag pkt s) d v \<longleftrightarrow>
    memb s d v \<and> \<not> (d = c \<and> v \<noteq> sender \<and> can_kick c sender v s)"
proof -
  note M = wf_members [OF assms(1) wf_lookup_chan_dom [OF assms(1,4)]]
  let ?us = "map cu_user (ch_users (chn s c))"
  have same: "same_core s0 s \<Longrightarrow> memb (fold (clear_one c sender tx) ?us s0) d v \<longleftrightarrow>
    memb s d v \<and> \<not> (d = c \<and> v \<in> set ?us \<and> v \<noteq> sender \<and> can_kick c sender v s)" for s0 tx
    using M memb_clear_loop [of s0 ?us c sender tx d v] same_core_wf [of s0 s] assms(1)
      same_core_rel [of s0 s] can_kick_cong [of s0 sender s v c]
    by (simp add: same_core_def)
  have "v \<in> set ?us" if "memb s c v" using that by (auto simp: memb_def)
  with assms(2-5) show ?thesis
    unfolding clear_channel_def Let_def by (auto simp: same)
qed

lemma clear_channel_members_witness:
  "\<not> memb (clear_channel 0 820 ''#den'' sample) 0 1 \<and> memb (clear_channel 0 820 ''#den'' sample) 0 0"
proof -
  have r: "can_kick 0 0 (Suc 0) sample" by (simp add: can_kick_def sample_parts level_order)
  have t: "next_arg (Some ''#den'') = (Some ''#den'', None)" by (simp add: text_eval)
  show ?thesis
    using clear_channel_members [OF wf_sample sample_pop_user(1) t sample_lookup(1), where v = 1 and d = 0]
      clear_channel_members [OF wf_sample sample_pop_user(1) t sample_lookup(1), where v = 0 and d = 0] r
    by (simp add: sample_memb sample_parts level_order)
qed

text \<open>C6: \<open>kick\<close> takes a user off a channel only when the sender is on that channel, reaches its level
  and outranks the user (or is an operator of the channel and of the same level, or is Elite).\<close>

theorem kick_needs_rank:
  assumes "wf s" "memb s c v" "\<not> memb (kick con tag pkt s) c v"
  shows "\<exists>pkt' sender. pop_user con pkt s = Some (pkt', sender) \<and> c \<in> set (u_channels (usr s sender)) \<and>
    ch_level (chn s c) \<le> u_level (usr s sender) \<and> can_kick c sender v s"
proof (cases rule: kick_cases [of s con tag pkt])
  case 1
  then show ?thesis using assms(2,3) same_core_rel by metis
next
  case (2 pkt' sender k d u s1)
  have "d \<in> dom (s_chans s)" using wf_lookup_chan_dom [OF assms(1) 2(2)] .
  from wf_unlink(5) [OF assms(1) this 2(6,7)] have "d = c" "u = v" using assms(2,3) by auto
  then show ?thesis using 2 by auto
qed

lemma kick_needs_rank_witness:
  "\<exists>pkt' sender. pop_user 0 ''#den bob'' sample = Some (pkt', sender) \<and>
    0 \<in> set (u_channels (usr sample sender)) \<and>
    ch_level (chn sample 0) \<le> u_level (usr sample sender) \<and> can_kick 0 sender 1 sample"
proof -
  have a: "get_args 3 (Some ''#den bob'') = [''#den'', ''bob'']" by (simp add: text_eval numeral_eq_Suc)
  have r: "can_kick 0 0 (Suc 0) sample" by (simp add: can_kick_def sample_parts level_order)
  have k: "kick 0 824 ''#den bob'' sample = kick_out 0 824 0 1 0 None sample"
    using r by (simp add: kick_def a Let_def sample_parts level_order)
  obtain s1 where s1: "same_core s1 (forget_channel 1 0 sample)"
    "kick_out 0 824 0 1 0 None sample = part_channel 0 1 s1" using kick_out_alt by blast
  have "\<not> memb (kick 0 824 ''#den bob'' sample) 0 1"
    using wf_unlink(2) [OF wf_sample _ s1(1) s1(2)] by (simp add: k)
  then show ?thesis by (intro kick_needs_rank [of sample 0 1 0 824 "''#den bob''"] wf_sample) (simp add: sample_memb)
qed

end
