(* ===== verification/Bans.thy ===== *)
theory Bans
  imports Leave Glob
begin

text \<open>
  The server's ban list: \<open>src/ban.c\<close>, and \<open>kill_user\<close> of \<open>src/kill_user.c\<close>.  \<open>s_Bans\<close> is the list in
  the order of the code (newest first); a ban is active until \<open>when + timeout\<close>, or for ever with
  timeout 0.  The ban file is the list of the lines \<open>fgets\<close> returns.
\<close>

section \<open>Ban masks\<close>

definition normalize_ban :: "srv \<Rightarrow> string \<Rightarrow> string" where
  "normalize_ban s src =
     (if CHR ''!'' \<in> set src then src
      else if invalid_nick s src then
        snprintf_to 256 (''*!'' @ src @ (if src \<noteq> [] \<and> last src = CHR ''.'' then ''*'' else []))
      else snprintf_to 256 (src @ ''!*''))"

definition ban_active :: "srv \<Rightarrow> ban \<Rightarrow> bool" where
  "ban_active s b \<longleftrightarrow> b_timeout b = 0 \<or> s_time s < b_when b + b_timeout b"

definition host_mask :: "string \<Rightarrow> string \<Rightarrow> string" where
  "host_mask nick host = snprintf_to 256 (nick @ ''!'' @ host)"

definition nonull :: "string option \<Rightarrow> string" where
  "nonull r = (case r of None \<Rightarrow> [] | Some t \<Rightarrow> t)"

text \<open>\<open>printf ("%s", NULL)\<close> prints \<open>(null)\<close>.\<close>

definition or_null :: "string option \<Rightarrow> string" where
  "or_null r = (case r of None \<Rightarrow> ''(null)'' | Some t \<Rightarrow> t)"

section \<open>Setting and removing bans\<close>

text \<open>\<open>sender\<close> is \<open>None\<close> for a server.\<close>

definition mod_sender :: "uid option \<Rightarrow> srv \<Rightarrow> bool" where
  "mod_sender sender s \<longleftrightarrow> (case sender of None \<Rightarrow> True | Some u \<Rightarrow> LEVEL_MODERATOR \<le> u_level (usr s u))"

definition find_ban :: "string \<Rightarrow> ban list \<Rightarrow> ban option" where
  "find_ban target bans = find (\<lambda>b. strcaseeq target (b_target b)) bans"

definition add_ban ::
    "cid \<Rightarrow> nat \<Rightarrow> string \<Rightarrow> string \<Rightarrow> string \<Rightarrow> string option \<Rightarrow> string \<Rightarrow> int \<Rightarrow> srv \<Rightarrow> srv" where
  "add_ban con tag sendernick arg target reason stimeout timeout s =
     (let s = pass_message_args (Some con) tag
                ('':'' @ sendernick @ '' '' @ arg @ '' '' @ [dquote] @ nonull reason @ [dquote] @ '' '' @
                 int_dec timeout) s;
          b = \<lparr>b_target = target, b_setby = sendernick, b_reason = Some (nonull reason),
               b_when = s_time s, b_timeout = timeout\<rparr>;
          s = s\<lparr>s_Bans := b # s_Bans s\<rparr>
      in notify_mods BANLOG_MODE
           (sendernick @ '' banned '' @ target @
            (if 0 < timeout then '' for '' @ stimeout @ '' seconds'' else []) @ '': '' @ nonull reason) s)"

definition ban :: "cid \<Rightarrow> nat \<Rightarrow> string \<Rightarrow> srv \<Rightarrow> srv" where
  "ban con tag pkt s =
     (case pop_user_server con pkt s of
        None \<Rightarrow> s
      | Some (pkt, sendernick, sender) \<Rightarrow>
          if \<not> mod_sender sender s then permission_denied con s
          else
            let av = get_args 3 pkt;
                timeout = (if 2 < length av then atoi (av ! 2) else 0)
            in if length av < 1 then unparsable con s
               else if timeout < 0 then tell_user con ''invalid ban timeout'' s
               else if find_ban (normalize_ban s (av ! 0)) (s_Bans s) \<noteq> None then
                 tell_user con ''already banned'' s
               else add_ban con tag sendernick (av ! 0) (normalize_ban s (av ! 0))
                      (if 1 < length av then Some (truncate_reason s (av ! 1)) else None)
                      (if 2 < length av then av ! 2 else []) timeout s)"

text \<open>The loop of \<open>unban\<close> unlinks the first ban on the target.\<close>

fun remove_ban :: "string \<Rightarrow> ban list \<Rightarrow> ban list" where
  "remove_ban target [] = []"
| "remove_ban target (b # bs) = (if strcaseeq target (b_target b) then bs else b # remove_ban target bs)"

definition unban :: "cid \<Rightarrow> nat \<Rightarrow> string \<Rightarrow> srv \<Rightarrow> srv" where
  "unban con tag pkt s =
     (case pop_user con pkt s of
        None \<Rightarrow> s
      | Some (pkt, user) \<Rightarrow>
          let av = get_args 2 pkt in
          if length av < 1 then unparsable con s
          else if u_level (usr s user) < LEVEL_MODERATOR then permission_denied con s
          else case find_ban (normalize_ban s (av ! 0)) (s_Bans s) of
            None \<Rightarrow> tell_user con ''no such ban'' s
          | Some b \<Rightarrow>
              let reason = (if 1 < length av then truncate_reason s (av ! 1) else []);
                  s = s\<lparr>s_Bans := remove_ban (normalize_ban s (av ! 0)) (s_Bans s)\<rparr>;
                  s = notify_mods BANLOG_MODE (u_nick (usr s user) @ '' removed ban on '' @ b_target b @
                        '': '' @ reason) s
              in pass_message_args (Some con) tag ('':'' @ u_nick (usr s user) @ '' '' @ b_target b @ '' '' @
                   [dquote] @ reason @ [dquote]) s)"

definition banlist :: "cid \<Rightarrow> nat \<Rightarrow> string \<Rightarrow> srv \<Rightarrow> srv" where
  "banlist con tag pkt s =
     (if \<not> ISUSER con s then s
      else emit (map (\<lambda>b. (con, MSG_SERVER_IP_BANLIST,
                   form_message (b_target b @ '' '' @ b_setby b @ '' '' @ [dquote] @ or_null (b_reason b) @
                     [dquote] @ '' '' @ int_dec (b_when b) @ '' '' @ int_dec (b_timeout b)))) (s_Bans s) @
                 [(con, MSG_CLIENT_BANLIST, [])]) s)"

section \<open>Enforcing bans\<close>

definition reject_banned :: "cid \<Rightarrow> string \<Rightarrow> string \<Rightarrow> ban \<Rightarrow> srv \<Rightarrow> srv" where
  "reject_banned con nick hm b s =
     (let why = b_target b @ '' banned: '' @ nonull (b_reason b);
          s = notify_mods BANLOG_MODE (''Connection from '' @ hm @ '': '' @ why) s
      in if ISUNKNOWN con s then
           pass_message_args None MSG_SERVER_NOTIFY_MODS
             ('':'' @ Server_Name (s_cfg s) @ '' 2 '' @ [dquote] @ ''Connection from '' @ hm @ '': '' @ why @
              [dquote])
             (upd_conn con (\<lambda>c. c\<lparr>c_destroy := True\<rparr>) (send_cmd con MSG_SERVER_ERROR why s))
         else if ISSERVER con s then
           notify_mods KILLLOG_MODE (Server_Name (s_cfg s) @ '' killed '' @ nick @ '': '' @ why)
             (pass_message_args (Some con) MSG_CLIENT_KILL
               ('':'' @ Server_Name (s_cfg s) @ '' '' @ nick @ '' '' @ why) s)
         else s)"

definition check_ban :: "cid \<Rightarrow> string \<Rightarrow> string \<Rightarrow> srv \<Rightarrow> bool \<times> srv" where
  "check_ban con nick host s =
     (let hm = host_mask nick host in
      case find (\<lambda>b. ban_active s b \<and> glob_match (b_target b) hm) (s_Bans s) of
        None \<Rightarrow> (False, s)
      | Some b \<Rightarrow> (True, reject_banned con nick hm b s))"

definition ban_expired :: "srv \<Rightarrow> ban \<Rightarrow> bool" where
  "ban_expired s b \<longleftrightarrow> 0 < b_timeout b \<and> b_when b + b_timeout b < s_time s"

text \<open>The loop of \<open>expire_bans\<close>: \<open>kept\<close> is the part of the list already passed, in reverse.\<close>

fun expire_loop :: "ban list \<Rightarrow> ban list \<Rightarrow> srv \<Rightarrow> srv" where
  "expire_loop kept [] s = s\<lparr>s_Bans := rev kept\<rparr>"
| "expire_loop kept (b # bs) s =
     (if ban_expired s b then
        let secs = ''expired after '' @ int_dec (b_timeout b) @ '' seconds'';
            s = s\<lparr>s_Bans := rev kept @ bs\<rparr>;
            s = pass_message_args None MSG_CLIENT_UNBAN
                  ('':'' @ Server_Name (s_cfg s) @ '' '' @ b_target b @ '' '' @ [dquote] @ secs @ [dquote]) s;
            s = notify_mods BANLOG_MODE (Server_Name (s_cfg s) @ '' removed ban on '' @ b_target b @ '': '' @
                  secs) s
        in expire_loop kept bs s
      else expire_loop (b # kept) bs s)"

definition expire_bans :: "srv \<Rightarrow> srv" where
  "expire_bans s = expire_loop [] (s_Bans s) s"

section \<open>The ban file\<close>

definition ban_line :: "ban \<Rightarrow> string" where
  "ban_line b =
     b_target b @ '' '' @ b_setby b @ '' '' @ int_dec (wrap32 (b_when b)) @ '' '' @ [dquote] @
     or_null (b_reason b) @ [dquote] @ '' '' @ int_dec (b_timeout b) @ [CHR 0x0A]"

definition save_bans :: "srv \<Rightarrow> string list" where
  "save_bans s = map ban_line (s_Bans s)"

definition load_ban :: "srv \<Rightarrow> string \<Rightarrow> ban option" where
  "load_ban s line =
     (case get_args 5 (Some line) of
        [] \<Rightarrow> None
      | av \<Rightarrow>
          if 4 \<le> length av then
            Some \<lparr>b_target = normalize_ban s (av ! 0), b_setby = av ! 1,
                  b_reason = Some (truncate_reason s (av ! 3)), b_when = atol (av ! 2),
                  b_timeout = (if 4 < length av then atoi (av ! 4) else 0)\<rparr>
          else
            Some \<lparr>b_target = normalize_ban s (av ! 0), b_setby = Server_Name (s_cfg s),
                  b_reason = Some [], b_when = s_time s, b_timeout = 0\<rparr>)"

text \<open>\<open>last\<close> starts at \<open>&Bans\<close>, so the first line read replaces the list; it is empty at that time.\<close>

definition load_bans :: "string list \<Rightarrow> srv \<Rightarrow> srv" where
  "load_bans file s =
     (case List.map_filter (load_ban s) file of
        [] \<Rightarrow> s
      | bs \<Rightarrow> s\<lparr>s_Bans := bs\<rparr>)"

section \<open>Killing a user\<close>

definition kill_notice :: "cid \<Rightarrow> string \<Rightarrow> uid \<Rightarrow> string \<Rightarrow> srv \<Rightarrow> srv" where
  "kill_notice con killernick user reason s =
     notify_mods KILLLOG_MODE (killernick @ '' killed '' @ u_nick (usr s user) @ '': '' @ reason)
       (pass_message_args (Some con) MSG_CLIENT_KILL
         ('':'' @ killernick @ '' '' @ u_nick (usr s user) @ '' '' @ [dquote] @ reason @ [dquote]) s)"

definition kill_local :: "string \<Rightarrow> uid option \<Rightarrow> uid \<Rightarrow> string \<Rightarrow> srv \<Rightarrow> srv" where
  "kill_local killernick killer user reason s =
     (let hide = (case killer of None \<Rightarrow> False | Some k \<Rightarrow> u_cloaked (usr s k));
          c = user_con s user;
          s = upd_conn c (\<lambda>k. k\<lparr>c_destroy := True, c_killed := True\<rparr>) s;
          s = send_cmd c MSG_SERVER_NOSUCH (''You have been killed'' @ (if hide then [] else '' by '') @
                (if hide then [] else killernick) @ '': '' @ reason) s
      in send_cmd c MSG_SERVER_DISCONNECTING ''0'' s)"

text \<open>The sender of a kill: \<open>None\<close> ends the handler.\<close>

definition pop_killer :: "cid \<Rightarrow> string \<Rightarrow> srv \<Rightarrow> (string \<times> string \<times> uid option) option" where
  "pop_killer con pkt s =
     (if ISUSER con s then
        Some (pkt, u_nick (usr s (c_user (cnx s con))), Some (c_user (cnx s con)))
      else case pkt of
        [] \<Rightarrow> None
      | c # rest \<Rightarrow>
          if c \<noteq> CHR '':'' then None
          else case next_arg (Some rest) of
            (Some nick, Some p) \<Rightarrow>
              if is_server nick s then Some (p, nick, None)
              else map_option (\<lambda>k. (p, nick, Some k)) (hash_lookup (s_Users s) nick)
          | _ \<Rightarrow> None)"

definition may_kill :: "uid option \<Rightarrow> uid \<Rightarrow> srv \<Rightarrow> bool" where
  "may_kill killer user s \<longleftrightarrow>
     (case killer of None \<Rightarrow> True
      | Some k \<Rightarrow> u_level (usr s user) < u_level (usr s k) \<or> u_level (usr s k) = LEVEL_ELITE)"

definition kill_user :: "cid \<Rightarrow> nat \<Rightarrow> string \<Rightarrow> srv \<Rightarrow> srv" where
  "kill_user con tag pkt s =
     (case pop_killer con pkt s of
        None \<Rightarrow> s
      | Some (pkt, killernick, killer) \<Rightarrow>
          let av = get_args 2 (Some pkt) in
          if length av < 1 then unparsable con s
          else case hash_lookup (s_Users s) (av ! 0) of
            None \<Rightarrow> nosuchuser con s
          | Some user \<Rightarrow>
              if \<not> may_kill killer user s then permission_denied con s
              else
                let reason = (if 1 < length av then truncate_reason s (av ! 1) else []);
                    s = kill_notice con killernick user reason s
                in if ISUSER (user_con s user) s then kill_local killernick killer user reason s
                   else users_remove (u_nick (usr s user)) s)"

lemmas [handler_defs] = ban_def unban_def banlist_def kill_user_def

section \<open>The invariant is kept\<close>

lemma same_core_Bans [simp]:
  "same_core r (s\<lparr>s_Bans := b\<rparr>) = same_core r s" "same_core (s\<lparr>s_Bans := b\<rparr>) r = same_core s r"
  by (simp_all add: same_core_def)

lemma same_core_ban: "same_core (ban con tag pkt s) s"
  by (simp add: ban_def add_ban_def Let_def split: option.split prod.split)

lemma same_core_unban: "same_core (unban con tag pkt s) s"
  by (simp add: unban_def Let_def split: option.split prod.split)

lemma same_core_banlist: "same_core (banlist con tag pkt s) s"
  by (simp add: banlist_def)

lemma expire_loop_frame:
  "same_core (expire_loop kept bs s) s" "s_time (expire_loop kept bs s) = s_time s"
  "s_Bans (expire_loop kept bs s) = rev kept @ filter (\<lambda>b. \<not> ban_expired s b) bs"
  by (induction kept bs s rule: expire_loop.induct) (simp_all add: Let_def ban_expired_def)

lemma wf_check_ban: "wf s \<Longrightarrow> wf (snd (check_ban con nick host s))"
  by (auto simp: check_ban_def reject_banned_def Let_def intro!: wf_upd_conn split: option.split)

lemma kill_notice_frame [simp]:
  "s_users (kill_notice con kn u r s) = s_users s" "s_conns (kill_notice con kn u r s) = s_conns s"
  "s_Users (kill_notice con kn u r s) = s_Users s" "wf_upto X (kill_notice con kn u r s) = wf_upto X s"
  "ISUSER c (kill_notice con kn u r s) = ISUSER c s" "memb (kill_notice con kn u r s) = memb s"
  by (simp_all add: kill_notice_def)

lemma wf_remove_remote:
  assumes w: "wf s" and u: "s_users s u = Some U" "\<not> ISUSER (u_con U) s"
  shows "wf (users_remove (u_nick U) s)"
proof (rule wf_users_remove [OF w])
  show "hash_lookup (s_Users s) (u_nick U) = Some u"
    using user_table_okD(2) [OF wf_uptoD(3) [OF w] _ u(1)] by (simp add: hash_lookup_stack)
  show "c_user K \<noteq> u" if "s_conns s c = Some K" "c_class K = CLASS_USER" for c K
    using conn_okD(1) [OF wf_uptoD(4) [OF w], of c K 0] that u by (auto simp: ISUSER_def)
qed

lemma wf_kill_user: "wf s \<Longrightarrow> wf (kill_user con tag pkt s)"
proof -
  assume w: "wf s"
  have rm: "wf (users_remove (u_nick (usr s u)) (kill_notice con kn u reason s))"
    if u: "hash_lookup (s_Users s) key = Some u" "\<not> ISUSER (user_con s u) s" for u key kn reason
    using wf_lookup_user [OF w u(1)] wf_remove_remote [of "kill_notice con kn u reason s" u] w u(2)
    by (metis kill_notice_frame(1,4,5) option.sel)
  have loc: "wf (kill_local kn k u reason (kill_notice con kn' u' reason' s))" for kn k u reason kn' u' reason'
    using w by (simp add: kill_local_def Let_def wf_upd_conn)
  show ?thesis
    using w rm loc by (auto simp: kill_user_def Let_def split: option.split prod.split)
qed

section \<open>What a ban does\<close>

lemma find_filter_imp: "(\<And>x. P x \<Longrightarrow> Q x) \<Longrightarrow> find P (filter Q xs) = find P xs"
  by (induction xs) auto

lemma expired_not_active: "ban_expired s b \<Longrightarrow> \<not> ban_active s b"
  by (simp add: ban_expired_def ban_active_def)

text \<open>C15: Reaping the expired bans never changes who is let in: \<open>check_ban\<close> finds the same ban (or none)
  before and after, so an expired ban that is still listed has no effect.\<close>

theorem expire_bans_keeps_verdict:
  "fst (check_ban con nick host (expire_bans s)) = fst (check_ban con nick host s) \<and>
   s_Bans (expire_bans s) = filter (\<lambda>b. \<not> ban_expired s b) (s_Bans s)"
proof -
  note E = expire_loop_frame [of "[]" "s_Bans s" s, folded expire_bans_def]
  have "ban_active (expire_bans s) = ban_active s" using E(2) by (simp add: ban_active_def fun_eq_iff)
  moreover have "find (\<lambda>b. ban_active s b \<and> glob_match (b_target b) m) (filter (\<lambda>b. \<not> ban_expired s b) (s_Bans s)) =
      find (\<lambda>b. ban_active s b \<and> glob_match (b_target b) m) (s_Bans s)" for m
    by (rule find_filter_imp) (use expired_not_active in blast)
  ultimately show ?thesis using E(3) by (simp add: check_ban_def Let_def split: option.split)
qed

lemma invalid_nick_chars: "\<not> invalid_nick s n \<Longrightarrow> c \<in> set n \<Longrightarrow> \<not> is_wild c \<and> c \<noteq> CHR ''!''"
  by (auto simp: invalid_nick_def list_ex_iff is_wild_def bad_nick_chars_def)

lemma strcaseeq_length: "strcaseeq a b \<Longrightarrow> length a = length b"
  by (metis lower_simps(4) strcaseeq_def)

lemma c_tolower_bang:
  "c_tolower CHR ''!'' = CHR ''!''" "c_tolower c = CHR ''!'' \<longleftrightarrow> c = CHR ''!''"
  "CHR ''!'' = c_tolower c \<longleftrightarrow> c = CHR ''!''"
proof -
  show b: "c_tolower CHR ''!'' = CHR ''!''" by (simp add: c_tolower_def)
  have "c = CHR ''!''" if a: "c_tolower c = CHR ''!''"
  proof -
    have "code (c_tolower c) = 33" unfolding a by simp
    then have "\<not> (65 \<le> code c \<and> code c \<le> 90)" by (simp add: code_tolower split: if_splits)
    then have "c_tolower c = c" unfolding c_tolower_def by (rule if_not_P)
    then show ?thesis using a by simp
  qed
  then show "c_tolower c = CHR ''!'' \<longleftrightarrow> c = CHR ''!''" "CHR ''!'' = c_tolower c \<longleftrightarrow> c = CHR ''!''"
    using b by auto
qed

lemma lower_bang: "CHR ''!'' \<in> set (lower n) \<longleftrightarrow> CHR ''!'' \<in> set n"
  by (simp add: lower_def image_iff c_tolower_bang)

lemma glob_nick_ban:
  assumes "\<forall>c \<in> set n. \<not> is_wild c \<and> c \<noteq> CHR ''!''" "CHR ''!'' \<notin> set m" "host \<noteq> []"
  shows "glob_match (n @ ''!*'') (m @ ''!'' @ host) \<longleftrightarrow> strcaseeq n m"
proof
  assume "strcaseeq n m"
  then show "glob_match (n @ ''!*'') (m @ ''!'' @ host)"
    using assms(1,3) glob_match_literal [of n m "''!*''" "''!'' @ host"] glob_match_star_end [of host]
    by (simp add: strcaseeq_def)
next
  assume "glob_match (n @ ''!*'') (m @ ''!'' @ host)"
  then have g: "length n \<le> length (m @ ''!'' @ host)" "lower n = lower (take (length n) (m @ ''!'' @ host))"
    "glob_match ''!*'' (drop (length n) (m @ ''!'' @ host))"
    using glob_match_literal_prefix [of n "''!*''"] assms(1) by blast+
  then obtain d r where d: "drop (length n) (m @ ''!'' @ host) = d # r" "c_tolower d = CHR ''!''"
    by (cases "drop (length n) (m @ ''!'' @ host)") (auto simp: c_tolower_bang split: if_splits)
  have "lower (m @ ''!'' @ host) = lower (take (length n) (m @ ''!'' @ host)) @
      lower (drop (length n) (m @ ''!'' @ host))"
    by (metis append_take_drop_id lower_simps(3))
  then have e: "lower m @ CHR ''!'' # lower host = lower n @ CHR ''!'' # lower r"
    unfolding d(1) g(2) [symmetric] by (simp add: d(2) c_tolower_bang)
  have "CHR ''!'' \<notin> set n" using assms(1) by blast
  then have nb: "CHR ''!'' \<notin> set (lower m)" "CHR ''!'' \<notin> set (lower n)"
    using assms(2) by (simp_all add: lower_bang)
  have b: "break_at (\<lambda>c. c = CHR ''!'') (lower m @ CHR ''!'' # lower host) = (lower m, Some (lower host))"
    "break_at (\<lambda>c. c = CHR ''!'') (lower n @ CHR ''!'' # lower r) = (lower n, Some (lower r))"
    by (rule break_at_Some; use nb in blast)+
  have "lower m = lower n" using trans [OF b(1) [symmetric, unfolded e] b(2)]
    by (rule conjunct1 [OF iffD1 [OF prod.inject]])
  then show "strcaseeq n m" by (simp add: strcaseeq_def)
qed



text \<open>C5: A user disappears by \<open>kill_user\<close>, or has its connection marked as killed, only when the killer is
  a server, outranks it, or is Elite.\<close>

theorem kill_needs_rank:
  assumes "wf s" "s_users s v = Some U"
    and "s_users (kill_user con tag pkt s) v = None \<or>
      ISUSER (u_con U) s \<and> c_killed (cnx (kill_user con tag pkt s) (u_con U)) \<and> \<not> c_killed (cnx s (u_con U))"
  shows "\<exists>p nick killer. pop_killer con pkt s = Some (p, nick, killer) \<and> may_kill killer v s"
proof -
  have run: "kill_user con tag pkt s = s' \<Longrightarrow>
    s_users s' = s_users s \<and> s_conns s' = s_conns s \<or>
    (\<exists>p nick killer key u reason. pop_killer con pkt s = Some (p, nick, killer) \<and>
      hash_lookup (s_Users s) key = Some u \<and> may_kill killer u s \<and>
      (ISUSER (user_con s u) s \<and> s' = kill_local nick killer u reason (kill_notice con nick u reason s) \<or>
       \<not> ISUSER (user_con s u) s \<and> s' = users_remove (u_nick (usr s u)) (kill_notice con nick u reason s)))" for s'
    by (auto simp: kill_user_def Let_def split: option.splits prod.splits if_splits)
  from run [OF refl] assms(2,3) obtain p nick killer key u reason where r:
    "pop_killer con pkt s = Some (p, nick, killer)" "hash_lookup (s_Users s) key = Some u" "may_kill killer u s"
    "ISUSER (user_con s u) s \<and>
       kill_user con tag pkt s = kill_local nick killer u reason (kill_notice con nick u reason s) \<or>
     \<not> ISUSER (user_con s u) s \<and>
       kill_user con tag pkt s = users_remove (u_nick (usr s u)) (kill_notice con nick u reason s)"
    by auto
  obtain V where V: "s_users s u = Some V" by (rule wf_lookup_user [OF assms(1) r(2)])
  have "u = v"
  proof (cases "ISUSER (user_con s u) s")
    case True
    then have k: "kill_user con tag pkt s = kill_local nick killer u reason (kill_notice con nick u reason s)"
      using r(4) by blast
    have f: "s_users (kill_user con tag pkt s) = s_users s"
      "s_conns (kill_user con tag pkt s) (u_con U) = s_conns s (u_con U) \<or> u_con U = u_con V"
      by (simp_all add: k kill_local_def Let_def V)
    with assms(2,3) have "ISUSER (u_con U) s" "u_con U = u_con V" by auto
    then show ?thesis
      using conn_okD(3) [OF wf_uptoD(4) [OF assms(1)]] V assms(2) by metis
  next
    case False
    then have k: "kill_user con tag pkt s = users_remove (u_nick V) (kill_notice con nick u reason s)"
      using r(4) V by simp
    have "hash_lookup (s_Users s) (u_nick V) = Some u"
      using user_table_okD(2) [OF wf_uptoD(3) [OF assms(1)] _ V] by (simp add: hash_lookup_stack)
    then have "s_users (kill_user con tag pkt s) v = None \<longrightarrow> v = u"
      "s_conns (kill_user con tag pkt s) = s_conns s"
      using users_remove_users [of "kill_notice con nick u reason s" "u_nick V" u v] assms(2)
      by (simp_all add: k)
    then show ?thesis using assms(3) by auto
  qed
  with r(1,3) show ?thesis by blast
qed

lemma kill_needs_rank_witness:
  "\<exists>p nick killer. pop_killer 0 ''carl'' sample = Some (p, nick, killer) \<and> may_kill killer 2 sample"
proof -
  have a: "get_args 2 (Some ''carl'') = [''carl'']" by (simp add: text_eval numeral_eq_Suc)
  have k: "kill_user 0 610 ''carl'' sample = users_remove ''carl'' (kill_notice 0 ''alice'' 2 [] sample)"
    by (simp add: kill_user_def a pop_killer_def may_kill_def Let_def sample_parts level_order)
  have "s_users (kill_user 0 610 ''carl'' sample) 2 = None"
    unfolding k by (subst users_remove_users [where u = 2]) simp_all
  then show ?thesis by (intro kill_needs_rank [OF wf_sample sample_users(3), where tag = 610]) simp
qed

section \<open>Saving and loading the bans\<close>

text \<open>The bans the file format can hold.\<close>

definition savable_ban :: "srv \<Rightarrow> ban \<Rightarrow> bool" where
  "savable_ban s b \<longleftrightarrow>
     CHR ''!'' \<in> set (b_target b) \<and> arg_ok (Plain (b_target b)) \<and> arg_ok (Plain (b_setby b)) \<and>
     (\<exists>r. b_reason b = Some r \<and> dquote \<notin> set r \<and>
       (Max_Reason (s_cfg s) \<le> 0 \<or> int (length r) \<le> Max_Reason (s_cfg s))) \<and>
     - (2 ^ 31) \<le> b_when b \<and> b_when b < 2 ^ 31 \<and> - (2 ^ 31) \<le> b_timeout b \<and> b_timeout b < 2 ^ 31"

lemma wrap32_id: "- (2 ^ 31) \<le> i \<Longrightarrow> i < 2 ^ 31 \<Longrightarrow> wrap32 i = i"
  by (simp add: wrap32_def sint_sbintrunc' signed_take_bit_int_eq_self)

lemma arg_ok_int_dec: "arg_ok (Plain (int_dec i))"
proof -
  have "hd (int_dec i) \<in> set (int_dec i)" by simp
  then have "hd (int_dec i) \<noteq> dquote" using int_dec_chars by (force simp: c_isdigit_def)
  then show ?thesis by (simp add: int_dec_not_space)
qed

lemma load_saved_ban: "savable_ban s b \<Longrightarrow> load_ban s (ban_line b) = Some b"
proof -
  assume b: "savable_ban s b"
  then obtain r where r: "b_reason b = Some r" "dquote \<notin> set r"
    "Max_Reason (s_cfg s) \<le> 0 \<or> int (length r) \<le> Max_Reason (s_cfg s)"
    by (auto simp: savable_ban_def)
  let ?as = "[Plain (b_target b), Plain (b_setby b), Plain (int_dec (b_when b)), Quoted r,
    Plain (int_dec (b_timeout b))]"
  have "ban_line b = join_args ?as @ [CHR 0x0A]"
    using b r by (simp add: ban_line_def or_null_def savable_ban_def wrap32_id)
  moreover have "split_line 5 (join_args ?as @ [CHR 0x0A]) = Some (map arg_val ?as)"
    by (rule split_line_join_nl) (use b r arg_ok_int_dec in \<open>auto simp: savable_ban_def\<close>)
  ultimately have a: "get_args 5 (Some (ban_line b)) =
      [b_target b, b_setby b, int_dec (b_when b), r, int_dec (b_timeout b)]"
    by (simp add: get_args_def)
  have "atol (int_dec (b_when b)) = b_when b" "atoi (int_dec (b_timeout b)) = b_timeout b"
    using b by (simp_all add: savable_ban_def atol_int_dec atoi_int_dec)
  moreover have "truncate_reason s r = r" using r(3) by (auto simp: truncate_reason_def truncate_to_def)
  moreover have "normalize_ban s (b_target b) = b_target b" using b by (simp add: savable_ban_def normalize_ban_def)
  ultimately show ?thesis unfolding load_ban_def a using r(1) by (simp add: numeral_eq_Suc)
qed



text \<open>
  Not every ban the handler accepts is savable: \<open>split_line\<close> lets a quoted target contain blanks, and
  then the saved line has its fields shifted.
\<close>

definition blank_ban :: ban where
  "blank_ban = \<lparr>b_target = ''*!a b'', b_setby = ''alice'', b_reason = Some [], b_when = 0, b_timeout = 0\<rparr>"

text \<open>A ban on a quoted mask with a blank is not restored: the file gives back a ban on its first word,
  set by the second.\<close>

theorem blank_ban_not_restored:
  "normalize_ban s (b_target blank_ban) = b_target blank_ban \<and>
   (\<exists>b. load_ban s (ban_line blank_ban) = Some b \<and> b_target b = ''*!a'' \<and> b_setby b = ''b'')"
proof
  show "normalize_ban s (b_target blank_ban) = b_target blank_ban"
    by (simp add: normalize_ban_def blank_ban_def)
  have w: "int_dec (wrap32 0) = ''0''" by (simp add: wrap32_def int_dec_def nat_dec.simps digit_char_def char_eval)
  have w0: "int_dec 0 = ''0''" by (simp add: int_dec_def nat_dec.simps digit_char_def char_eval)
  have l: "ban_line blank_ban = ''*!a b alice 0 '' @ [dquote, dquote] @ '' 0'' @ [CHR 0x0A]"
    by (simp add: ban_line_def blank_ban_def w w0 or_null_def)
  have "get_args 5 (Some (ban_line blank_ban)) = [''*!a'', ''b'', ''alice'', ''0'', []]"
    unfolding l by (simp add: text_eval numeral_eq_Suc)
  moreover have "normalize_ban s ''*!a'' = ''*!a''" by (simp add: normalize_ban_def)
  ultimately show "\<exists>b. load_ban s (ban_line blank_ban) = Some b \<and> b_target b = ''*!a'' \<and> b_setby b = ''b''"
    by (simp add: load_ban_def)
qed

end
