(* ===== verification/Join.thy ===== *)
theory Join
  imports Bans
begin

text \<open>
  Joining a channel and its limits: \<open>src/join.c\<close>.  \<open>join\<close> is written as the code's parts: the checks
  on the user, the loop that looks for a channel to join (creating it, refusing, or rolling over to
  the next channel name when a predefined channel is full), and the entry into the channel.

  The loop may run for ever, so \<open>join_loop\<close> takes fuel and \<open>None\<close> means that it is still running;
  \<open>join_loop_returns\<close> bounds its rounds by the number of channels.
\<close>

section \<open>Looking for the channel\<close>

definition is_banned :: "ban list \<Rightarrow> string \<Rightarrow> string \<Rightarrow> ban option" where
  "is_banned bans nick host = find (\<lambda>b. glob_match (b_target b) (host_mask nick host)) bans"

text \<open>The macro \<open>ISDIGIT\<close> of \<open>join\<close>, which tests \<open>(c)>=0\<close>.\<close>

definition ISDIGIT :: "char \<Rightarrow> bool" where
  "ISDIGIT c \<longleftrightarrow> 0 \<le> schar c \<and> schar c \<le> 57"

text \<open>
  The name of the rollover channel: the number at the end of the name, or 0 (the terminating NUL is
  an \<open>ISDIGIT\<close>), plus one.  The third argument of \<open>snprintf\<close> is \<open>sizeof (chanbuf) - strlen (Buf)\<close>, a
  \<open>size_t\<close>: it wraps to a huge bound when \<open>Buf\<close> holds more than 256 characters.
\<close>

definition rollover_parts :: "string \<Rightarrow> string \<times> string" where
  "rollover_parts name =
     (let b = take 255 name
      in (rev (dropWhile ISDIGIT (rev b)), rev (takeWhile ISDIGIT (rev b))))"

definition rollover_name :: "nat \<Rightarrow> string \<Rightarrow> string" where
  "rollover_name buf_len name =
     (case rollover_parts name of (base, digits) \<Rightarrow>
        let n = sint (word_of_int (atoi digits + 1) :: 32 word)
        in base @ (if 256 < buf_len then int_dec n else snprintf_to (256 - buf_len) (int_dec n)))"

datatype join_check = Deny "string" | Full | Admit bool

definition join_check :: "uid \<Rightarrow> chid \<Rightarrow> srv \<Rightarrow> join_check" where
  "join_check user chan s =
     (let U = usr s user; C = chn s chan; chanop = list_ex (strcaseeq (u_nick U)) (ch_ops C) in
      if chan \<in> set (u_channels U) then Deny ''channel join failed: already joined channel''
      else if u_level U < ch_level C then
        Deny (''channel join failed: requires level '' @ Levels (ch_level C))
      else if chanop \<or> LEVEL_MODERATOR \<le> u_level U then Admit chanop
      else case is_banned (ch_bans C) (u_nick U) (my_ntoa (u_ip U)) of
        Some b \<Rightarrow> Deny (''channel join failed: banned: '' @ (case b_reason b of None \<Rightarrow> [] | Some r \<Rightarrow> r))
      | None \<Rightarrow>
          if ch_flags C AND ON_CHANNEL_INVITE \<noteq> 0 \<and> chan \<notin> set (u_invited U) then
            Deny ''channel join failed: invite only''
          else if 0 < ch_limit C \<and> ch_limit C \<le> length (ch_users C) then
            if ch_flags C AND ON_CHANNEL_USER \<noteq> 0 then Deny ''channel join failed: channel full''
            else Full
          else Admit False)"

definition new_user_channel :: "string \<Rightarrow> srv \<Rightarrow> channel" where
  "new_user_channel name s =
     \<lparr>ch_name = name, ch_topic = snprintf_to 2048 (''Welcome to the '' @ name @ '' channel.''),
      ch_ops = [], ch_users = [], ch_limit = nat (Channel_Limit (s_cfg s) mod 65536),
      ch_flags = ON_CHANNEL_USER, ch_level = LEVEL_USER, ch_bans = [], ch_timestamp = s_time s,
      ch_invited = []\<rparr>"

text \<open>\<open>Join_Stop\<close> is a return from the handler, \<open>Join_Go\<close> leaves the loop with a channel to enter.\<close>

datatype join_result = Join_Stop srv | Join_Go chid bool srv

definition join_create :: "cid \<Rightarrow> uid \<Rightarrow> string \<Rightarrow> srv \<Rightarrow> join_result" where
  "join_create con user name s =
     (if Strict_Channels (s_cfg s) \<and> u_level (usr s user) < LEVEL_MODERATOR then
        Join_Stop (permission_denied con s)
      else if invalid_channel s name then Join_Stop (invalid_channel_msg con s)
      else
        let chan = s_next s
        in Join_Go chan False
             (s\<lparr>s_chans := (s_chans s)(chan \<mapsto> new_user_channel name s),
                s_Channels := hash_add (s_Channels s) name chan,
                s_next := Suc chan\<rparr>))"

fun join_loop :: "nat \<Rightarrow> cid \<Rightarrow> uid \<Rightarrow> string \<Rightarrow> srv \<Rightarrow> join_result option" where
  "join_loop 0 con user name s = None"
| "join_loop (Suc fuel) con user name s =
     (case hash_lookup (s_Channels s) name of
        None \<Rightarrow> Some (join_create con user name s)
      | Some chan \<Rightarrow>
          (case join_check user chan s of
             Deny msg \<Rightarrow> Some (Join_Stop (tell_user con msg s))
           | Admit chanop \<Rightarrow> Some (Join_Go chan chanop s)
           | Full \<Rightarrow> join_loop fuel con user (rollover_name (s_Buf_len s) name) s))"

section \<open>Entering the channel\<close>

text \<open>The lists: the invitation is used up on an invite-only channel, then both lists grow.\<close>

definition join_link :: "uid \<Rightarrow> chid \<Rightarrow> srv \<Rightarrow> srv" where
  "join_link user chan s =
     upd_chan chan (\<lambda>C. C\<lparr>ch_users := \<lparr>cu_flags = 0, cu_user = user\<rparr> # ch_users C\<rparr>)
       (upd_user user (\<lambda>U. U\<lparr>u_channels := chan # u_channels U\<rparr>) s)"

definition use_invite :: "uid \<Rightarrow> chid \<Rightarrow> srv \<Rightarrow> srv" where
  "use_invite user chan s =
     (if ch_flags (chn s chan) AND ON_CHANNEL_INVITE \<noteq> 0 then
        upd_user user (\<lambda>U. U\<lparr>u_invited := list_delete (u_invited U) chan\<rparr>)
          (upd_chan chan (\<lambda>C. C\<lparr>ch_invited := list_delete (ch_invited C) user\<rparr>) s)
      else s)"

definition join_greet :: "cid \<Rightarrow> uid \<Rightarrow> chid \<Rightarrow> srv \<Rightarrow> srv" where
  "join_greet con user chan s =
     (if ISUSER con s then
        emit ((con, MSG_SERVER_JOIN_ACK, form_message (ch_name (chn s chan))) #
          [(con, MSG_SERVER_CHANNEL_USER_LIST,
            form_message (ch_name (chn s chan) @ '' '' @ u_nick (usr s (cu_user cu)) @ '' '' @
              nat_dec (u_shared (usr s (cu_user cu))) @ '' '' @ nat_dec (u_speed (usr s (cu_user cu))))).
             cu \<leftarrow> ch_users (chn s chan),
             \<not> u_cloaked (usr s (cu_user cu)) \<or> LEVEL_MODERATOR \<le> u_level (usr s user)]) s
      else s)"

definition join_announce :: "uid \<Rightarrow> chid \<Rightarrow> srv \<Rightarrow> srv" where
  "join_announce user chan s =
     emit [(user_con s (cu_user cu), MSG_SERVER_JOIN,
            form_message (ch_name (chn s chan) @ '' '' @ u_nick (usr s user) @ '' '' @
              nat_dec (u_shared (usr s user)) @ '' '' @ nat_dec (u_speed (usr s user)))).
             cu \<leftarrow> ch_users (chn s chan),
             ISUSER (user_con s (cu_user cu)) s \<and> cu_user cu \<noteq> user \<and>
             (\<not> u_cloaked (usr s user) \<or> LEVEL_MODERATOR \<le> u_level (usr s (cu_user cu)))] s"

text \<open>\<open>chanUser\<close> is the element the handler has put in front of the list.\<close>

definition set_new_op :: "channel \<Rightarrow> channel" where
  "set_new_op C =
     C\<lparr>ch_users := (case ch_users C of [] \<Rightarrow> []
        | cu # us \<Rightarrow> cu\<lparr>cu_flags := cu_flags cu OR ON_OPERATOR\<rparr> # us)\<rparr>"

definition join_grant :: "uid \<Rightarrow> chid \<Rightarrow> bool \<Rightarrow> srv \<Rightarrow> srv" where
  "join_grant user chan chanop s =
     (if chanop then
        upd_chan chan set_new_op
          (notify_ops chan (Server_Name (s_cfg s) @ '' set '' @ u_nick (usr s user) @
             '' as operator on channel '' @ ch_name (chn s chan)) s)
      else s)"

definition join_finish :: "cid \<Rightarrow> chid \<Rightarrow> bool \<Rightarrow> srv \<Rightarrow> srv" where
  "join_finish con chan chanop s =
     (if ISUSER con s then
        let s = send_cmd con MSG_SERVER_CHANNEL_USER_LIST_END (ch_name (chn s chan)) s;
            s = send_cmd con MSG_SERVER_TOPIC (ch_name (chn s chan) @ '' '' @ ch_topic (chn s chan)) s
        in if chanop then
             send_cmd con MSG_SERVER_NOSUCH (Server_Name (s_cfg s) @ '' set you as operator on channel '' @
               ch_name (chn s chan)) s
           else s
      else s)"

definition join_enter :: "cid \<Rightarrow> nat \<Rightarrow> uid \<Rightarrow> chid \<Rightarrow> bool \<Rightarrow> srv \<Rightarrow> srv" where
  "join_enter con tag user chan chanop s =
     (let s = join_link user chan (use_invite user chan s);
          s = pass_message_args (Some con) tag
                ('':'' @ u_nick (usr s user) @ '' '' @ ch_name (chn s chan)) s
      in join_finish con chan chanop (join_grant user chan chanop
           (join_announce user chan (join_greet con user chan s))))"

section \<open>The handler\<close>

definition join_refused :: "uid \<Rightarrow> srv \<Rightarrow> string option" where
  "join_refused user s =
     (if LEVEL_MODERATOR \<le> u_level (usr s user) then None
      else if Max_User_Channels (s_cfg s) < int (length (u_channels (usr s user))) then
        Some (''channel join failed: you may only join '' @ int_dec (Max_User_Channels (s_cfg s)) @
          '' channels'')
      else if u_muzzled (usr s user) then
        Some ''channel join failed: can't join channels while muzzled''
      else None)"

definition chan_prefix :: "string \<Rightarrow> string" where
  "chan_prefix p = (if hd p \<noteq> CHR ''#'' \<and> hd p \<noteq> CHR ''&'' then snprintf_to 256 (CHR ''#'' # p) else p)"

definition join :: "nat \<Rightarrow> cid \<Rightarrow> nat \<Rightarrow> string \<Rightarrow> srv \<Rightarrow> srv option" where
  "join fuel con tag pkt s =
     (case pop_user con pkt s of
        None \<Rightarrow> Some s
      | Some (None, user) \<Rightarrow> Some (unparsable con s)
      | Some (Some p, user) \<Rightarrow>
          if p = [] then Some (unparsable con s)
          else case join_refused user s of
            Some msg \<Rightarrow> Some (tell_user con msg s)
          | None \<Rightarrow>
              (case join_loop fuel con user (chan_prefix p) s of
                 None \<Rightarrow> None
               | Some (Join_Stop s') \<Rightarrow> Some s'
               | Some (Join_Go chan chanop s') \<Rightarrow> Some (join_enter con tag user chan chanop s')))"

section \<open>Joining keeps the invariant\<close>

lemma wf_create:
  assumes w: "wf s" and n: "hash_lookup (s_Channels s) name = None"
    and t: "t = s\<lparr>s_chans := (s_chans s)(s_next s \<mapsto> new_user_channel name s),
      s_Channels := hash_add (s_Channels s) name (s_next s), s_next := Suc (s_next s)\<rparr>"
  shows "wf t" "s_chans s (s_next s) = None" "memb t = memb s" "inch t = inch s"
proof -
  note L = links_okD [OF wf_uptoD(1) [OF w]] and CT = chan_table_okD [OF wf_uptoD(2) [OF w]]
  show new: "s_chans s (s_next s) = None" using CT(4) [of "s_next s"] by fastforce
  have fr: "s_users t = s_users s" "s_conns t = s_conns s" "s_Users t = s_Users s" by (simp_all add: t)
  have ch: "s_chans t d = (if d = s_next s then Some (new_user_channel name s) else s_chans s d)" for d
    by (simp add: t)
  have nm: "ch_users (new_user_channel name s) = []" "ch_invited (new_user_channel name s) = []"
    "ch_name (new_user_channel name s) = name" by (simp_all add: new_user_channel_def)
  show m: "memb t = memb s" "inch t = inch s"
    using new by (auto simp: memb_def inch_def fun_eq_iff ch nm fr)
  have g: "inviting t = inviting s" "invd t = invd s"
    using new by (auto simp: inviting_def invd_def fun_eq_iff ch nm fr)
  have "links_ok {} t"
  proof (rule links_okI)
    show "v \<in> dom (s_users t)" if "memb t e v \<or> inviting t e v" for e v
      using that L(5,6) unfolding m g fr by blast
  qed (use L in \<open>auto simp: m g fr ch nm split: if_splits\<close>)
  moreover have st: "hash_stack (s_Channels t) k =
      (if strcaseeq name k then s_next s # hash_stack (s_Channels s) k else hash_stack (s_Channels s) k)" for k
    using CT(1) by (simp add: t hash_stack_add)
  have empty: "hash_stack (s_Channels s) name = []"
    using n CT(1) by (simp add: hash.lookup_None_iff)
  then have none: "hash_stack (s_Channels s) k = []" if "strcaseeq name k" for k
    using that hash_stack_cong by metis
  have "chan_table_ok t"
  proof (rule chan_table_okI)
    show "hash_stack (s_Channels t) (ch_name D) = [d]" if "s_chans t d = Some D" for d D
    proof (cases "d = s_next s")
      case False
      then have "hash_stack (s_Channels s) (ch_name D) = [d]" using that CT(2) by (simp add: ch)
      then show ?thesis using none [of "ch_name D"] by (auto simp: st)
    qed (use that in \<open>auto simp: ch nm st none\<close>)
    show "d < s_next t" if "s_chans t d = Some D" for d D
      using that CT(4) [of d] by (auto simp: t less_Suc_eq split: if_splits)
    show "\<exists>D. s_chans t d = Some D \<and> strcaseeq k (ch_name D)" if "d \<in> set (hash_stack (s_Channels t) k)" for k d
    proof (cases "strcaseeq name k")
      case True
      then show ?thesis using that none by (auto simp: st ch nm strcaseeq_commute)
    next
      case False
      then have "d \<in> set (hash_stack (s_Channels s) k)" using that by (simp add: st)
      then show ?thesis using CT(3) [of d k] new by (auto simp: ch)
    qed
  qed (use CT(1) in \<open>simp add: t hash_invar_add\<close>)
  moreover have "user_table_ok {} t" "conn_ok {} t"
    by (rule users_ok_keys [OF w]; simp add: fr)+
  ultimately show "wf t" by (intro wf_uptoI)
qed

lemma wf_use_invite:
  assumes w: "wf s"
  shows "wf (use_invite u c s)" "memb (use_invite u c s) = memb s" "inch (use_invite u c s) = inch s"
    "dom (s_users (use_invite u c s)) = dom (s_users s)" "dom (s_chans (use_invite u c s)) = dom (s_chans s)"
proof -
  let ?t = "upd_user u (\<lambda>U. U\<lparr>u_invited := list_delete (u_invited U) c\<rparr>)
    (upd_chan c (\<lambda>C. C\<lparr>ch_invited := list_delete (ch_invited C) u\<rparr>) s)"
  note L = links_okD [OF wf_uptoD(1) [OF w]]
  have m: "memb ?t = memb s" "inch ?t = inch s"
    by (auto simp: memb_def inch_def fun_eq_iff)
  have d: "dom (s_users ?t) = dom (s_users s)" "dom (s_chans ?t) = dom (s_chans s)"
    by (simp_all del: fun_upd_apply dom_fun_upd)
  have v: "invd ?t x e \<longleftrightarrow> invd s x e \<and> (x, e) \<noteq> (u, c)" "inviting ?t e x \<longleftrightarrow> inviting s e x \<and> (x, e) \<noteq> (u, c)"
    for x e
    using L(2) [of u] L(4) [of c]
    by (cases "s_users s u"; auto simp: invd_def; fail)
      (use L(4) [of c] in \<open>cases "s_chans s c"; auto simp: inviting_def\<close>)
  have o1: "distinct (u_channels V) \<and> distinct (u_invited V)" if "s_users ?t x = Some V" for x V
    using that L(1,2) by (auto elim!: upd_Some simp del: fun_upd_apply)
  have o2: "distinct (map cu_user (ch_users C)) \<and> distinct (ch_invited C)" if "s_chans ?t e = Some C" for e C
    using that L(3,4) by (auto elim!: upd_Some simp del: fun_upd_apply)
  have "links_ok {} ?t"
    using L(5-8) o1 o2 by (intro links_okI) (simp_all add: m v d del: upd_user_frame upd_chan_frame domIff, blast+)
  moreover have "chan_table_ok ?t" "user_table_ok {} ?t" "conn_ok {} ?t"
    by (rule chan_table_ok_names [OF w] users_ok_keys [OF w];
        simp add: user_key_def [abs_def] option.map_comp comp_def)+
  ultimately have "wf ?t" by (intro wf_uptoI)
  with w m d show "wf (use_invite u c s)" "memb (use_invite u c s) = memb s" "inch (use_invite u c s) = inch s"
    "dom (s_users (use_invite u c s)) = dom (s_users s)" "dom (s_chans (use_invite u c s)) = dom (s_chans s)"
    by (simp_all add: use_invite_def)
qed

lemma wf_join_link:
  assumes w: "wf s" and "u \<in> dom (s_users s)" "c \<in> dom (s_chans s)" "\<not> inch s u c"
  shows "wf (join_link u c s)"
    and "memb (join_link u c s) d v \<longleftrightarrow> memb s d v \<or> (d = c \<and> v = u)"
proof -
  let ?t = "join_link u c s"
  note L = links_okD [OF wf_uptoD(1) [OF w]]
  obtain U C where UC: "s_users s u = Some U" "s_chans s c = Some C" using assms(2,3) by auto
  have users: "s_users ?t v = (if v = u then Some (U\<lparr>u_channels := c # u_channels U\<rparr>) else s_users s v)" for v
    by (simp add: join_link_def UC)
  have chans: "s_chans ?t d =
      (if d = c then Some (C\<lparr>ch_users := \<lparr>cu_flags = 0, cu_user = u\<rparr> # ch_users C\<rparr>) else s_chans s d)" for d
    by (simp add: join_link_def UC)
  show m: "memb ?t d v \<longleftrightarrow> memb s d v \<or> (d = c \<and> v = u)" for d v
    using UC by (auto simp: memb_def chans)
  have i: "inch ?t v d \<longleftrightarrow> inch s v d \<or> (d = c \<and> v = u)" for d v
    using UC by (auto simp: inch_def users)
  have g: "inviting ?t = inviting s" "invd ?t = invd s"
    using UC by (auto simp: inviting_def invd_def fun_eq_iff users chans)
  have new: "c \<notin> set (u_channels U)" "u \<notin> cu_user ` set (ch_users C)"
    using assms(4) L(7) [of u c] UC by (auto simp: inch_def memb_def)
  have d: "dom (s_users ?t) = dom (s_users s)" using UC by (auto simp: dom_def users)
  have "links_ok {} ?t"
  proof (rule links_okI)
    show "distinct (u_channels V) \<and> distinct (u_invited V)" if "s_users ?t v = Some V" for v V
      using that L(1,2) new UC by (auto simp: users split: if_splits)
    show "distinct (map cu_user (ch_users D)) \<and> distinct (ch_invited D)" if "s_chans ?t e = Some D" for e D
      using that L(3,4) new UC by (auto simp: chans split: if_splits)
    show "v \<in> dom (s_users ?t)" if "memb ?t e v \<or> inviting ?t e v" for e v
      using that L(5,6) assms(2) unfolding m g d by blast
  qed (use L(7,8) in \<open>auto simp: i m g\<close>)
  moreover have "chan_table_ok ?t" "user_table_ok {} ?t" "conn_ok {} ?t"
    by (rule chan_table_ok_names [OF w] users_ok_keys [OF w];
        simp add: join_link_def user_key_def [abs_def] option.map_comp comp_def)+
  ultimately show "wf ?t" by (intro wf_uptoI)
qed

lemma join_check_Admit: "join_check user c s = Admit op \<Longrightarrow> \<not> inch s user c"
  by (auto simp: join_check_def Let_def inch_def split: if_splits)

text \<open>What the loop hands on to the entry.\<close>

lemma join_loop_Go:
  assumes "wf s" "join_loop fuel con user name s = Some (Join_Go c chanop s')"
  shows "wf s'" "c \<in> dom (s_chans s')" "\<not> inch s' user c" "memb s' = memb s" "s_users s' = s_users s"
    and "s_conns s' = s_conns s"
    and "s_chans s c = None \<and> \<not> (Strict_Channels (s_cfg s) \<and> u_level (usr s user) < LEVEL_MODERATOR) \<or>
      c \<in> dom (s_chans s) \<and> join_check user c s = Admit chanop \<and> s' = s"
    and "roll s' = roll s"
proof -
  have "wf s' \<and> c \<in> dom (s_chans s') \<and> \<not> inch s' user c \<and> memb s' = memb s \<and> s_users s' = s_users s \<and>
    s_conns s' = s_conns s \<and>
    (s_chans s c = None \<and> \<not> (Strict_Channels (s_cfg s) \<and> u_level (usr s user) < LEVEL_MODERATOR) \<or>
      c \<in> dom (s_chans s) \<and> join_check user c s = Admit chanop \<and> s' = s) \<and> roll s' = roll s"
    using assms(2)
  proof (induction fuel arbitrary: name)
    case (Suc fuel)
    show ?case
    proof (cases "hash_lookup (s_Channels s) name")
      case None
      with Suc.prems have r: "join_create con user name s = Join_Go c chanop s'" by simp
      let ?t = "s\<lparr>s_chans := (s_chans s)(s_next s \<mapsto> new_user_channel name s),
        s_Channels := hash_add (s_Channels s) name (s_next s), s_next := Suc (s_next s)\<rparr>"
      note W = wf_create [OF assms(1) None refl]
      from r have t: "c = s_next s" "s' = ?t"
        "\<not> (Strict_Channels (s_cfg s) \<and> u_level (usr s user) < LEVEL_MODERATOR)"
        by (auto simp: join_create_def Let_def split: if_splits)
      have "\<not> inch s user (s_next s)"
        using links_okD(7) [OF wf_uptoD(1) [OF assms(1)], of user "s_next s"] W(2) by (simp add: memb_def)
      moreover have "wf s'" "memb s' = memb s" "inch s' = inch s" using W t(2) by simp_all
      moreover have "c \<in> dom (s_chans s')" "s_users s' = s_users s" "s_conns s' = s_conns s" "roll s' = roll s" using t by simp_all
      ultimately show ?thesis using W(2) t(1,3) by simp
    next
      case (Some d)
      note d = wf_lookup_chan_dom [OF assms(1) Some]
      show ?thesis
      proof (cases "join_check user d s")
        case (Deny m)
        then show ?thesis using Suc.prems Some by simp
      next
        case Full
        then show ?thesis using Suc.prems Some by (intro Suc.IH) simp
      next
        case (Admit op)
        then have "c = d" "chanop = op" "s' = s" using Suc.prems Some by simp_all
        then show ?thesis using d Admit join_check_Admit assms(1) by blast
      qed
    qed
  qed simp
  then show "wf s'" "c \<in> dom (s_chans s')" "\<not> inch s' user c" "memb s' = memb s" "s_users s' = s_users s"
    "s_conns s' = s_conns s"
    "s_chans s c = None \<and> \<not> (Strict_Channels (s_cfg s) \<and> u_level (usr s user) < LEVEL_MODERATOR) \<or>
      c \<in> dom (s_chans s) \<and> join_check user c s = Admit chanop \<and> s' = s"
    "roll s' = roll s" by blast+
qed

lemma join_loop_Stop:
  "join_loop fuel con user name s = Some (Join_Stop s') \<Longrightarrow> same_core s' s"
  by (induction fuel arbitrary: name)
    (auto simp: join_create_def Let_def same_core_def split: option.splits join_check.splits if_splits)

lemma set_new_op_keeps:
  "ch_name (set_new_op C) = ch_name C" "map cu_user (ch_users (set_new_op C)) = map cu_user (ch_users C)"
  "ch_invited (set_new_op C) = ch_invited C"
  by (simp_all add: set_new_op_def split: list.split)

lemma memb_upd_chan:
  assumes "\<And>C. map cu_user (ch_users (f C)) = map cu_user (ch_users C)"
  shows "memb (upd_chan c f s) = memb s"
proof -
  have "cu_user ` set (ch_users (f C)) = cu_user ` set (ch_users C)" for C
    by (metis assms list.set_map)
  then show ?thesis by (cases "s_chans s c") (auto simp: memb_def fun_eq_iff)
qed

lemma same_core_join_output [simp]:
  "same_core r (join_greet con u c s) = same_core r s"
  "same_core r (join_announce u c s) = same_core r s"
  "same_core r (join_finish con c op s) = same_core r s"
  by (simp_all add: join_greet_def join_announce_def join_finish_def Let_def)

lemma join_enter_alt:
  "\<exists>t. same_core (join_link u c (use_invite u c s)) t \<and>
    same_core (join_grant u c op t) (join_enter con tag u c op s)"
proof -
  let ?t = "join_announce u c (join_greet con u c (pass_message_args (Some con) tag
    ('':'' @ u_nick (usr (join_link u c (use_invite u c s)) u) @ '' '' @
      ch_name (chn (join_link u c (use_invite u c s)) c)) (join_link u c (use_invite u c s))))"
  show ?thesis by (rule exI [of _ ?t]) (simp add: join_enter_def Let_def)
qed

lemma wf_join_enter:
  assumes w: "wf s" and "u \<in> dom (s_users s)" "c \<in> dom (s_chans s)" "\<not> inch s u c"
  shows "wf (join_enter con tag u c op s)"
    and "memb (join_enter con tag u c op s) d v \<longleftrightarrow> memb s d v \<or> (d = c \<and> v = u)"
proof -
  note I = wf_use_invite [OF w, of u c]
  have L: "wf (join_link u c (use_invite u c s))"
    "memb (join_link u c (use_invite u c s)) d v \<longleftrightarrow> memb s d v \<or> (d = c \<and> v = u)"
    using wf_join_link [of "use_invite u c s" u c] I assms by (simp_all del: domIff)
  obtain t where t: "same_core (join_link u c (use_invite u c s)) t"
    "same_core (join_grant u c op t) (join_enter con tag u c op s)" using join_enter_alt by blast
  have g: "wf (join_grant u c op t)" "memb (join_grant u c op t) = memb t"
    using same_core_wf [OF t(1)] L(1) wf_upd_chan [of "{}" _ set_new_op, OF _ set_new_op_keeps]
      memb_upd_chan [of set_new_op c, OF set_new_op_keeps(2)]
    by (auto simp: join_grant_def)
  show "wf (join_enter con tag u c op s)" using same_core_wf [OF t(2)] g(1) by simp
  show "memb (join_enter con tag u c op s) d v \<longleftrightarrow> memb s d v \<or> (d = c \<and> v = u)"
    using same_core_rel [OF t(1)] same_core_rel [OF t(2)] g(2) L(2) by simp
qed

lemma join_cases:
  assumes "join fuel con tag pkt s = Some s'"
  obtains "same_core s' s"
  | p u c op t where "pop_user con pkt s = Some (Some p, u)" "join_refused u s = None"
      "join_loop fuel con u (chan_prefix p) s = Some (Join_Go c op t)" "s' = join_enter con tag u c op t"
  using assms
  by (auto simp: join_def same_core_def dest!: join_loop_Stop split: option.splits if_splits join_result.splits)

lemma wf_join:
  assumes "wf s" "registered con s" "join fuel con tag pkt s = Some s'"
  shows "wf s'"
  using assms(3)
proof (cases rule: join_cases)
  case 1
  then show ?thesis using same_core_wf assms(1) by metis
next
  case (2 p u c op t)
  have "u \<in> dom (s_users s)" by (rule wf_pop_user [OF assms(1,2) 2(1)])
  then show ?thesis using join_loop_Go(1,2,3,5) [OF assms(1) 2(3)] wf_join_enter(1) 2(4) by metis
qed

section \<open>Who gets in\<close>


section \<open>The rollover loop ends\<close>

lemma wrap32_Suc: "wrap32 (wrap32 i + 1) = wrap32 (i + 1)"
  by (simp add: wrap32_def)

lemma wrap32_eqD: "wrap32 i = wrap32 j \<Longrightarrow> \<bar>i - j\<bar> < 2 ^ 32 \<Longrightarrow> i = j"
proof -
  assume a: "wrap32 i = wrap32 j" and b: "\<bar>i - j\<bar> < 2 ^ 32"
  have "word_of_int i = (word_of_int j :: 32 word)"
    using a unfolding wrap32_def by (rule signed_word_eqI)
  then have "take_bit 32 i = take_bit 32 j" by (simp add: word_of_int_eq_iff)
  then have "i mod 2 ^ 32 = j mod 2 ^ 32" by (simp add: take_bit_eq_mod)
  then have "2 ^ 32 dvd i - j" by (simp add: mod_eq_dvd_iff)
  then obtain k where k: "i - j = 2 ^ 32 * k" by (elim dvdE)
  with b have "k = 0" by simp
  with k show "i = j" by simp
qed

lemma int_dec_ISDIGIT: "c \<in> set (int_dec i) \<Longrightarrow> ISDIGIT c"
  using int_dec_chars [of c i] by (auto simp: ISDIGIT_def schar_def c_isdigit_def)

lemma lower_int_dec: "lower (int_dec i) = int_dec i"
proof -
  have "c_tolower c = c" if "c \<in> set (int_dec i)" for c
    using int_dec_chars [OF that] by (auto simp: c_tolower_def c_isdigit_def)
  then show ?thesis by (simp add: lower_def map_idI)
qed

text \<open>A rollover name is the fixed base with the next number.\<close>

lemma rollover_parts_app:
  assumes "base = [] \<or> \<not> ISDIGIT (last base)" "\<forall>c \<in> set d. ISDIGIT c" "length base + length d \<le> 255"
  shows "rollover_parts (base @ d) = (base, d)"
proof -
  have t: "take 255 (base @ d) = base @ d" using assms(3) by simp
  have d: "\<forall>c \<in> set (rev d). ISDIGIT c" using assms(2) by simp
  have "dropWhile ISDIGIT (rev base) = rev base \<and> takeWhile ISDIGIT (rev base) = []"
    using assms(1) by (cases base rule: rev_cases) auto
  then show ?thesis unfolding rollover_parts_def Let_def t
    using d by (simp add: dropWhile_append takeWhile_append)
qed

lemma rollover_base:
  assumes "rollover_parts name = (base, d)"
  shows "base = [] \<or> \<not> ISDIGIT (last base)" "length base \<le> length name"
proof -
  let ?b = "rev (take 255 name)"
  have b: "base = rev (dropWhile ISDIGIT ?b)" using assms by (simp add: rollover_parts_def Let_def)
  show "base = [] \<or> \<not> ISDIGIT (last base)"
    using hd_dropWhile [of ISDIGIT ?b] by (auto simp: b last_rev)
  show "length base \<le> length name"
    using length_dropWhile_le [of ISDIGIT ?b] by (simp add: b)
qed

lemma rollover_iterate:
  assumes p: "rollover_parts name = (base, d)" and len: "length base \<le> 240" "L \<le> 240"
  shows "(rollover_name L ^^ Suc k) name = base @ int_dec (wrap32 (atoi d + 1 + int k))"
proof (induction k)
  case 0
  have "length (int_dec (wrap32 (atoi d + 1))) < 256 - L"
    using length_int_dec32 [OF wrap32_range, of "atoi d + 1"] len by simp
  then show ?case using len by (simp add: rollover_name_def p wrap32_def Let_def)
next
  case (Suc k)
  let ?n = "wrap32 (atoi d + 1 + int k)" and ?m = "wrap32 (atoi d + 1 + int (Suc k))"
  have l: "length (int_dec ?n) \<le> 11" "length (int_dec ?m) \<le> 11"
    by (rule length_int_dec32 [OF wrap32_range])+
  have "rollover_parts (base @ int_dec ?n) = (base, int_dec ?n)"
    using rollover_base(1) [OF p] l(1) len by (intro rollover_parts_app) (auto dest: int_dec_ISDIGIT)
  moreover have "sint (word_of_int (atoi (int_dec ?n) + 1) :: 32 word) = ?m"
    using wrap32_Suc [of "atoi d + 1 + int k"] atoi_int_dec [OF wrap32_range, of "atoi d + 1 + int k"]
    by (simp add: wrap32_def ac_simps)
  ultimately have "rollover_name L (base @ int_dec ?n) = base @ int_dec ?m"
    using l(2) len by (simp add: rollover_name_def Let_def)
  then show ?case using Suc.IH by simp
qed

lemma join_loop_None:
  "join_loop fuel con u name s = None \<Longrightarrow> i < fuel \<Longrightarrow>
   \<exists>c. hash_lookup (s_Channels s) ((rollover_name (s_Buf_len s) ^^ i) name) = Some c"
proof (induction fuel arbitrary: name i)
  case (Suc fuel)
  then show ?case
    by (cases i) (auto simp: funpow_swap1 split: option.splits join_check.splits)
qed simp

lemma wf_finite_chans: "wf s \<Longrightarrow> finite (dom (s_chans s))"
proof -
  assume "wf s"
  then have "dom (s_chans s) \<subseteq> {..< s_next s}" using chan_table_okD(4) [OF wf_uptoD(2)] by blast
  then show ?thesis by (rule finite_subset) simp
qed



lemma sample_pop_carl: "pop_user 2 '':carl #den'' sample = Some (Some ''#den'', 2)"
  by (simp add: pop_user_def text_eval sample_parts)


text \<open>
  The bound on \<open>Buf\<close> is needed: with 256 characters in it \<open>snprintf\<close> gets the size 0, the name of the
  next channel is the name of the full one, and the loop goes on for ever.
\<close>

definition sample_full :: srv where
  "sample_full = upd_chan 0 (\<lambda>C. C\<lparr>ch_limit := 1, ch_flags := 0\<rparr>) (sample\<lparr>s_Buf_len := 256\<rparr>)"

lemma sample_full_simps:
  "s_Channels sample_full = s_Channels sample" "s_users sample_full = s_users sample"
  "s_Users sample_full = s_Users sample" "s_conns sample_full = s_conns sample"
  "s_cfg sample_full = s_cfg sample" "s_Buf_len sample_full = 256"
  "s_chans sample_full 0 = Some (sample_chan\<lparr>ch_limit := 1, ch_flags := 0\<rparr>)"
  "ISSERVER 2 sample_full"
  by (simp_all add: sample_full_def) (simp add: ISSERVER_def sample_parts)


section \<open>Level and limit of a channel\<close>

text \<open>
  \<open>av\<close> has three entries, but the handler lets \<open>split_line\<close> fill \<open>sizeof (av) / sizeof (char)\<close> = 24; the
  first three are those the handler reads, and the overrun is not modelled.  \<open>av[0]\<close> is set
  even where \<open>split_line\<close> returns -1.  \<open>None\<close> as the result is the NULL pointer that the handler
  follows when a server sends nothing after the sender's name.
\<close>

definition first_field :: "string \<Rightarrow> string" where
  "first_field pkt =
     (case skip_space pkt of
        [] \<Rightarrow> []
      | c # s \<Rightarrow> if c = dquote then fst (break_at (\<lambda>c. c = dquote) s) else fst (break_at is_sep (c # s)))"

text \<open>The name of the sender, and what is left of the packet.\<close>

definition pop_sender :: "cid \<Rightarrow> string \<Rightarrow> srv \<Rightarrow> (string \<times> string option) option" where
  "pop_sender con pkt s =
     (if ISSERVER con s then
        (case pkt of
           c # rest \<Rightarrow>
             if c = CHR '':'' then
               (case next_arg (Some rest) of (None, _) \<Rightarrow> None | (Some sender, p) \<Rightarrow> Some (sender, p))
             else None
         | [] \<Rightarrow> None)
      else Some (u_nick (usr s (c_user (cnx s con))), Some pkt))"

definition may_set_level :: "cid \<Rightarrow> chid \<Rightarrow> level \<Rightarrow> srv \<Rightarrow> bool" where
  "may_set_level con chan lvl s \<longleftrightarrow>
     (let me = c_user (cnx s con) in
        ch_level (chn s chan) \<le> u_level (usr s me) \<and> lvl \<le> u_level (usr s me) \<and>
        (LEVEL_MODERATOR \<le> u_level (usr s me) \<or> is_chanop chan me s))"

definition set_channel_level :: "cid \<Rightarrow> string \<Rightarrow> chid \<Rightarrow> level \<Rightarrow> srv \<Rightarrow> srv" where
  "set_channel_level con sender chan lvl s =
     (let name = ch_name (chn s chan);
          s = pass_message_args (Some con) MSG_CLIENT_SET_CHAN_LEVEL
                ('':'' @ sender @ '' '' @ name @ '' '' @ Levels lvl) s;
          s = upd_chan chan (\<lambda>C. C\<lparr>ch_level := lvl\<rparr>) s
      in notify_ops chan (sender @ '' set channel '' @ name @ '' to level '' @ Levels lvl) s)"

definition channel_level :: "cid \<Rightarrow> nat \<Rightarrow> string \<Rightarrow> srv \<Rightarrow> srv option" where
  "channel_level con tag pkt s =
     (case pop_sender con pkt s of
        None \<Rightarrow> Some s
      | Some (sender, None) \<Rightarrow> None
      | Some (sender, Some pkt) \<Rightarrow>
          let av = split_line 24 pkt in
          if av = Some [] then Some (unparsable con s)
          else case hash_lookup (s_Channels s) (first_field pkt) of
            None \<Rightarrow> Some (nosuchchannel con s)
          | Some chan \<Rightarrow>
              (case av of
                 Some (_ # lv # rest) \<Rightarrow>
                   (case get_level lv of
                      None \<Rightarrow> Some (tell_user con ''invalid level'' s)
                    | Some lvl \<Rightarrow>
                        if ch_level (chn s chan) = lvl then Some s
                        else if ISUSER con s \<and> \<not> may_set_level con chan lvl s then
                          Some (permission_denied con s)
                        else if ISSERVER con s \<and> rest \<noteq> [] \<and> ch_timestamp (chn s chan) < atoi (hd rest) then
                          Some s
                        else Some (set_channel_level con sender chan lvl s))
               | _ \<Rightarrow> Some (tell_user con (''channel '' @ ch_name (chn s chan) @ '' is set to level '' @
                      Levels (ch_level (chn s chan))) s)))"

definition set_channel_limit :: "cid \<Rightarrow> nat \<Rightarrow> string \<Rightarrow> chid \<Rightarrow> int \<Rightarrow> srv \<Rightarrow> srv" where
  "set_channel_limit con tag sender chan limit s =
     (let s = upd_chan chan (\<lambda>C. C\<lparr>ch_limit := nat limit, ch_timestamp := s_time s\<rparr>) s;
          name = ch_name (chn s chan);
          s = pass_message_args (Some con) tag ('':'' @ sender @ '' '' @ name @ '' '' @ int_dec limit) s
      in notify_ops chan (sender @ '' set limit on channel '' @ name @ '' to '' @ int_dec limit) s)"

definition channel_limit :: "cid \<Rightarrow> nat \<Rightarrow> string \<Rightarrow> srv \<Rightarrow> srv" where
  "channel_limit con tag pkt s =
     (case pop_sender con pkt s of
        None \<Rightarrow> s
      | Some (sender, pkt) \<Rightarrow>
          (case next_arg pkt of
             (None, _) \<Rightarrow> unparsable con s
           | (Some chanName, pkt) \<Rightarrow>
               (case next_arg pkt of
                  (None, _) \<Rightarrow> unparsable con s
                | (Some slimit, pkt) \<Rightarrow>
                    let limit = atoi slimit in
                    if limit < 0 \<or> 65535 < limit then tell_user con ''invalid limit'' s
                    else case hash_lookup (s_Channels s) chanName of
                      None \<Rightarrow> nosuchchannel con s
                    | Some chan \<Rightarrow>
                        if int (ch_limit (chn s chan)) = limit then s
                        else if ISUSER con s \<and> u_level (usr s (c_user (cnx s con))) < LEVEL_MODERATOR \<and>
                                \<not> is_chanop chan (c_user (cnx s con)) s then
                          permission_denied con s
                        else if \<not> ISUSER con s \<and>
                                (case pkt of None \<Rightarrow> False | Some p \<Rightarrow> ch_timestamp (chn s chan) < atoi p) then s
                        else set_channel_limit con tag sender chan limit s)))"

lemmas [handler_defs] = join_def channel_level_def channel_limit_def

lemma wf_channel_level: "wf s \<Longrightarrow> channel_level con tag pkt s = Some s' \<Longrightarrow> wf s'"
  by (auto simp: channel_level_def set_channel_level_def Let_def intro!: wf_upd_chan
      split: option.splits if_splits list.splits)

lemma wf_channel_limit: "wf s \<Longrightarrow> wf (channel_limit con tag pkt s)"
  by (auto simp: channel_limit_def set_channel_limit_def Let_def intro!: wf_upd_chan
      split: option.splits if_splits prod.splits)

end
