(* ===== verification/ChanOps.thy ===== *)
theory ChanOps
  imports Join
begin

text \<open>
  Running a channel: the ban list, the operators, the modes, invitations, voice and muzzle of
  \<open>src/channel.c\<close>, and \<open>topic\<close> of \<open>src/topic.c\<close>.  The loops over the words of a packet
  (\<open>while (pkt)\<close> with \<open>next_arg\<close>) are recursive functions; each round leaves less of the packet.
\<close>

section \<open>Permission\<close>

text \<open>The test most of the handlers make; \<open>sender\<close> is \<open>None\<close> for a server.\<close>

definition may_operate :: "uid option \<Rightarrow> chid \<Rightarrow> srv \<Rightarrow> bool" where
  "may_operate sender chan s \<longleftrightarrow>
     (case sender of None \<Rightarrow> True
      | Some u \<Rightarrow> LEVEL_MODERATOR \<le> u_level (usr s u) \<or> is_chanop chan u s)"

section \<open>Channel bans\<close>

definition quoted_suffix :: "string option \<Rightarrow> string" where
  "quoted_suffix r = (case r of None \<Rightarrow> [] | Some t \<Rightarrow> CHR '' '' # dquote # t @ [dquote])"

definition add_channel_ban :: "cid \<Rightarrow> nat \<Rightarrow> string \<Rightarrow> chid \<Rightarrow> string \<Rightarrow> string option \<Rightarrow> srv \<Rightarrow> srv" where
  "add_channel_ban con tag sender chan target reason s =
     (let b = \<lparr>b_target = target, b_setby = sender, b_reason = reason, b_when = s_time s, b_timeout = 0\<rparr>;
          s = upd_chan chan (\<lambda>C. C\<lparr>ch_bans := b # ch_bans C\<rparr>) s;
          s = pass_message_args (Some con) tag ('':'' @ sender @ '' '' @ ch_name (chn s chan) @ '' '' @ target @
                quoted_suffix reason) s
      in notify_ops chan (sender @ '' banned '' @ target @ '' from '' @ ch_name (chn s chan) @ '': '' @
           nonull reason) s)"

definition channel_ban :: "cid \<Rightarrow> nat \<Rightarrow> string \<Rightarrow> srv \<Rightarrow> srv" where
  "channel_ban con tag pkt s =
     (case pop_user_server con pkt s of
        None \<Rightarrow> s
      | Some (pkt, sender, senderUser) \<Rightarrow>
          let av = get_args 3 pkt in
          if length av < 2 then unparsable con s
          else case hash_lookup (s_Channels s) (av ! 0) of
            None \<Rightarrow> nosuchchannel con s
          | Some chan \<Rightarrow>
              if \<not> may_operate senderUser chan s then permission_denied con s
              else
                let target = normalize_ban s (av ! 1) in
                if find_ban target (ch_bans (chn s chan)) \<noteq> None then s
                else add_channel_ban con tag sender chan target (if 2 < length av then Some (av ! 2) else None) s)"

definition drop_channel_ban :: "cid \<Rightarrow> nat \<Rightarrow> string \<Rightarrow> chid \<Rightarrow> string \<Rightarrow> ban \<Rightarrow> string option \<Rightarrow> srv \<Rightarrow> srv" where
  "drop_channel_ban con tag sender chan target b reason s =
     (let s = pass_message_args (Some con) tag ('':'' @ sender @ '' '' @ ch_name (chn s chan) @ '' '' @
                b_target b @ quoted_suffix reason) s;
          s = notify_ops chan (sender @ '' unbanned '' @ b_target b @ '' from '' @ ch_name (chn s chan) @
                '': '' @ nonull reason) s
      in upd_chan chan (\<lambda>C. C\<lparr>ch_bans := remove_ban target (ch_bans C)\<rparr>) s)"

definition channel_unban :: "cid \<Rightarrow> nat \<Rightarrow> string \<Rightarrow> srv \<Rightarrow> srv" where
  "channel_unban con tag pkt s =
     (case pop_user_server con pkt s of
        None \<Rightarrow> s
      | Some (pkt, sender, senderUser) \<Rightarrow>
          let av = get_args 3 pkt in
          if length av < 2 then unparsable con s
          else case hash_lookup (s_Channels s) (av ! 0) of
            None \<Rightarrow> nosuchchannel con s
          | Some chan \<Rightarrow>
              if \<not> may_operate senderUser chan s then permission_denied con s
              else
                let target = normalize_ban s (av ! 1) in
                (case find_ban target (ch_bans (chn s chan)) of
                   None \<Rightarrow> tell_user con ''no such ban'' s
                 | Some b \<Rightarrow> drop_channel_ban con tag sender chan target b
                               (if 2 < length av then Some (av ! 2) else None) s))"

definition channel_banlist :: "cid \<Rightarrow> nat \<Rightarrow> string \<Rightarrow> srv \<Rightarrow> srv" where
  "channel_banlist con tag pkt s =
     (if \<not> ISUSER con s then s
      else case hash_lookup (s_Channels s) pkt of
        None \<Rightarrow> nosuchchannel con s
      | Some chan \<Rightarrow>
          emit (map (\<lambda>b. (con, MSG_SERVER_CHANNEL_BAN_LIST,
                  form_message (b_target b @ '' '' @ b_setby b @ '' '' @ [dquote] @ nonull (b_reason b) @
                    [dquote] @ '' '' @ int_dec (wrap32 (b_when b)) @ '' '' @ int_dec (b_timeout b))))
                (ch_bans (chn s chan)) @ [(con, tag, [])]) s)"

definition channel_clear_bans :: "cid \<Rightarrow> nat \<Rightarrow> string \<Rightarrow> srv \<Rightarrow> srv" where
  "channel_clear_bans con tag pkt s =
     (case pop_user con pkt s of
        None \<Rightarrow> s
      | Some (None, sender) \<Rightarrow> unparsable con s
      | Some (Some pkt, sender) \<Rightarrow>
          (case hash_lookup (s_Channels s) pkt of
             None \<Rightarrow> nosuchchannel con s
           | Some chan \<Rightarrow>
               if chan \<notin> set (u_channels (usr s sender)) then
                 tell_user con ''You are not on that channel'' s
               else if \<not> may_operate (Some sender) chan s then permission_denied con s
               else
                 let nick = u_nick (usr s sender);
                     name = ch_name (chn s chan);
                     s = pass_message_args (Some con) tag ('':'' @ nick @ '' '' @ name) s
                 in if ch_bans (chn s chan) = [] then tell_user con ''There are no bans'' s
                    else notify_ops chan (nick @ '' cleared the ban list on '' @ name)
                           (upd_chan chan (\<lambda>C. C\<lparr>ch_bans := []\<rparr>) s)))"

section \<open>Operators\<close>

text \<open>Assignments to the flags of one member.\<close>

fun map_member :: "uid \<Rightarrow> (32 word \<Rightarrow> 32 word) \<Rightarrow> chanuser list \<Rightarrow> chanuser list" where
  "map_member user f [] = []"
| "map_member user f (cu # us) =
     (if cu_user cu = user then cu\<lparr>cu_flags := f (cu_flags cu)\<rparr> # us else cu # map_member user f us)"

definition set_member :: "chid \<Rightarrow> uid \<Rightarrow> (32 word \<Rightarrow> 32 word) \<Rightarrow> srv \<Rightarrow> srv" where
  "set_member chan user f s = upd_chan chan (\<lambda>C. C\<lparr>ch_users := map_member user f (ch_users C)\<rparr>) s"

fun remove_op :: "string \<Rightarrow> string list \<Rightarrow> string list" where
  "remove_op nick [] = []"
| "remove_op nick (o1 # os) = (if strcaseeq o1 nick then os else o1 # remove_op nick os)"

text \<open>The part of \<open>channel_op\<close> for a present user that is an operator no longer.\<close>

definition deop_member :: "string \<Rightarrow> chid \<Rightarrow> string \<Rightarrow> srv \<Rightarrow> srv" where
  "deop_member sender chan suser s =
     (case hash_lookup (s_Users s) suser of
        None \<Rightarrow> s
      | Some user \<Rightarrow>
          if find_chanuser (ch_users (chn s chan)) user = None then s
          else
            let name = ch_name (chn s chan);
                s = (if ISUSER (user_con s user) s then
                       send_cmd (user_con s user) MSG_SERVER_NOSUCH
                         (sender @ '' removed you as operator on channel '' @ name) s
                     else s);
                s = set_member chan user (\<lambda>f. f AND NOT ON_OPERATOR) s
            in notify_ops chan (sender @ '' removed '' @ u_nick (usr s user) @ '' as operator on channel '' @
                 name) s)"

definition op_member :: "string \<Rightarrow> chid \<Rightarrow> string \<Rightarrow> srv \<Rightarrow> srv" where
  "op_member sender chan suser s =
     (case hash_lookup (s_Users s) suser of
        None \<Rightarrow> s
      | Some user \<Rightarrow>
          if find_chanuser (ch_users (chn s chan)) user = None then s
          else
            let name = ch_name (chn s chan);
                s = (if ISUSER (user_con s user) s then
                       send_cmd (user_con s user) MSG_SERVER_NOSUCH
                         (sender @ '' set you as operator on channel '' @ name) s
                     else s);
                s = notify_ops chan (sender @ '' set '' @ suser @ '' as operator on channel '' @ name) s
            in set_member chan user (\<lambda>f. f OR ON_OPERATOR) s)"

text \<open>One round of the loop over the nicknames.\<close>

definition op_one :: "cid \<Rightarrow> nat \<Rightarrow> string \<Rightarrow> chid \<Rightarrow> string \<Rightarrow> srv \<Rightarrow> srv" where
  "op_one con tag sender chan suser s =
     (if invalid_nick s suser then invalid_nick_msg con s
      else if list_ex (\<lambda>n. strcaseeq n suser) (ch_ops (chn s chan)) then
        (if tag = MSG_CLIENT_DEOP then
           deop_member sender chan suser
             (upd_chan chan (\<lambda>C. C\<lparr>ch_ops := remove_op suser (ch_ops C)\<rparr>) s)
         else s)
      else if tag = MSG_CLIENT_OP then
        upd_chan chan (\<lambda>C. C\<lparr>ch_flags := ch_flags C AND NOT ON_CHANNEL_USER\<rparr>)
          (op_member sender chan suser
            (upd_chan chan (\<lambda>C. C\<lparr>ch_ops := ch_ops C @ [suser]\<rparr>) s))
      else s)"

text \<open>The words of a packet, as repeated \<open>next_arg\<close> gives them.\<close>

function next_args :: "string option \<Rightarrow> string list" where
  "next_args None = []"
| "next_args (Some p) =
     (case next_arg (Some p) of
        (None, _) \<Rightarrow> []
      | (Some w, r) \<Rightarrow> w # next_args r)"
  by pat_completeness auto
termination
  by (relation "measure (\<lambda>p. case p of None \<Rightarrow> 0 | Some t \<Rightarrow> Suc (length t))")
    (auto dest: next_arg_shorter [OF sym] split: option.split)

definition channel_op :: "cid \<Rightarrow> nat \<Rightarrow> string \<Rightarrow> srv \<Rightarrow> srv" where
  "channel_op con tag pkt s =
     (case pop_user_server con pkt s of
        None \<Rightarrow> s
      | Some (pkt, sender, senderUser) \<Rightarrow>
          if \<not> mod_sender senderUser s then permission_denied con s
          else case next_arg pkt of
            (Some schan, Some p) \<Rightarrow>
              (case hash_lookup (s_Channels s) schan of
                 None \<Rightarrow> nosuchchannel con s
               | Some chan \<Rightarrow>
                   fold (op_one con tag sender chan) (next_args (Some p))
                     (pass_message_args (Some con) tag
                       ('':'' @ sender @ '' '' @ ch_name (chn s chan) @ '' '' @ p) s))
          | _ \<Rightarrow> unparsable con s)"

definition channel_op_list :: "cid \<Rightarrow> nat \<Rightarrow> string \<Rightarrow> srv \<Rightarrow> srv" where
  "channel_op_list con tag pkt s =
     (if \<not> ISUSER con s then s
      else case hash_lookup (s_Channels s) pkt of
        None \<Rightarrow> nosuchchannel con s
      | Some chan \<Rightarrow>
          if \<not> may_operate (Some (c_user (cnx s con))) chan s then permission_denied con s
          else
            let name = ch_name (chn s chan); ops = ch_ops (chn s chan) in
            emit ((con, MSG_CLIENT_PRIVMSG, form_message (''ChanServ Operators for channel '' @ name @ '':'')) #
                  map (\<lambda>o1. (con, MSG_CLIENT_PRIVMSG, form_message (''ChanServ '' @ o1))) ops @
                  [(con, MSG_CLIENT_PRIVMSG, form_message (''ChanServ END of operators for channel '' @ name @
                     '' ('' @ nat_dec (length ops) @ '' total)''))]) s)"

definition drop_channel :: "chid \<Rightarrow> srv \<Rightarrow> srv" where
  "drop_channel chan s =
     (if ch_users (chn s chan) = [] then channels_remove (ch_name (chn s chan)) s
      else upd_chan chan (\<lambda>C. C\<lparr>ch_flags := ch_flags C OR ON_CHANNEL_USER\<rparr>) s)"

definition channel_drop :: "cid \<Rightarrow> nat \<Rightarrow> string \<Rightarrow> srv \<Rightarrow> srv" where
  "channel_drop con tag pkt s =
     (case pop_user con pkt s of
        None \<Rightarrow> s
      | Some (pkt, sender) \<Rightarrow>
          let av = get_args 2 pkt in
          if length av < 1 then unparsable con s
          else case hash_lookup (s_Channels s) (av ! 0) of
            None \<Rightarrow> nosuchchannel con s
          | Some chan \<Rightarrow>
              let name = ch_name (chn s chan); nick = u_nick (usr s sender) in
              if ch_flags (chn s chan) AND ON_CHANNEL_USER \<noteq> 0 then
                tell_user con (''channel '' @ name @ '' is not registered'') s
              else if u_level (usr s sender) < LEVEL_MODERATOR \<or> u_level (usr s sender) < ch_level (chn s chan) then
                permission_denied con s
              else
                let reason = (if 1 < length av then av ! 1 else []) in
                drop_channel chan (notify_ops chan (nick @ '' dropped channel '' @ name @ '': '' @ reason)
                  (pass_message_args (Some con) tag
                    ('':'' @ nick @ '' '' @ name @ '' '' @ [dquote] @ reason @ [dquote]) s)))"

definition channel_wallop :: "cid \<Rightarrow> nat \<Rightarrow> string \<Rightarrow> srv \<Rightarrow> srv" where
  "channel_wallop con tag pkt s =
     (case pop_user con pkt s of
        None \<Rightarrow> s
      | Some (pkt, sender) \<Rightarrow>
          if u_muzzled (usr s sender) then tell_user con ''channel wallop failed: you are muzzled'' s
          else case next_arg pkt of
            (Some chanName, Some p) \<Rightarrow>
              (case hash_lookup (s_Channels s) chanName of
                 None \<Rightarrow> invalid_channel_msg con s
               | Some chan \<Rightarrow>
                   if \<not> may_operate (Some sender) chan s then permission_denied con s
                   else
                     let nick = u_nick (usr s sender); name = ch_name (chn s chan) in
                     notify_ops chan (nick @ '' [ops/'' @ name @ '']: '' @ p)
                       (pass_message_args (Some con) tag ('':'' @ nick @ '' '' @ name @ '' '' @ p) s))
          | _ \<Rightarrow> unparsable con s)"

section \<open>Modes\<close>

abbreviation all_modes :: "(string \<times> 32 word) list" where
  "all_modes \<equiv> [(''PRIVATE'', ON_CHANNEL_PRIVATE), (''MODERATED'', ON_CHANNEL_MODERATED),
     (''INVITE'', ON_CHANNEL_INVITE), (''TOPIC'', ON_CHANNEL_TOPIC)]"

definition mode_bit :: "string \<Rightarrow> 32 word option" where
  "mode_bit name =
     (if strcaseeq ''PRIVATE'' name then Some ON_CHANNEL_PRIVATE
      else if strcaseeq ''MODERATED'' name then Some ON_CHANNEL_MODERATED
      else if strcaseeq ''INVITE'' name then Some ON_CHANNEL_INVITE
      else if strcaseeq ''TOPIC'' name then Some ON_CHANNEL_TOPIC
      else None)"

text \<open>
  One round of the loop over the mode words: the flags of the channel, \<open>onmask\<close> and \<open>offmask\<close>, and
  the message to the client, if any.  (For an empty quoted word the code reads the byte behind its
  NUL; here the name of the mode is empty then.)
\<close>

record mode_state =
  m_flags :: "32 word"
  m_on :: "32 word"
  m_off :: "32 word"

definition mode_step :: "string \<Rightarrow> mode_state \<Rightarrow> mode_state \<times> string option" where
  "mode_step arg m =
     (case mode_bit (tl arg) of
        None \<Rightarrow> (m, Some (''invalid channel mode: '' @ tl arg))
      | Some bt \<Rightarrow>
          if hd arg = CHR ''+'' then
            (let on = m_on m OR bt; off = m_off m AND NOT bt in
             if m_flags m AND bt = 0 then (\<lparr>m_flags = m_flags m OR bt, m_on = on, m_off = off\<rparr>, None)
             else (\<lparr>m_flags = m_flags m, m_on = on AND NOT bt, m_off = off\<rparr>, None))
          else if hd arg = CHR ''-'' then
            (let off = m_off m OR bt; on = m_on m AND NOT bt in
             if m_flags m AND bt \<noteq> 0 then
               (\<lparr>m_flags = m_flags m AND NOT bt, m_on = on, m_off = off\<rparr>, None)
             else (\<lparr>m_flags = m_flags m, m_on = on, m_off = off AND NOT bt\<rparr>, None))
          else (m, Some (''invalid prefix for channel mode '' @ tl arg @ '': '' @ [hd arg])))"

fun mode_words :: "string list \<Rightarrow> mode_state \<Rightarrow> mode_state \<times> string list" where
  "mode_words [] m = (m, [])"
| "mode_words (w # ws) m =
     (case mode_step w m of
        (m, None) \<Rightarrow> mode_words ws m
      | (m, Some e) \<Rightarrow> (case mode_words ws m of (m, es) \<Rightarrow> (m, e # es)))"

text \<open>\<open>add_flag\<close> appends to a buffer of 512 bytes, which the four flags never fill.\<close>

definition add_flag :: "string \<Rightarrow> string \<times> 32 word \<Rightarrow> 32 word \<Rightarrow> 32 word \<Rightarrow> string" where
  "add_flag d nb on off =
     (if on AND snd nb \<noteq> 0 \<or> off AND snd nb \<noteq> 0 then
        d @ '' '' @ (if on AND snd nb \<noteq> 0 then ''+'' else ''-'') @ fst nb
      else d)"

definition mode_text :: "32 word \<Rightarrow> 32 word \<Rightarrow> string" where
  "mode_text on off = foldl (\<lambda>d nb. add_flag d nb on off) [] all_modes"

definition announce_mode :: "cid \<Rightarrow> nat \<Rightarrow> string \<Rightarrow> chid \<Rightarrow> mode_state \<Rightarrow> srv \<Rightarrow> srv" where
  "announce_mode con tag senderName chan m s =
     (if m_on m \<noteq> 0 \<or> m_off m \<noteq> 0 then
        let s = upd_chan chan (\<lambda>C. C\<lparr>ch_timestamp := s_time s\<rparr>) s;
            name = ch_name (chn s chan);
            msg = mode_text (m_on m) (m_off m)
        in pass_message_args (Some con) tag ('':'' @ senderName @ '' '' @ name @ '' '' @ msg)
             (notify_ops chan (senderName @ '' changed mode on channel '' @ name @ '':'' @ msg) s)
      else s)"

definition show_mode :: "cid \<Rightarrow> nat \<Rightarrow> chid \<Rightarrow> srv \<Rightarrow> srv" where
  "show_mode con tag chan s =
     (if ISUSER con s then
        send_cmd_pre con tag ''mode for channel ''
          (ch_name (chn s chan) @
           (if ch_flags (chn s chan) AND ON_CHANNEL_PRIVATE \<noteq> 0 then '' +PRIVATE'' else []) @
           (if ch_flags (chn s chan) AND ON_CHANNEL_MODERATED \<noteq> 0 then '' +MODERATED'' else []) @
           (if ch_flags (chn s chan) AND ON_CHANNEL_INVITE \<noteq> 0 then '' +INVITE'' else []) @
           (if ch_flags (chn s chan) AND ON_CHANNEL_TOPIC \<noteq> 0 then '' +TOPIC'' else [])) s
      else s)"

definition change_mode :: "cid \<Rightarrow> nat \<Rightarrow> string \<Rightarrow> chid \<Rightarrow> string list \<Rightarrow> srv \<Rightarrow> srv" where
  "change_mode con tag senderName chan ws s =
     (case mode_words ws \<lparr>m_flags = ch_flags (chn s chan), m_on = 0, m_off = 0\<rparr> of
        (m, errs) \<Rightarrow>
          announce_mode con tag senderName chan m
            (upd_chan chan (\<lambda>C. C\<lparr>ch_flags := m_flags m\<rparr>) (fold (tell_user con) errs s)))"

definition channel_mode :: "cid \<Rightarrow> nat \<Rightarrow> string \<Rightarrow> srv \<Rightarrow> srv" where
  "channel_mode con tag pkt s =
     (case pop_user_server con pkt s of
        None \<Rightarrow> s
      | Some (pkt, senderName, sender) \<Rightarrow>
          (case next_arg pkt of
             (None, _) \<Rightarrow> unparsable con s
           | (Some chanName, pkt) \<Rightarrow>
               (case hash_lookup (s_Channels s) chanName of
                  None \<Rightarrow> nosuchchannel con s
                | Some chan \<Rightarrow>
                    if (case sender of None \<Rightarrow> False | Some u \<Rightarrow> u_level (usr s u) < ch_level (chn s chan)) \<or>
                       \<not> may_operate sender chan s then permission_denied con s
                    else case pkt of
                      None \<Rightarrow> show_mode con tag chan s
                    | Some p \<Rightarrow> change_mode con tag senderName chan (next_args (Some p)) s)))"

section \<open>Invitations\<close>

definition add_invite :: "uid \<Rightarrow> chid \<Rightarrow> srv \<Rightarrow> srv" where
  "add_invite user chan s =
     upd_chan chan (\<lambda>C. C\<lparr>ch_invited := user # ch_invited C\<rparr>)
       (upd_user user (\<lambda>U. U\<lparr>u_invited := chan # u_invited U\<rparr>) s)"

definition invite_notice :: "cid \<Rightarrow> nat \<Rightarrow> uid \<Rightarrow> uid \<Rightarrow> chid \<Rightarrow> srv \<Rightarrow> srv" where
  "invite_notice con tag sender user chan s =
     (let name = ch_name (chn s chan);
          nick = u_nick (usr s sender);
          c = user_con s user;
          s = pass_message_args (Some con) tag ('':'' @ nick @ '' '' @ name @ '' '' @ u_nick (usr s user)) s;
          s = (if ISUSER c s then
                 (if c_numerics (cnx s c) then send_cmd c tag (name @ '' '' @ nick) s
                  else send_cmd c MSG_SERVER_NOSUCH (nick @ '' invited you to channel '' @ name) s)
               else s)
      in notify_ops chan (nick @ '' invited '' @ u_nick (usr s user) @ '' to channel '' @ name) s)"

definition channel_invite :: "cid \<Rightarrow> nat \<Rightarrow> string \<Rightarrow> srv \<Rightarrow> srv" where
  "channel_invite con tag pkt s =
     (case pop_user con pkt s of
        None \<Rightarrow> s
      | Some (pkt, sender) \<Rightarrow>
          let av = get_args 2 pkt in
          if length av < 2 then unparsable con s
          else case hash_lookup (s_Channels s) (av ! 0) of
            None \<Rightarrow> nosuchchannel con s
          | Some chan \<Rightarrow>
              if ch_flags (chn s chan) AND ON_CHANNEL_INVITE = 0 then
                tell_user con ''channel is not invite only'' s
              else if u_level (usr s sender) < ch_level (chn s chan) then permission_denied con s
              else if \<not> is_member chan sender s then permission_denied con s
              else case hash_lookup (s_Users s) (av ! 1) of
                None \<Rightarrow> nosuchuser con s
              | Some user \<Rightarrow>
                  if is_member chan user s then tell_user con ''user is already in channel'' s
                  else if chan \<in> set (u_invited (usr s user)) then s
                  else invite_notice con tag sender user chan (add_invite user chan s))"

section \<open>Voice and muzzle\<close>

definition list_voiced :: "cid \<Rightarrow> chid \<Rightarrow> srv \<Rightarrow> srv" where
  "list_voiced con chan s =
     (if ISUSER con s then
        let name = ch_name (chn s chan) in
        emit ((con, MSG_CLIENT_PRIVMSG, form_message (''ChanServ Voiced users on channel '' @ name)) #
              [(con, MSG_CLIENT_PRIVMSG, form_message (''ChanServ '' @ u_nick (usr s (cu_user cu)))).
                 cu \<leftarrow> ch_users (chn s chan), cu_flags cu AND ON_CHANNEL_VOICE \<noteq> 0] @
              [(con, MSG_CLIENT_PRIVMSG, form_message (''ChanServ End of voiced users on channel '' @ name))]) s
      else s)"

definition shown_sender :: "string \<Rightarrow> uid option \<Rightarrow> srv \<Rightarrow> string" where
  "shown_sender senderName sender s =
     (case sender of
        None \<Rightarrow> senderName
      | Some u \<Rightarrow> if u_cloaked (usr s u) then ''Operator'' else senderName)"

definition voice_flags :: "nat \<Rightarrow> 32 word \<Rightarrow> 32 word" where
  "voice_flags tag f =
     (if tag = MSG_CLIENT_CHANNEL_UNVOICE then f AND NOT ON_CHANNEL_VOICE
      else (f OR ON_CHANNEL_VOICE) AND NOT ON_CHANNEL_MUZZLED)"

definition voice_one :: "cid \<Rightarrow> nat \<Rightarrow> string \<Rightarrow> uid option \<Rightarrow> chid \<Rightarrow> string \<Rightarrow> srv \<Rightarrow> srv" where
  "voice_one con tag senderName sender chan nick s =
     (case hash_lookup (s_Users s) nick of
        None \<Rightarrow> tell_user con (''channel voice: '' @ nick @ '' is not online'') s
      | Some user \<Rightarrow>
          let name = ch_name (chn s chan) in
          (case find_chanuser (ch_users (chn s chan)) user of
             None \<Rightarrow> tell_user con (''channel voice: '' @ u_nick (usr s user) @ '' is not on channel '' @ name) s
           | Some cu \<Rightarrow>
               let s = set_member chan user (voice_flags tag) s;
                   s = (if ISUSER (user_con s user) s then
                          send_cmd (user_con s user) MSG_SERVER_NOSUCH
                            (shown_sender senderName sender s @ '' '' @
                             (if voice_flags tag (cu_flags cu) AND ON_CHANNEL_VOICE \<noteq> 0 then ''gave you''
                              else ''removed your'') @ '' voice on channel '' @ name) s
                        else s)
               in notify_ops chan (senderName @ '' '' @
                    (if tag = MSG_CLIENT_CHANNEL_VOICE then ''gave'' else ''removed'') @ '' voice '' @
                    (if tag = MSG_CLIENT_CHANNEL_VOICE then ''to'' else ''from'') @ '' '' @
                    u_nick (usr s user) @ '' on channel '' @ name) s))"

definition channel_voice :: "cid \<Rightarrow> nat \<Rightarrow> string \<Rightarrow> srv \<Rightarrow> srv" where
  "channel_voice con tag pkt s =
     (case pop_user_server con pkt s of
        None \<Rightarrow> s
      | Some (pkt, senderName, sender) \<Rightarrow>
          (case next_arg pkt of
             (None, _) \<Rightarrow> unparsable con s
           | (Some chanName, pkt) \<Rightarrow>
               (case hash_lookup (s_Channels s) chanName of
                  None \<Rightarrow> nosuchchannel con s
                | Some chan \<Rightarrow>
                    (case pkt of
                       None \<Rightarrow> list_voiced con chan s
                     | Some p \<Rightarrow>
                         if \<not> may_operate sender chan s then permission_denied con s
                         else fold (voice_one con tag senderName sender chan) (next_args (Some p))
                                (pass_message_args (Some con) tag
                                  ('':'' @ senderName @ '' '' @ ch_name (chn s chan) @ '' '' @ p) s)))))"

definition muzzle_flags :: "nat \<Rightarrow> 32 word \<Rightarrow> 32 word" where
  "muzzle_flags tag f =
     (if tag = MSG_CLIENT_CHANNEL_MUZZLE then (f OR ON_CHANNEL_MUZZLED) AND NOT ON_CHANNEL_VOICE
      else f AND NOT ON_CHANNEL_MUZZLED)"

definition muzzle_member :: "nat \<Rightarrow> string \<Rightarrow> uid option \<Rightarrow> chid \<Rightarrow> uid \<Rightarrow> string \<Rightarrow> srv \<Rightarrow> srv" where
  "muzzle_member tag senderName sender chan user reason s =
     (case find_chanuser (ch_users (chn s chan)) user of
        None \<Rightarrow> s
      | Some cu \<Rightarrow>
          let name = ch_name (chn s chan);
              un = (if muzzle_flags tag (cu_flags cu) AND ON_CHANNEL_MUZZLED \<noteq> 0 then [] else ''un'');
              s = set_member chan user (muzzle_flags tag) s;
              s = (if ISUSER (user_con s user) s then
                     send_cmd (user_con s user) MSG_SERVER_NOSUCH
                       (shown_sender senderName sender s @ '' '' @ un @ ''muzzled you on channel '' @ name @
                        '': '' @ reason) s
                   else s)
          in notify_ops chan (senderName @ '' '' @ un @ ''muzzled '' @ u_nick (usr s user) @ '' on channel '' @
               name @ '': '' @ reason) s)"

definition may_muzzle :: "uid option \<Rightarrow> uid \<Rightarrow> srv \<Rightarrow> bool" where
  "may_muzzle sender user s \<longleftrightarrow>
     (case sender of None \<Rightarrow> True
      | Some u \<Rightarrow> u_level (usr s u) = LEVEL_ELITE \<or> u_level (usr s user) \<le> u_level (usr s u))"

definition channel_muzzle :: "cid \<Rightarrow> nat \<Rightarrow> string \<Rightarrow> srv \<Rightarrow> srv" where
  "channel_muzzle con tag pkt s =
     (case pop_user_server con pkt s of
        None \<Rightarrow> s
      | Some (pkt, senderName, sender) \<Rightarrow>
          let av = get_args 3 pkt in
          if length av < 2 then unparsable con s
          else case hash_lookup (s_Channels s) (av ! 0) of
            None \<Rightarrow> nosuchchannel con s
          | Some chan \<Rightarrow>
              if \<not> may_operate sender chan s then permission_denied con s
              else case hash_lookup (s_Users s) (av ! 1) of
                None \<Rightarrow> nosuchuser con s
              | Some user \<Rightarrow>
                  if \<not> may_muzzle sender user s then permission_denied con s
                  else
                    let reason = (if 2 < length av then av ! 2 else []);
                        s = muzzle_member tag senderName sender chan user reason s
                    in pass_message_args (Some con) tag
                         ('':'' @ senderName @ '' '' @ ch_name (chn s chan) @ '' '' @ u_nick (usr s user) @
                          '' '' @ [dquote] @ reason @ [dquote]) s)"

section \<open>The topic\<close>

definition clean_topic :: "srv \<Rightarrow> string \<Rightarrow> string" where
  "clean_topic s p =
     map (\<lambda>c. if c = CHR 0x0D \<or> c = CHR 0x0A then CHR '' '' else c) (truncate_to (Max_Topic (s_cfg s)) p)"

definition set_topic :: "cid \<Rightarrow> nat \<Rightarrow> string \<Rightarrow> chid \<Rightarrow> string \<Rightarrow> srv \<Rightarrow> srv" where
  "set_topic con tag nick chan p s =
     (let new = clean_topic s p;
          name = ch_name (chn s chan);
          s = upd_chan chan (\<lambda>C. C\<lparr>ch_topic := new\<rparr>) s;
          s = pass_message_args (Some con) tag ('':'' @ nick @ '' '' @ name @ '' '' @ new) s;
          s = emit [(user_con s (cu_user cu), tag, form_message (name @ '' '' @ new)).
                      cu \<leftarrow> ch_users (chn s chan), u_local (usr s (cu_user cu))] s
      in notify_ops chan (nick @ '' set topic on '' @ name @ '': '' @ new) s)"

text \<open>The refusal a user gets, \<open>None\<close> when it may change the topic.\<close>

definition topic_refused :: "cid \<Rightarrow> chid \<Rightarrow> srv \<Rightarrow> string option" where
  "topic_refused con chan s =
     (let me = c_user (cnx s con) in
      if \<not> ISUSER con s then None
      else if u_level (usr s me) < ch_level (chn s chan) then Some ''permission denied''
      else if LEVEL_MODERATOR \<le> u_level (usr s me) then None
      else if chan \<notin> set (u_channels (usr s me)) then
        Some (''topic change failed: you are not on channel '' @ ch_name (chn s chan))
      else if ch_flags (chn s chan) AND ON_CHANNEL_TOPIC = 0 \<and> \<not> is_chanop chan me s then
        Some ''topic change failed: permission denied''
      else None)"

text \<open>
  A server's packet is read from its second character on, whatever the first one is (an empty
  packet, where the code reads past the NUL, is taken as one without fields).
\<close>

definition topic :: "cid \<Rightarrow> nat \<Rightarrow> string \<Rightarrow> srv \<Rightarrow> srv" where
  "topic con tag pkt s =
     (let (nick, pkt) = (if ISSERVER con s then next_arg (Some (tl pkt))
                         else (Some (u_nick (usr s (c_user (cnx s con)))), Some pkt)) in
      case pkt of
        None \<Rightarrow> s
      | Some p \<Rightarrow>
          (case next_arg (Some p) of
             (None, _) \<Rightarrow> s
           | (Some chanName, rest) \<Rightarrow>
               (case hash_lookup (s_Channels s) chanName of
                  None \<Rightarrow> nosuchchannel con s
                | Some chan \<Rightarrow>
                    (case rest of
                       None \<Rightarrow>
                         if ISUSER con s then
                           send_cmd con tag (ch_name (chn s chan) @ '' '' @ ch_topic (chn s chan)) s
                         else s
                     | Some new \<Rightarrow>
                         (case topic_refused con chan s of
                            Some msg \<Rightarrow> send_cmd con MSG_SERVER_NOSUCH msg s
                          | None \<Rightarrow> set_topic con tag (nonull nick) chan new s)))))"

lemmas [handler_defs] = channel_ban_def channel_unban_def channel_banlist_def channel_clear_bans_def
  channel_op_def channel_op_list_def channel_drop_def channel_wallop_def channel_mode_def channel_invite_def
  channel_voice_def channel_muzzle_def topic_def

section \<open>The invariant is kept\<close>

lemma map_member_users [simp]: "map cu_user (map_member u f us) = map cu_user us"
  by (induction us) auto

lemma wf_set_member [simp]: "wf s \<Longrightarrow> wf (set_member c u f s)"
  unfolding set_member_def by (rule wf_upd_chan) simp_all

lemma set_member_frame [simp]:
  "s_users (set_member c u f s) = s_users s" "s_conns (set_member c u f s) = s_conns s"
  "s_Users (set_member c u f s) = s_Users s" "ISUSER d (set_member c u f s) = ISUSER d s"
  "ISSERVER d (set_member c u f s) = ISSERVER d s"
  by (simp_all add: set_member_def)

lemma wf_channel_ban: "wf s \<Longrightarrow> wf (channel_ban con tag pkt s)"
  by (auto simp: channel_ban_def add_channel_ban_def Let_def intro!: wf_upd_chan split: option.split prod.split)

lemma wf_channel_unban: "wf s \<Longrightarrow> wf (channel_unban con tag pkt s)"
  by (auto simp: channel_unban_def drop_channel_ban_def Let_def intro!: wf_upd_chan split: option.split prod.split)

lemma wf_channel_banlist: "wf s \<Longrightarrow> wf (channel_banlist con tag pkt s)"
  by (auto simp: channel_banlist_def split: option.split)

lemma wf_channel_clear_bans: "wf s \<Longrightarrow> wf (channel_clear_bans con tag pkt s)"
  by (auto simp: channel_clear_bans_def Let_def intro!: wf_upd_chan split: option.split prod.split)

lemma wf_deop_member: "wf s \<Longrightarrow> wf (deop_member sender c n s)"
  by (auto simp: deop_member_def Let_def split: option.split)

lemma wf_op_member: "wf s \<Longrightarrow> wf (op_member sender c n s)"
  by (auto simp: op_member_def Let_def split: option.split)

lemma wf_op_one: "wf s \<Longrightarrow> wf (op_one con tag sender c n s)"
  by (auto simp: op_one_def intro!: wf_upd_chan wf_deop_member wf_op_member)

lemma wf_channel_op: "wf s \<Longrightarrow> wf (channel_op con tag pkt s)"
  by (auto simp: channel_op_def intro!: fold_invariant_all [where P = wf] wf_op_one
      split: option.split prod.split)

lemma wf_channel_op_list: "wf s \<Longrightarrow> wf (channel_op_list con tag pkt s)"
  by (auto simp: channel_op_list_def Let_def split: option.split)

lemma wf_drop_channel: "wf s \<Longrightarrow> c \<in> dom (s_chans s) \<Longrightarrow> wf (drop_channel c s)"
  using wf_channels_remove(1) [OF _ _ _ refl, of "{}" s c]
  by (auto simp: drop_channel_def intro!: wf_upd_chan)

lemma wf_channel_drop: "wf s \<Longrightarrow> wf (channel_drop con tag pkt s)"
  by (auto simp: channel_drop_def Let_def simp del: domIff intro!: wf_drop_channel dest: wf_lookup_chan_dom
      split: option.split prod.split)

lemma wf_channel_wallop: "wf s \<Longrightarrow> wf (channel_wallop con tag pkt s)"
  by (auto simp: channel_wallop_def Let_def split: option.split prod.split)

lemma wf_announce_mode: "wf s \<Longrightarrow> wf (announce_mode con tag n c m s)"
  by (auto simp: announce_mode_def Let_def intro!: wf_upd_chan)

lemma wf_change_mode: "wf s \<Longrightarrow> wf (change_mode con tag n c ws s)"
  by (auto simp: change_mode_def intro!: wf_announce_mode wf_upd_chan fold_invariant_all [where P = wf]
      split: prod.split)

lemma wf_channel_mode: "wf s \<Longrightarrow> wf (channel_mode con tag pkt s)"
  by (auto simp: channel_mode_def show_mode_def intro!: wf_change_mode split: option.split prod.split)

lemma wf_add_invite:
  assumes w: "wf s" and "u \<in> dom (s_users s)" "c \<in> dom (s_chans s)" "\<not> invd s u c"
  shows "wf (add_invite u c s)"
proof -
  let ?t = "add_invite u c s"
  note L = links_okD [OF wf_uptoD(1) [OF w]]
  obtain U C where UC: "s_users s u = Some U" "s_chans s c = Some C" using assms(2,3) by auto
  have users: "s_users ?t v = (if v = u then Some (U\<lparr>u_invited := c # u_invited U\<rparr>) else s_users s v)" for v
    by (simp add: add_invite_def UC)
  have chans: "s_chans ?t d = (if d = c then Some (C\<lparr>ch_invited := u # ch_invited C\<rparr>) else s_chans s d)" for d
    by (simp add: add_invite_def UC)
  have m: "memb ?t = memb s" "inch ?t = inch s"
    using UC by (auto simp: memb_def inch_def fun_eq_iff users chans)
  have g: "inviting ?t d v \<longleftrightarrow> inviting s d v \<or> (d = c \<and> v = u)" "invd ?t v d \<longleftrightarrow> invd s v d \<or> (d = c \<and> v = u)" for d v
    using UC by (auto simp: inviting_def invd_def users chans)
  have new: "c \<notin> set (u_invited U)" "u \<notin> set (ch_invited C)"
    using assms(4) L(8) [of u c] UC by (auto simp: invd_def inviting_def)
  have d: "dom (s_users ?t) = dom (s_users s)" using UC by (auto simp: dom_def users)
  have "links_ok {} ?t"
  proof (rule links_okI)
    show "distinct (u_channels V) \<and> distinct (u_invited V)" if "s_users ?t v = Some V" for v V
      using that L(1,2) new UC by (auto simp: users split: if_splits)
    show "distinct (map cu_user (ch_users D)) \<and> distinct (ch_invited D)" if "s_chans ?t e = Some D" for e D
      using that L(3,4) new UC by (auto simp: chans split: if_splits)
    show "v \<in> dom (s_users ?t)" if "memb ?t e v \<or> inviting ?t e v" for e v
      using that L(5,6) assms(2) unfolding m g d by blast
  qed (use L(7,8) in \<open>auto simp: m g\<close>)
  moreover have "chan_table_ok ?t" "user_table_ok {} ?t" "conn_ok {} ?t"
    by (rule chan_table_ok_names [OF w] users_ok_keys [OF w];
        simp add: add_invite_def user_key_def [abs_def] option.map_comp comp_def)+
  ultimately show ?thesis by (intro wf_uptoI)
qed

lemma invite_notice_frame [simp]: "wf_upto X (invite_notice con tag a u c s) = wf_upto X s"
  by (simp add: invite_notice_def Let_def)

lemma wf_channel_invite: "wf s \<Longrightarrow> wf (channel_invite con tag pkt s)"
proof -
  assume w: "wf s"
  have "wf (add_invite u c s)"
    if "hash_lookup (s_Users s) n = Some u" "hash_lookup (s_Channels s) k = Some c" "c \<notin> set (u_invited (usr s u))"
    for u c n k
    using that(3) by (intro wf_add_invite [OF w] wf_lookup_user_dom [OF w that(1)] wf_lookup_chan_dom [OF w that(2)])
      (auto simp: invd_def)
  then show ?thesis using w by (auto simp: channel_invite_def Let_def split: option.split prod.split)
qed

lemma wf_voice_one: "wf s \<Longrightarrow> wf (voice_one con tag n sender c k s)"
  by (auto simp: voice_one_def Let_def split: option.split)

lemma wf_channel_voice: "wf s \<Longrightarrow> wf (channel_voice con tag pkt s)"
  by (auto simp: channel_voice_def list_voiced_def Let_def intro!: fold_invariant_all [where P = wf] wf_voice_one
      split: option.split prod.split)

lemma wf_muzzle_member: "wf s \<Longrightarrow> wf (muzzle_member tag n sender c u r s)"
  by (auto simp: muzzle_member_def Let_def split: option.split)

lemma wf_channel_muzzle: "wf s \<Longrightarrow> wf (channel_muzzle con tag pkt s)"
  by (auto simp: channel_muzzle_def Let_def intro!: wf_muzzle_member split: option.split prod.split)

lemma wf_set_topic: "wf s \<Longrightarrow> wf (set_topic con tag n c p s)"
  by (auto simp: set_topic_def Let_def intro!: wf_upd_chan)

lemma wf_topic: "wf s \<Longrightarrow> wf (topic con tag pkt s)"
  by (auto simp: topic_def Let_def intro!: wf_set_topic split: option.split prod.split)

section \<open>What a mode change reports\<close>

text \<open>The bit a word of the packet is about, and the value it asks for.\<close>

definition word_about :: "string \<Rightarrow> (32 word \<times> bool) option" where
  "word_about w =
     (case mode_bit (tl w) of
        None \<Rightarrow> None
      | Some b \<Rightarrow> if hd w = CHR ''+'' then Some (b, True) else if hd w = CHR ''-'' then Some (b, False) else None)"

definition requests :: "string list \<Rightarrow> 32 word \<Rightarrow> bool list" where
  "requests ws b = [v. Some (b', v) \<leftarrow> map word_about ws, b' = b]"

lemma mode_bits:
  "mode_bit n = Some b \<Longrightarrow> \<exists>k \<in> {1, 2, 3, 4}. b = push_bit k 1"
  by (auto simp: mode_bit_def split: if_splits)

lemma requests_Cons:
  "requests (w # ws) b = (case word_about w of Some (b', v) \<Rightarrow> if b' = b then [v] else [] | None \<Rightarrow> []) @ requests ws b"
  by (auto simp: requests_def split: option.split)

lemma and_bit_iff: "(x :: 32 word) AND push_bit k 1 = 0 \<longleftrightarrow> \<not> bit x k"
  by (simp add: push_bit_of_1 and_exp_eq_0_iff_not_bit)

text \<open>One round, seen at one bit.\<close>

lemma mode_step_bit:
  assumes "k \<in> {1, 2, 3, 4::nat}"
  shows "(case word_about w of
      Some (b, v) \<Rightarrow>
        if b = push_bit k 1 then
          bit (m_flags (fst (mode_step w m))) k = v \<and>
          bit (m_on (fst (mode_step w m))) k = (v \<and> \<not> bit (m_flags m) k) \<and>
          bit (m_off (fst (mode_step w m))) k = (\<not> v \<and> bit (m_flags m) k)
        else bit (m_flags (fst (mode_step w m))) k = bit (m_flags m) k \<and>
          bit (m_on (fst (mode_step w m))) k = bit (m_on m) k \<and>
          bit (m_off (fst (mode_step w m))) k = bit (m_off m) k
    | None \<Rightarrow> fst (mode_step w m) = m)"
proof (cases "mode_bit (tl w)")
  case (Some b)
  then obtain j where j: "j \<in> {1, 2, 3, 4}" "b = push_bit j 1" using mode_bits by blast
  have jk: "j < 32" "k < 32" using j(1) assms by auto
  have b: "bit b k = (j = k)" using jk by (auto simp: j(2) bit_simps)
  have "bit (push_bit k 1 :: 32 word) k" using jk by (simp add: bit_simps)
  then have "b = push_bit k 1 \<longleftrightarrow> j = k" using b j(2) by auto
  note e = this b and_bit_iff [of _ j, folded j(2)]
  show ?thesis
    using e jk by (auto simp: word_about_def mode_step_def Some Let_def bit_and_iff bit_or_iff bit_not_iff_eq)
qed (simp add: word_about_def mode_step_def)

lemma mode_words_Cons: "fst (mode_words (w # ws) m) = fst (mode_words ws (fst (mode_step w m)))"
  by (simp split: prod.split option.split)

lemma mode_words_flags:
  assumes "k \<in> {1, 2, 3, 4::nat}"
  shows "bit (m_flags (fst (mode_words ws m))) k =
    (if requests ws (push_bit k 1) = [] then bit (m_flags m) k else last (requests ws (push_bit k 1)))"
proof (induction ws arbitrary: m)
  case (Cons w ws)
  show ?case
    using mode_step_bit [OF assms, of w m] unfolding mode_words_Cons Cons.IH
    by (auto simp: requests_Cons split: option.splits if_splits)
qed (simp add: requests_def)

lemma mode_words_masks:
  assumes "k \<in> {1, 2, 3, 4::nat}"
  shows "length (requests ws (push_bit k 1)) \<le> 1 \<Longrightarrow>
    bit (m_on (fst (mode_words ws m))) k =
      (if requests ws (push_bit k 1) = [] then bit (m_on m) k
       else requests ws (push_bit k 1) = [True] \<and> \<not> bit (m_flags m) k) \<and>
    bit (m_off (fst (mode_words ws m))) k =
      (if requests ws (push_bit k 1) = [] then bit (m_off m) k
       else requests ws (push_bit k 1) = [False] \<and> bit (m_flags m) k)"
proof (induction ws arbitrary: m)
  case (Cons w ws)
  have "length (requests ws (push_bit k 1)) \<le> 1" using Cons.prems by (simp add: requests_Cons)
  then show ?case
    using mode_step_bit [OF assms, of w m] Cons.prems unfolding mode_words_Cons
    by (auto simp: requests_Cons Cons.IH split: option.splits if_splits)
qed (simp add: requests_def)



text \<open>Naming a mode twice changes it silently: the flag is set, but nothing is announced and the
  timestamp of the channel stays.\<close>

theorem repeated_mode_is_silent:
  "mode_words [''+PRIVATE'', ''+PRIVATE''] \<lparr>m_flags = 0, m_on = 0, m_off = 0\<rparr> =
     (\<lparr>m_flags = ON_CHANNEL_PRIVATE, m_on = 0, m_off = 0\<rparr>, []) \<and>
   announce_mode con tag n c \<lparr>m_flags = ON_CHANNEL_PRIVATE, m_on = 0, m_off = 0\<rparr> s = s"
  by (simp add: mode_step_def mode_bit_def strcaseeq_def announce_mode_def Let_def)

section \<open>The list of operators\<close>

definition listed_op :: "string \<Rightarrow> channel \<Rightarrow> bool" where
  "listed_op n C \<longleftrightarrow> list_ex (\<lambda>m. strcaseeq m n) (ch_ops C)"

definition ops_distinct :: "channel \<Rightarrow> bool" where
  "ops_distinct C \<longleftrightarrow> distinct (map lower (ch_ops C))"

lemma listed_op_lower: "listed_op n C \<longleftrightarrow> lower n \<in> set (map lower (ch_ops C))"
  by (simp add: listed_op_def list_ex_iff strcaseeq_def image_iff) metis

lemma lower_remove_op: "map lower (remove_op n ops) = remove1 (lower n) (map lower ops)"
  by (induction ops) (auto simp: strcaseeq_def)

text \<open>The members' flags do not matter to the list.\<close>

lemma ch_ops_member_steps:
  "map_option ch_ops (s_chans (deop_member a c n s) d) = map_option ch_ops (s_chans s d)"
  "map_option ch_ops (s_chans (op_member a c n s) d) = map_option ch_ops (s_chans s d)"
  by (auto simp: deop_member_def op_member_def set_member_def Let_def option.map_comp comp_def split: option.split)

lemma op_one_ops:
  assumes "s_chans s c = Some C" "ops_distinct C"
  shows "\<exists>C'. s_chans (op_one con tag a c n s) c = Some C' \<and> ops_distinct C' \<and>
    (\<forall>k. listed_op k C' \<longleftrightarrow>
       (if \<not> invalid_nick s n \<and> strcaseeq k n \<and> tag = MSG_CLIENT_OP then True
        else if \<not> invalid_nick s n \<and> strcaseeq k n \<and> tag = MSG_CLIENT_DEOP then False
        else listed_op k C))"
proof -
  have some: "\<exists>C'. s_chans t c = Some C' \<and> ch_ops C' = ch_ops D"
    if "map_option ch_ops (s_chans t c) = Some (ch_ops D)" for t D
    using that by auto
  have stay: ?thesis if "s_chans (op_one con tag a c n s) c = Some C"
    "\<And>k. listed_op k C \<longleftrightarrow>
       (if \<not> invalid_nick s n \<and> strcaseeq k n \<and> tag = MSG_CLIENT_OP then True
        else if \<not> invalid_nick s n \<and> strcaseeq k n \<and> tag = MSG_CLIENT_DEOP then False
        else listed_op k C)"
    using that assms(2) by blast
  have cong: "listed_op k C = listed_op n C" if "strcaseeq k n" for k
    using that by (simp add: listed_op_lower strcaseeq_def)
  consider "invalid_nick s n" | "\<not> invalid_nick s n" "listed_op n C" "tag = MSG_CLIENT_DEOP"
    | "\<not> invalid_nick s n" "listed_op n C" "tag \<noteq> MSG_CLIENT_DEOP"
    | "\<not> invalid_nick s n" "\<not> listed_op n C" "tag = MSG_CLIENT_OP"
    | "\<not> invalid_nick s n" "\<not> listed_op n C" "tag \<noteq> MSG_CLIENT_OP" by blast
  then show ?thesis
  proof cases
    case 1
    then show ?thesis using assms(1) by (intro stay) (simp_all add: op_one_def)
  next
    case 2
    let ?D = "C\<lparr>ch_ops := remove_op n (ch_ops C)\<rparr>"
    have "map_option ch_ops (s_chans (op_one con tag a c n s) c) = Some (ch_ops ?D)"
      using 2 assms(1) by (simp add: op_one_def listed_op_def ch_ops_member_steps)
    then obtain C' where C': "s_chans (op_one con tag a c n s) c = Some C'" "ch_ops C' = remove_op n (ch_ops C)"
      using some [of _ ?D] by auto
    have "map lower (ch_ops C') = remove1 (lower n) (map lower (ch_ops C))" by (simp add: C'(2) lower_remove_op)
    then have "set (map lower (ch_ops C')) = set (map lower (ch_ops C)) - {lower n}" "ops_distinct C'"
      using assms(2) by (simp_all add: ops_distinct_def set_remove1_eq del: set_map)
    then show ?thesis using C'(1) 2(1,3)
      by (auto simp: listed_op_lower strcaseeq_def simp del: set_map)
  next
    case 3
    show ?thesis
    proof (rule stay)
      show "s_chans (op_one con tag a c n s) c = Some C"
        using 3 assms(1) by (simp add: op_one_def listed_op_def [symmetric])
      show "listed_op k C \<longleftrightarrow>
         (if \<not> invalid_nick s n \<and> strcaseeq k n \<and> tag = MSG_CLIENT_OP then True
          else if \<not> invalid_nick s n \<and> strcaseeq k n \<and> tag = MSG_CLIENT_DEOP then False
          else listed_op k C)" for k
        using cong [of k] 3 by auto
    qed
  next
    case 4
    let ?D = "C\<lparr>ch_ops := ch_ops C @ [n]\<rparr>"
    have "map_option ch_ops (s_chans (op_one con tag a c n s) c) = Some (ch_ops ?D)"
      using 4 assms(1) ch_ops_member_steps(2) [of a c n "upd_chan c (\<lambda>C. C\<lparr>ch_ops := ch_ops C @ [n]\<rparr>) s" c]
      by (simp add: op_one_def listed_op_def [symmetric] option.map_comp comp_def)
    then obtain C' where C': "s_chans (op_one con tag a c n s) c = Some C'" "ch_ops C' = ch_ops C @ [n]"
      using some [of _ ?D] by auto
    have "map lower (ch_ops C') = map lower (ch_ops C) @ [lower n]" by (simp add: C'(2))
    then show ?thesis using C'(1) assms(2) 4
      by (auto simp: ops_distinct_def listed_op_lower strcaseeq_def simp del: set_map)
  next
    case 5
    show ?thesis
    proof (rule stay)
      show "s_chans (op_one con tag a c n s) c = Some C"
        using 5 assms(1) by (simp add: op_one_def listed_op_def [symmetric])
      show "listed_op k C \<longleftrightarrow>
         (if \<not> invalid_nick s n \<and> strcaseeq k n \<and> tag = MSG_CLIENT_OP then True
          else if \<not> invalid_nick s n \<and> strcaseeq k n \<and> tag = MSG_CLIENT_DEOP then False
          else listed_op k C)" for k
        using cong [of k] 5 by auto
    qed
  qed
qed

lemma op_one_cfg [simp]: "s_cfg (op_one con tag a c n s) = s_cfg s"
  by (simp add: op_one_def deop_member_def op_member_def set_member_def Let_def split: option.split)

lemma invalid_nick_cong: "s_cfg s = s_cfg t \<Longrightarrow> invalid_nick s n = invalid_nick t n"
  by (simp add: invalid_nick_def)



section \<open>Who may run a channel\<close>

lemma is_chanop_frame: "s_chans s = s_chans t \<Longrightarrow> is_chanop c u s = is_chanop c u t"
  by (simp add: is_chanop_def)

text \<open>C4: A user below moderator who is an operator of no channel changes no channel by the commands ban,
  unban, op, mode, voice, muzzle and clear-bans.\<close>

theorem channel_commands_need_rank:
  assumes "wf s" "ISUSER con s" "c_user (cnx s con) = u" "u_level (usr s u) < LEVEL_MODERATOR"
    and "\<And>c. c \<in> dom (s_chans s) \<Longrightarrow> \<not> is_chanop c u s"
    and "h \<in> {channel_ban, channel_unban, channel_op, channel_mode, channel_voice, channel_muzzle, channel_clear_bans}"
  shows "s_chans (h con tag pkt s) = s_chans s"
proof -
  have ns: "\<not> ISSERVER con s" using assms(2) by (simp add: ISUSER_def ISSERVER_def)
  have pop: "pop_user_server con pkt s = Some (Some pkt, u_nick (usr s u), Some u)"
    "pop_user con pkt s = Some (Some pkt, u)"
    using ns assms(3) by (simp_all add: pop_user_server_def pop_user_def)
  have no: "hash_lookup (s_Channels s) k = Some c \<Longrightarrow> \<not> may_operate (Some u) c s" "\<not> mod_sender (Some u) s" for k c
    using assms(4) assms(5) [OF wf_lookup_chan_dom [OF assms(1)]]
    by (auto simp: may_operate_def mod_sender_def not_le)
  show ?thesis
    using assms(6)
    by (elim insertE; simp add: channel_ban_def channel_unban_def channel_op_def channel_mode_def
        channel_voice_def channel_muzzle_def channel_clear_bans_def list_voiced_def Let_def pop no
        split: option.split prod.split)
qed

lemma channel_commands_need_rank_witness: "s_chans (channel_mode 1 10209 ''#den +PRIVATE'' sample) = s_chans sample"
proof (rule channel_commands_need_rank [where u = 1])
  show "\<not> is_chanop c 1 sample" if "c \<in> dom (s_chans sample)" for c
    using that by (simp add: is_chanop_def find_chanuser_def sample_parts)
qed (simp_all add: wf_sample sample_parts level_order)

text \<open>C16: A topic that is set has no line breaks and respects the limit on its length.\<close>

theorem topic_is_clean:
  assumes "s_chans s c = Some C" "s_chans (topic con tag pkt s) c = Some C'" "ch_topic C' \<noteq> ch_topic C"
  shows "CHR 0x0A \<notin> set (ch_topic C') \<and> CHR 0x0D \<notin> set (ch_topic C') \<and>
    (0 < Max_Topic (s_cfg s) \<longrightarrow> int (length (ch_topic C')) \<le> Max_Topic (s_cfg s)) \<and>
    (ISUSER con s \<longrightarrow> ch_level C \<le> u_level (usr s (c_user (cnx s con))) \<and>
       (LEVEL_MODERATOR \<le> u_level (usr s (c_user (cnx s con))) \<or> c \<in> set (u_channels (usr s (c_user (cnx s con))))))"
proof -
  have "s_chans (topic con tag pkt s) = s_chans s \<or>
    (\<exists>d nick p. topic_refused con d s = None \<and> topic con tag pkt s = set_topic con tag nick d p s)"
    by (auto simp: topic_def Let_def split: option.splits prod.splits if_splits)
  then obtain d nick p where d: "topic_refused con d s = None" "topic con tag pkt s = set_topic con tag nick d p s"
    using assms by auto
  then have "d = c" "ch_topic C' = clean_topic s p"
    using assms by (auto simp: set_topic_def Let_def split: if_splits)
  moreover have "int (length (clean_topic s p)) \<le> Max_Topic (s_cfg s)" if "0 < Max_Topic (s_cfg s)"
    using truncate_to_length [OF that] by (simp add: clean_topic_def)
  ultimately show ?thesis
    using d(1) assms(1) by (auto simp: clean_topic_def topic_refused_def Let_def not_less not_le split: if_splits)
qed

lemma topic_is_clean_witness:
  "\<exists>C'. s_chans (topic 0 410 (''#den a'' @ [CHR 0x0A] @ ''b'') sample) 0 = Some C' \<and> CHR 0x0A \<notin> set (ch_topic C')"
proof -
  let ?p = "''#den a'' @ [CHR 0x0A] @ ''b''"
  have a: "next_arg (Some ?p) = (Some ''#den'', Some (''a'' @ [CHR 0x0A] @ ''b''))"
    by (simp add: text_eval)
  have r: "topic_refused 0 0 sample = None" by (simp add: topic_refused_def Let_def sample_parts level_order)
  have t: "topic 0 410 ?p sample = set_topic 0 410 ''alice'' 0 (''a'' @ [CHR 0x0A] @ ''b'') sample"
    unfolding topic_def by (simp del: append.simps add: a) (simp add: r sample_parts nonull_def)
  have s: "s_chans (topic 0 410 ?p sample) 0 = Some (sample_chan\<lparr>ch_topic := ''a b''\<rparr>)"
    unfolding t by (simp add: set_topic_def Let_def clean_topic_def truncate_to_def sample_cfg_def)
  then show ?thesis
    using topic_is_clean [of sample 0 sample_chan 0 410 ?p "sample_chan\<lparr>ch_topic := ''a b''\<rparr>"]
    by (simp add: sample_chan_def)
qed

end
