(* ===== verification/Public.thy ===== *)
theory Public
  imports ChanOps
begin

text \<open>
  Talking on a channel (\<open>src/public.c\<close>) and listing channels and their members
  (\<open>src/list_users.c\<close>, \<open>src/list_channels.c\<close>).  The result \<open>None\<close> of \<open>public\<close> and \<open>emote\<close> is the NULL
  pointer they follow when a server names a sender and sends nothing else.
\<close>

section \<open>Public messages\<close>

definition talk_allowed :: "chid \<Rightarrow> uid \<Rightarrow> chanuser \<Rightarrow> srv \<Rightarrow> bool" where
  "talk_allowed chan sender cu s \<longleftrightarrow>
     LEVEL_MODERATOR \<le> u_level (usr s sender) \<or> cu_flags cu AND ON_OPERATOR \<noteq> 0 \<or>
     (if ch_flags (chn s chan) AND ON_CHANNEL_MODERATED \<noteq> 0 then cu_flags cu AND ON_CHANNEL_VOICE \<noteq> 0
      else cu_flags cu AND ON_CHANNEL_MUZZLED = 0)"

text \<open>The return value 0 of \<open>check_permission\<close> is \<open>True\<close>.\<close>

definition check_permission :: "chid \<Rightarrow> uid \<Rightarrow> srv \<Rightarrow> bool \<times> srv" where
  "check_permission chan sender s =
     (case find_chanuser (ch_users (chn s chan)) sender of
        None \<Rightarrow> (False, s)
      | Some cu \<Rightarrow>
          if talk_allowed chan sender cu s then (True, s)
          else (False, tell_user (user_con s sender)
                 (if ch_flags (chn s chan) AND ON_CHANNEL_MODERATED \<noteq> 0
                  then ''permission denied: channel is moderated''
                  else ''permission denied: muzzled on channel'') s))"

text \<open>
  The message to the members: those above the level of a user see the name of a cloaked sender.
  \<open>body\<close> is the text behind the name.
\<close>

definition send_public :: "nat \<Rightarrow> uid \<Rightarrow> chid \<Rightarrow> string \<Rightarrow> srv \<Rightarrow> srv" where
  "send_public tag sender chan body s =
     emit [(user_con s (cu_user cu), tag,
            form_message (ch_name (chn s chan) @ '' '' @
              (if u_cloaked (usr s sender) \<and> \<not> LEVEL_USER < u_level (usr s (cu_user cu)) then ''Operator''
               else u_nick (usr s sender)) @ '' '' @ body)).
             cu \<leftarrow> ch_users (chn s chan), ISUSER (user_con s (cu_user cu)) s] s"

definition public :: "cid \<Rightarrow> nat \<Rightarrow> string \<Rightarrow> srv \<Rightarrow> srv option" where
  "public con tag pkt s =
     (case pop_user con pkt s of
        None \<Rightarrow> Some s
      | Some (pkt, sender) \<Rightarrow>
          if u_muzzled (usr s sender) then Some (tell_user con ''You are muzzled.'' s)
          else case pkt of
            None \<Rightarrow> None
          | Some p \<Rightarrow>
              (case next_arg_noskip (take 180 p) of
                 (chanName, None) \<Rightarrow> Some (unparsable con s)
               | (chanName, Some msg) \<Rightarrow>
                   (case find_channel (u_channels (usr s sender)) chanName s of
                      None \<Rightarrow> Some (tell_user con ''You are not a member of that channel'' s)
                    | Some chan \<Rightarrow>
                        (case check_permission chan sender s of
                           (False, s) \<Rightarrow> Some s
                         | (True, s) \<Rightarrow>
                             Some (send_public MSG_SERVER_PUBLIC sender chan msg
                               (pass_message_args (Some con) tag
                                 ('':'' @ u_nick (usr s sender) @ '' '' @ ch_name (chn s chan) @ '' '' @ msg) s))))))"

definition crop_emote :: "string \<Rightarrow> string" where
  "crop_emote p = (if 180 < length p then take 179 p @ [dquote] else p)"

definition emote :: "cid \<Rightarrow> nat \<Rightarrow> string \<Rightarrow> srv \<Rightarrow> srv option" where
  "emote con tag pkt s =
     (case pop_user con pkt s of
        None \<Rightarrow> Some s
      | Some (pkt, user) \<Rightarrow>
          if u_muzzled (usr s user) then Some (tell_user con ''You are muzzled'' s)
          else case pkt of
            None \<Rightarrow> None
          | Some p \<Rightarrow>
              let av = get_args 2 (Some (crop_emote p)) in
              if length av < 2 then Some (unparsable con s)
              else case find_channel (u_channels (usr s user)) (av ! 0) s of
                None \<Rightarrow> Some (tell_user con ''You are not a member of that channel'' s)
              | Some chan \<Rightarrow>
                  (case check_permission chan user s of
                     (False, s) \<Rightarrow> Some s
                   | (True, s) \<Rightarrow>
                       let body = [dquote] @ av ! 1 @ [dquote] in
                       Some (send_public tag user chan body
                         (pass_message_args (Some con) tag
                           ('':'' @ u_nick (usr s user) @ '' '' @ ch_name (chn s chan) @ '' '' @ body) s))))"

section \<open>Lists\<close>

definition list_users :: "cid \<Rightarrow> nat \<Rightarrow> string \<Rightarrow> srv \<Rightarrow> srv" where
  "list_users con tag pkt s =
     (if \<not> ISUSER con s then s
      else case hash_lookup (s_Channels s) pkt of
        None \<Rightarrow> nosuchchannel con s
      | Some chan \<Rightarrow>
          if chan \<notin> set (u_channels (usr s (c_user (cnx s con)))) then
            send_cmd con MSG_SERVER_NOSUCH (''you're not on channel '' @ ch_name (chn s chan)) s
          else
            emit (map (\<lambda>cu. (con, MSG_SERVER_NAMES_LIST,
                    form_message (ch_name (chn s chan) @ '' '' @ u_nick (usr s (cu_user cu)) @ '' '' @
                      nat_dec (u_shared (usr s (cu_user cu))) @ '' '' @
                      nat_dec (u_speed (usr s (cu_user cu)))))) (ch_users (chn s chan)) @
                  [(con, MSG_SERVER_NAMES_LIST_END, [])]) s)"

text \<open>The flags of \<open>global_user_list\<close>: \<open>eamlzc\<close>; none of them selects everybody.\<close>

definition gul_selected :: "string \<Rightarrow> string option \<Rightarrow> user \<Rightarrow> bool" where
  "gul_selected flags server U \<longleftrightarrow>
     ((\<forall>c \<in> set ''eamlzc''. c \<notin> set flags) \<or>
      CHR ''a'' \<in> set flags \<and> u_level U = LEVEL_ADMIN \<or>
      CHR ''e'' \<in> set flags \<and> u_level U = LEVEL_ELITE \<or>
      CHR ''m'' \<in> set flags \<and> u_level U = LEVEL_MODERATOR \<or>
      CHR ''l'' \<in> set flags \<and> u_level U = LEVEL_LEECH \<or>
      CHR ''z'' \<in> set flags \<and> u_muzzled U \<or>
      CHR ''c'' \<in> set flags \<and> u_cloaked U) \<and>
     (case server of None \<Rightarrow> True
      | Some sv \<Rightarrow> (sv \<noteq> [] \<and> hd sv = CHR ''*'') \<or> strcaseeq sv (u_server U))"

definition global_user_list :: "cid \<Rightarrow> nat \<Rightarrow> string \<Rightarrow> srv \<Rightarrow> srv" where
  "global_user_list con tag pkt s =
     (if \<not> ISUSER con s then s
      else if u_level (usr s (c_user (cnx s con))) < LEVEL_MODERATOR then permission_denied con s
      else case next_arg (Some pkt) of (server, flags) \<Rightarrow>
        let s = hash_foreach (s_Users s)
              (\<lambda>u s. if gul_selected (nonull flags) server (usr s u)
                 then send_cmd con MSG_SERVER_GLOBAL_USER_LIST (u_nick (usr s u) @ '' '' @ my_ntoa (u_ip (usr s u))) s
                 else s) s
        in send_cmd con tag [] s)"

definition channel_info :: "cid \<Rightarrow> chid \<Rightarrow> srv \<Rightarrow> srv" where
  "channel_info con chan s =
     (if ch_flags (chn s chan) AND ON_CHANNEL_PRIVATE = 0 then
        send_cmd con MSG_SERVER_CHANNEL_LIST (ch_name (chn s chan) @ '' '' @
          nat_dec (length (ch_users (chn s chan))) @ '' '' @ ch_topic (chn s chan)) s
      else s)"

definition list_channels :: "cid \<Rightarrow> nat \<Rightarrow> string \<Rightarrow> srv \<Rightarrow> srv" where
  "list_channels con tag pkt s =
     (if \<not> ISUSER con s then s
      else send_cmd con MSG_SERVER_CHANNEL_LIST_END [] (hash_foreach (s_Channels s) (channel_info con) s))"

definition full_channel_info :: "cid \<Rightarrow> chid \<Rightarrow> srv \<Rightarrow> srv" where
  "full_channel_info con chan s =
     (if ch_flags (chn s chan) AND ON_CHANNEL_PRIVATE = 0 then
        send_cmd con MSG_SERVER_FULL_CHANNEL_INFO (ch_name (chn s chan) @ '' '' @
          nat_dec (length (ch_users (chn s chan))) @ '' '' @
          (if ch_flags (chn s chan) AND ON_CHANNEL_USER \<noteq> 0 then ''1'' else ''0'') @ '' '' @
          nat_dec (level_num (ch_level (chn s chan))) @ '' '' @ nat_dec (ch_limit (chn s chan)) @ '' '' @
          [dquote] @ ch_topic (chn s chan) @ [dquote]) s
      else s)"

definition full_channel_list :: "cid \<Rightarrow> nat \<Rightarrow> string \<Rightarrow> srv \<Rightarrow> srv" where
  "full_channel_list con tag pkt s =
     (if \<not> ISUSER con s then s
      else send_cmd con tag [] (hash_foreach (s_Channels s) (full_channel_info con) s))"

lemmas [handler_defs] = public_def emote_def list_users_def global_user_list_def list_channels_def
  full_channel_list_def

section \<open>The invariant is kept\<close>

lemma check_permission_core: "check_permission c u s = (b, s') \<Longrightarrow> same_core s' s"
  by (auto simp: check_permission_def split: option.splits if_splits)

lemma check_permission_True: "check_permission c u s = (True, s') \<Longrightarrow> s' = s"
  by (auto simp: check_permission_def split: option.splits if_splits)

lemma check_permission_TrueD:
  assumes "check_permission c u s = (True, s')"
  shows "\<exists>cu. find_chanuser (ch_users (chn s c)) u = Some cu \<and> talk_allowed c u cu s"
  using assms
  by (cases "find_chanuser (ch_users (chn s c)) u") (auto simp: check_permission_def split: if_splits)

lemma same_core_send_public [simp]: "same_core (send_public tag u c b s) r = same_core s r"
  by (simp add: send_public_def)

lemma same_core_public: "public con tag pkt s = Some s' \<Longrightarrow> same_core s' s"
  by (auto simp: public_def dest: check_permission_core split: option.splits prod.splits if_splits bool.splits)

lemma same_core_emote: "emote con tag pkt s = Some s' \<Longrightarrow> same_core s' s"
  by (auto simp: emote_def Let_def dest: check_permission_core split: option.splits prod.splits if_splits bool.splits)

lemma same_core_foreach:
  "(\<And>x s. same_core (f x s) r = same_core s r) \<Longrightarrow> same_core (hash_foreach h f s) r = same_core s r"
  unfolding hash_foreach_def by (rule fold_frame [where g = "\<lambda>s. same_core s r"])

lemma same_core_lists:
  "same_core (list_users con tag pkt s) s" "same_core (global_user_list con tag pkt s) s"
  "same_core (list_channels con tag pkt s) s" "same_core (full_channel_list con tag pkt s) s"
  by (auto simp: list_users_def global_user_list_def list_channels_def full_channel_list_def channel_info_def
      full_channel_info_def Let_def same_core_foreach split: option.split prod.split)

section \<open>Who hears what\<close>

text \<open>The public messages (403) for one connection in a trace.\<close>

definition heard :: "cid \<Rightarrow> frame list \<Rightarrow> string list" where
  "heard d fs = [m. (c, t, m) \<leftarrow> fs, c = d \<and> t = MSG_SERVER_PUBLIC]"

lemma heard_append [simp]: "heard d (f @ g) = heard d f @ heard d g"
  by (simp add: heard_def)

lemma heard_other: "(\<And>c t m. (c, t, m) \<in> set fs \<Longrightarrow> t \<noteq> MSG_SERVER_PUBLIC) \<Longrightarrow> heard d fs = []"
  by (induction fs) (auto simp: heard_def split: prod.splits)

lemma out_emit [simp]: "s_out (emit fs s) = s_out s @ fs"
  by (simp add: emit_def)

lemma heard_tell_user [simp]: "heard d (s_out (tell_user c m s)) = heard d (s_out s)"
  by (simp add: tell_user_def send_cmd_def queue_data_def) (simp add: heard_def)

lemma heard_unparsable [simp]: "heard d (s_out (unparsable c s)) = heard d (s_out s)"
  by (simp add: unparsable_def send_cmd_def queue_data_def) (simp add: heard_def)

lemma heard_pass [simp]:
  "tag \<noteq> MSG_SERVER_PUBLIC \<Longrightarrow> heard d (s_out (pass_message_args c tag m s)) = heard d (s_out s)"
  by (auto simp: pass_message_args_def pass_message_def heard_def intro!: concat_eq_Nil_conv [THEN iffD2])

lemma check_permission_False:
  "check_permission c u s = (False, s') \<Longrightarrow> heard d (s_out s') = heard d (s_out s)"
  by (auto simp: check_permission_def split: option.splits if_splits)

lemma concat_single:
  "distinct (map f xs) \<Longrightarrow> concat (map (\<lambda>x. if f x = v then [g x] else []) xs) =
     (case find (\<lambda>x. f x = v) xs of None \<Rightarrow> [] | Some x \<Rightarrow> [g x])"
proof (induction xs)
  case (Cons x xs)
  show ?case
  proof (cases "f x = v")
    case True
    then have "\<forall>y \<in> set xs. f y \<noteq> v" using Cons.prems by (simp add: image_iff) metis
    then have "concat (map (\<lambda>x. if f x = v then [g x] else []) xs) = []" by simp
    then show ?thesis using True by simp
  qed (use Cons in auto)
qed simp

lemma find_chanuser_memb:
  "s_chans s c = Some C \<Longrightarrow> memb s c v \<longleftrightarrow> (\<exists>cu. find_chanuser (ch_users C) v = Some cu)"
  by (auto simp: memb_def find_chanuser_def find_Some_iff2 find_None_iff image_iff
      simp flip: not_None_eq)

lemma heard_send_public:
  assumes w: "wf s" and c: "c \<in> dom (s_chans s)" and d: "d \<in> dom (s_conns s)"
  shows "heard d (s_out (send_public MSG_SERVER_PUBLIC a c b s)) = heard d (s_out s) @
    (if ISUSER d s \<and> memb s c (c_user (cnx s d)) then
       [form_message (ch_name (chn s c) @ '' '' @
          (if u_cloaked (usr s a) \<and> \<not> LEVEL_USER < u_level (usr s (c_user (cnx s d))) then ''Operator''
           else u_nick (usr s a)) @ '' '' @ b)]
     else [])"
proof -
  obtain C where C: "s_chans s c = Some C" using c by blast
  note L = links_okD [OF wf_uptoD(1) [OF w]] and CO = conn_okD [OF wf_uptoD(4) [OF w]]
  let ?v = "c_user (cnx s d)"
  let ?m = "\<lambda>cu. form_message (ch_name C @ '' '' @
          (if u_cloaked (usr s a) \<and> \<not> LEVEL_USER < u_level (usr s (cu_user cu)) then ''Operator''
           else u_nick (usr s a)) @ '' '' @ b)"
  have key: "user_con s (cu_user cu) = d \<and> ISUSER d s \<longleftrightarrow> cu_user cu = ?v \<and> ISUSER d s" if "cu \<in> set (ch_users C)" for cu
  proof -
    have "memb s c (cu_user cu)" using that C by (auto simp: memb_def)
    then obtain U where U: "s_users s (cu_user cu) = Some U" using L(5) by blast
    show ?thesis
    proof
      assume "user_con s (cu_user cu) = d \<and> ISUSER d s"
      then show "cu_user cu = ?v \<and> ISUSER d s" using CO(3) [OF U] U by auto
    next
      assume v: "cu_user cu = ?v \<and> ISUSER d s"
      obtain K where K: "s_conns s d = Some K" using d by blast
      then have "c_class K = CLASS_USER" using v by (simp add: ISUSER_def)
      then show "user_con s (cu_user cu) = d \<and> ISUSER d s" using CO(1) [OF K, of 0] v K by auto
    qed
  qed
  let ?fs = "\<lambda>cu. if ISUSER (user_con s (cu_user cu)) s then [(user_con s (cu_user cu), MSG_SERVER_PUBLIC, ?m cu)] else []"
  have one: "heard d (?fs cu) = (if cu_user cu = ?v \<and> ISUSER d s then [?m cu] else [])" if "cu \<in> set (ch_users C)" for cu
    using key [OF that] by (auto simp: heard_def)
  have "heard d (concat (map ?fs us)) = concat (map (\<lambda>cu. heard d (?fs cu)) us)" for us
    by (induction us) (simp_all add: heard_def)
  then have "heard d (concat (map ?fs (ch_users C))) = concat (map (\<lambda>cu. heard d (?fs cu)) (ch_users C))" .
  also have "\<dots> = concat (map (\<lambda>cu. if cu_user cu = ?v \<and> ISUSER d s then [?m cu] else []) (ch_users C))"
    by (rule arg_cong [of _ _ concat], rule map_cong [OF refl one])
  also have "\<dots> = (if ISUSER d s then concat (map (\<lambda>cu. if cu_user cu = ?v then [?m cu] else []) (ch_users C)) else [])"
    by simp
  also have "\<dots> = (if ISUSER d s then
      (case find_chanuser (ch_users C) ?v of None \<Rightarrow> [] | Some cu \<Rightarrow> [?m cu]) else [])"
    using L(3) [OF C] by (simp add: concat_single find_chanuser_def)
  finally have H: "heard d (concat (map ?fs (ch_users C))) = (if ISUSER d s then
      (case find_chanuser (ch_users C) ?v of None \<Rightarrow> [] | Some cu \<Rightarrow> [?m cu]) else [])" .
  have sp: "heard d (s_out (send_public MSG_SERVER_PUBLIC a c b s)) =
      heard d (s_out s) @ heard d (concat (map ?fs (ch_users C)))"
    unfolding send_public_def out_emit heard_append C option.sel ..
  note M = find_chanuser_memb [OF C, of ?v]
  show ?thesis
  proof (cases "find_chanuser (ch_users C) ?v")
    case None
    then show ?thesis using M unfolding sp H by simp
  next
    case (Some cu)
    then have "cu_user cu = ?v" by (auto simp: find_chanuser_def find_Some_iff)
    then show ?thesis using M Some C unfolding sp H by simp
  qed
qed



end
