(* ===== verification/Md5.thy ===== *)
theory Md5
  imports Prelude
begin

text \<open>
  The message digest of \<open>src/md5.c\<close> (and the context of \<open>src/md5.h\<close>), on a host that stores words with
  the low byte first, where \<open>SWAP\<close> is the identity.  The buffer of the context is the list of the bytes
  that are in use; \<open>buflen\<close> is its length.
\<close>

unbundle bit_operations_syntax

type_synonym regs = "32 word \<times> 32 word \<times> 32 word \<times> 32 word"

record md5_ctx =
  md_regs :: regs
  md_total0 :: "32 word"
  md_total1 :: "32 word"
  md_buffer :: string

definition md5_init :: regs where
  "md5_init = (0x67452301, 0xefcdab89, 0x98badcfe, 0x10325476)"

definition md5_init_ctx :: md5_ctx where
  "md5_init_ctx = \<lparr>md_regs = md5_init, md_total0 = 0, md_total1 = 0, md_buffer = []\<rparr>"

section \<open>The block function\<close>

type_synonym mixer = "32 word \<Rightarrow> 32 word \<Rightarrow> 32 word \<Rightarrow> 32 word"

definition FF :: mixer where "FF b c d = d XOR (b AND (c XOR d))"
definition FG :: mixer where "FG b c d = FF d b c"
definition FH :: mixer where "FH b c d = b XOR c XOR d"
definition FI :: mixer where "FI b c d = c XOR (b OR NOT d)"

definition CYCLIC :: "32 word \<Rightarrow> nat \<Rightarrow> 32 word" where
  "CYCLIC w s = push_bit s w OR drop_bit (32 - s) w"

text \<open>
  The lists hold the arguments \<open>k\<close>, \<open>s\<close> and \<open>T\<close> of the macro \<open>OP\<close>.  The registers trade places from
  one use of the macro to the next: after \<open>OP (A, B, C, D)\<close> comes \<open>OP (D, A, B, C)\<close>.
\<close>

definition round1 :: "(nat \<times> nat \<times> 32 word) list" where
  "round1 =
    [(0, 7, 0xd76aa478), (1, 12, 0xe8c7b756), (2, 17, 0x242070db), (3, 22, 0xc1bdceee),
     (4, 7, 0xf57c0faf), (5, 12, 0x4787c62a), (6, 17, 0xa8304613), (7, 22, 0xfd469501),
     (8, 7, 0x698098d8), (9, 12, 0x8b44f7af), (10, 17, 0xffff5bb1), (11, 22, 0x895cd7be),
     (12, 7, 0x6b901122), (13, 12, 0xfd987193), (14, 17, 0xa679438e), (15, 22, 0x49b40821)]"

definition round2 :: "(nat \<times> nat \<times> 32 word) list" where
  "round2 =
    [(1, 5, 0xf61e2562), (6, 9, 0xc040b340), (11, 14, 0x265e5a51), (0, 20, 0xe9b6c7aa),
     (5, 5, 0xd62f105d), (10, 9, 0x02441453), (15, 14, 0xd8a1e681), (4, 20, 0xe7d3fbc8),
     (9, 5, 0x21e1cde6), (14, 9, 0xc33707d6), (3, 14, 0xf4d50d87), (8, 20, 0x455a14ed),
     (13, 5, 0xa9e3e905), (2, 9, 0xfcefa3f8), (7, 14, 0x676f02d9), (12, 20, 0x8d2a4c8a)]"

definition round3 :: "(nat \<times> nat \<times> 32 word) list" where
  "round3 =
    [(5, 4, 0xfffa3942), (8, 11, 0x8771f681), (11, 16, 0x6d9d6122), (14, 23, 0xfde5380c),
     (1, 4, 0xa4beea44), (4, 11, 0x4bdecfa9), (7, 16, 0xf6bb4b60), (10, 23, 0xbebfbc70),
     (13, 4, 0x289b7ec6), (0, 11, 0xeaa127fa), (3, 16, 0xd4ef3085), (6, 23, 0x04881d05),
     (9, 4, 0xd9d4d039), (12, 11, 0xe6db99e5), (15, 16, 0x1fa27cf8), (2, 23, 0xc4ac5665)]"

definition round4 :: "(nat \<times> nat \<times> 32 word) list" where
  "round4 =
    [(0, 6, 0xf4292244), (7, 10, 0x432aff97), (14, 15, 0xab9423a7), (5, 21, 0xfc93a039),
     (12, 6, 0x655b59c3), (3, 10, 0x8f0ccc92), (10, 15, 0xffeff47d), (1, 21, 0x85845dd1),
     (8, 6, 0x6fa87e4f), (15, 10, 0xfe2ce6e0), (6, 15, 0xa3014314), (13, 21, 0x4e0811a1),
     (4, 6, 0xf7537e82), (11, 10, 0xbd3af235), (2, 15, 0x2ad7d2bb), (9, 21, 0xeb86d391)]"

definition OP :: "mixer \<Rightarrow> 32 word list \<Rightarrow> nat \<times> nat \<times> 32 word \<Rightarrow> regs \<Rightarrow> regs" where
  "OP f w = (\<lambda>(k, s, T) (a, b, c, d). (d, CYCLIC (a + (f b c d + w ! k + T)) s + b, b, c))"

definition le_word :: "string \<Rightarrow> 32 word" where
  "le_word bs = word_of_nat (\<Sum>i<4. code (bs ! i) * 256 ^ i)"

definition md5_words :: "string \<Rightarrow> 32 word list" where
  "md5_words buf = map (\<lambda>i. le_word (take 4 (drop (4 * i) buf))) [0..<16]"

definition add_regs :: "regs \<Rightarrow> regs \<Rightarrow> regs" where
  "add_regs = (\<lambda>(a, b, c, d) (a', b', c', d'). (a + a', b + b', c + c', d + d'))"

text \<open>One round of the loop of \<open>md5_process_block\<close>.\<close>

definition md5_block :: "string \<Rightarrow> regs \<Rightarrow> regs" where
  "md5_block buf r =
     (let w = md5_words buf in
      add_regs (fold (OP FI w) round4 (fold (OP FH w) round3 (fold (OP FG w) round2 (fold (OP FF w) round1 r)))) r)"

function md5_blocks :: "string \<Rightarrow> regs \<Rightarrow> regs" where
  "md5_blocks buf r = (if length buf < 64 then r else md5_blocks (drop 64 buf) (md5_block (take 64 buf) r))"
  by auto
termination by (relation "measure (\<lambda>(buf, r). length buf)") auto

declare md5_blocks.simps [simp del]

text \<open>The double word increment of the byte count.\<close>

definition count_bytes :: "nat \<Rightarrow> md5_ctx \<Rightarrow> md5_ctx" where
  "count_bytes n ctx =
     (let t = md_total0 ctx + word_of_nat n
      in ctx\<lparr>md_total0 := t, md_total1 := (if unat t < n then md_total1 ctx + 1 else md_total1 ctx)\<rparr>)"

definition md5_process_block :: "string \<Rightarrow> md5_ctx \<Rightarrow> md5_ctx" where
  "md5_process_block buf ctx =
     (let ctx = count_bytes (length buf) ctx
      in ctx\<lparr>md_regs := md5_blocks buf (md_regs ctx)\<rparr>)"

section \<open>Feeding bytes\<close>

text \<open>The number \<open>n & ~63\<close>.\<close>

definition whole :: "nat \<Rightarrow> nat" where
  "whole n = n div 64 * 64"

text \<open>The first half of \<open>md5_process_bytes\<close> fills the buffer, the rest works on what is left.\<close>

definition fill_buffer :: "string \<Rightarrow> md5_ctx \<Rightarrow> string \<times> md5_ctx" where
  "fill_buffer bytes ctx =
     (if md_buffer ctx = [] then (bytes, ctx)
      else
        let left_over = length (md_buffer ctx);
            added = (if length bytes < 128 - left_over then length bytes else 128 - left_over);
            buf = md_buffer ctx @ take added bytes;
            ctx = ctx\<lparr>md_buffer := buf\<rparr>;
            n = whole (left_over + added);
            ctx = (if 64 < left_over + added
                   then (md5_process_block (take n buf) ctx)\<lparr>md_buffer := drop n buf\<rparr> else ctx)
        in (drop added bytes, ctx))"

definition feed_blocks :: "string \<Rightarrow> md5_ctx \<Rightarrow> string \<times> md5_ctx" where
  "feed_blocks bytes ctx =
     (if 64 < length bytes
      then (drop (whole (length bytes)) bytes, md5_process_block (take (whole (length bytes)) bytes) ctx)
      else (bytes, ctx))"

definition md5_process_bytes :: "string \<Rightarrow> md5_ctx \<Rightarrow> md5_ctx" where
  "md5_process_bytes bytes ctx =
     (let (bytes, ctx) = fill_buffer bytes ctx;
          (bytes, ctx) = feed_blocks bytes ctx
      in if 0 < length bytes then ctx\<lparr>md_buffer := bytes\<rparr> else ctx)"

definition le_bytes :: "32 word \<Rightarrow> string" where
  "le_bytes w = map (\<lambda>i. char_of (unat w div 256 ^ i)) [0..<4]"

definition md5_read_ctx :: "md5_ctx \<Rightarrow> string" where
  "md5_read_ctx ctx = (case md_regs ctx of (a, b, c, d) \<Rightarrow> le_bytes a @ le_bytes b @ le_bytes c @ le_bytes d)"

definition fillbuf :: string where
  "fillbuf = char_of (0x80 :: nat) # replicate 63 (char_of (0 :: nat))"

definition md5_finish_ctx :: "md5_ctx \<Rightarrow> string" where
  "md5_finish_ctx ctx =
     (let bytes = length (md_buffer ctx);
          ctx = count_bytes bytes ctx;
          pad = (if 56 \<le> bytes then 64 + 56 - bytes else 56 - bytes);
          buf = md_buffer ctx @ take pad fillbuf @ le_bytes (push_bit 3 (md_total0 ctx)) @
                le_bytes (push_bit 3 (md_total1 ctx) OR drop_bit 29 (md_total0 ctx))
      in md5_read_ctx (md5_process_block buf ctx))"

definition md5_buffer :: "string \<Rightarrow> string" where
  "md5_buffer buf = md5_finish_ctx (md5_process_bytes buf md5_init_ctx)"

text \<open>
  \<open>md5_stream\<close> reads blocks of 4096 bytes, \<open>fread\<close> being called until the block is full or the file is
  at its end.
\<close>

function stream_loop :: "string \<Rightarrow> md5_ctx \<Rightarrow> md5_ctx" where
  "stream_loop file ctx =
     (if length file < 4096 then if file = [] then ctx else md5_process_bytes file ctx
      else stream_loop (drop 4096 file) (md5_process_block (take 4096 file) ctx))"
  by auto
termination by (relation "measure (\<lambda>(file, ctx). length file)") auto

declare stream_loop.simps [simp del]

definition md5_stream :: "string \<Rightarrow> string" where
  "md5_stream file = md5_finish_ctx (stream_loop file md5_init_ctx)"

section \<open>The digest of a message\<close>

text \<open>
  What the streaming interface has to compute: the padded message is cut into blocks, the registers
  run over them, and the result is written with the low bytes first.
\<close>

definition md5_pad :: "string \<Rightarrow> string" where
  "md5_pad m =
     take (if length m mod 64 < 56 then 56 - length m mod 64 else 120 - length m mod 64) fillbuf @
     le_bytes (word_of_nat (8 * length m)) @ le_bytes (word_of_nat (8 * length m div 2 ^ 32))"

definition md5_digest :: "string \<Rightarrow> string" where
  "md5_digest m =
     (case md5_blocks (m @ md5_pad m) md5_init of
        (a, b, c, d) \<Rightarrow> le_bytes a @ le_bytes b @ le_bytes c @ le_bytes d)"

lemma md5_blocks_short: "length buf < 64 \<Longrightarrow> md5_blocks buf r = r"
  by (subst md5_blocks.simps) simp

lemma md5_blocks_append: "64 dvd length x \<Longrightarrow> md5_blocks (x @ y) r = md5_blocks y (md5_blocks x r)"
proof (induction x r rule: md5_blocks.induct)
  case (1 x r)
  show ?case
  proof (cases "length x < 64")
    case True
    then have "x = []" using 1(2) by (cases "length x = 0") (auto dest: dvd_imp_le)
    then show ?thesis by (simp add: md5_blocks_short)
  next
    case False
    have "64 dvd length (drop 64 x)" using 1(2) False by (simp add: dvd_diff_nat)
    note IH = 1(1) [OF False this]
    have "md5_blocks (x @ y) r = md5_blocks (drop 64 x @ y) (md5_block (take 64 x) r)"
      using False by (subst md5_blocks.simps) simp
    also have "\<dots> = md5_blocks y (md5_blocks (drop 64 x) (md5_block (take 64 x) r))" by (rule IH)
    also have "md5_blocks (drop 64 x) (md5_block (take 64 x) r) = md5_blocks x r"
      using False by (subst (2) md5_blocks.simps) simp
    finally show ?thesis .
  qed
qed

text \<open>The byte count is kept in two words; \<open>ctx\<close> counts \<open>n\<close> bytes.\<close>

definition counts :: "md5_ctx \<Rightarrow> nat \<Rightarrow> bool" where
  "counts ctx n \<longleftrightarrow> md_total0 ctx = word_of_nat n \<and> md_total1 ctx = word_of_nat (n div 2 ^ 32)"

lemma counts_upd [simp]:
  "counts (ctx\<lparr>md_buffer := b\<rparr>) n = counts ctx n" "counts (ctx\<lparr>md_regs := r\<rparr>) n = counts ctx n"
  by (simp_all add: counts_def)

lemma count_bytes_frame [simp]:
  "md_regs (count_bytes k ctx) = md_regs ctx" "md_buffer (count_bytes k ctx) = md_buffer ctx"
  by (simp_all add: count_bytes_def Let_def)

lemma nat_div_add_split:
  assumes "0 < (m :: nat)"
  shows "(n + k) div m = n div m + (n mod m + k) div m"
proof -
  have "n + k = (n mod m + k) + n div m * m" by simp
  then have "(n + k) div m = ((n mod m + k) + n div m * m) div m" by (rule arg_cong)
  also have "\<dots> = n div m + (n mod m + k) div m" using assms by (intro div_mult_self1) simp
  finally show ?thesis .
qed

lemma nat_div_carry:
  assumes m: "0 < (m :: nat)" and k: "k < m"
  shows "(n + k) div m = n div m + (if (n + k) mod m < k then 1 else 0)"
proof -
  have b: "n mod m < m" using m by simp
  have "(n + k) div m = n div m + (n mod m + k) div m" by (rule nat_div_add_split [OF m])
  also have "(n mod m + k) div m = (if (n mod m + k) mod m < k then 1 else 0)"
  proof (cases "n mod m + k < m")
    case False
    have "n mod m + k < 2 * m" using b k by linarith
    then have "(n mod m + k) div m = 1" using False by (intro div_nat_eqI) simp_all
    moreover have "(n mod m + k) mod m = (n mod m + k - m) mod m" using False by (intro le_mod_geq) linarith
    moreover have "(n mod m + k - m) mod m = n mod m + k - m" using b k by (intro mod_less) linarith
    moreover have "n mod m + k - m < k" using b False by linarith
    ultimately show ?thesis by simp
  qed simp
  also have "(n mod m + k) mod m = (n + k) mod m" by (rule mod_add_left_eq)
  finally show ?thesis .
qed

lemma counts_count_bytes:
  assumes c: "counts ctx n" and k: "k < 2 ^ 32"
  shows "counts (count_bytes k ctx) (n + k)"
proof -
  let ?t = "md_total0 ctx + word_of_nat k"
  have t: "?t = word_of_nat (n + k)" using c by (simp add: counts_def)
  then have u: "unat ?t = (n + k) mod 2 ^ 32" unfolding t by (simp only: unat_of_nat) simp
  have "(n + k) div 2 ^ 32 = n div 2 ^ 32 + (if (n + k) mod 2 ^ 32 < k then 1 else 0)"
    by (rule nat_div_carry) (use k in simp_all)
  then have hi: "word_of_nat ((n + k) div 2 ^ 32) = md_total1 ctx + (if unat ?t < k then 1 else 0)"
    unfolding u using c by (cases "(n + k) mod 2 ^ 32 < k") (simp_all only: counts_def of_nat_add if_True if_False, simp_all)
  have "md_total0 (count_bytes k ctx) = ?t"
    "md_total1 (count_bytes k ctx) = md_total1 ctx + (if unat ?t < k then 1 else 0)"
    by (cases "unat ?t < k"; simp only: count_bytes_def Let_def if_True if_False, simp)+
  then show ?thesis unfolding counts_def hi t by simp
qed

text \<open>The context after the bytes \<open>m\<close>.\<close>

definition fed :: "md5_ctx \<Rightarrow> string \<Rightarrow> bool" where
  "fed ctx m \<longleftrightarrow>
     (\<exists>p. m = p @ md_buffer ctx \<and> 64 dvd length p \<and> md_regs ctx = md5_blocks p md5_init \<and>
        counts ctx (length p) \<and> length (md_buffer ctx) \<le> 64)"

lemma fed_init: "fed md5_init_ctx []"
  by (simp add: fed_def md5_init_ctx_def counts_def md5_blocks_short)

lemma whole [simp]: "64 dvd whole n" "whole n \<le> n" "n - whole n < 64"
  using mod_less_divisor [of 64 n] by (simp_all add: whole_def minus_div_mult_eq_mod)

text \<open>A context whose buffer and pending bytes together are the rest of the message.\<close>

lemma process_block_fed:
  assumes "counts ctx (length p)" "md_regs ctx = md5_blocks p md5_init" "64 dvd length p"
    and "length b < 2 ^ 32"
  shows "md_regs (md5_process_block b ctx) = md5_blocks (p @ b) md5_init"
    "counts (md5_process_block b ctx) (length (p @ b))"
    "md_buffer (md5_process_block b ctx) = md_buffer ctx"
  using assms counts_count_bytes [of ctx "length p" "length b"]
  by (simp_all add: md5_process_block_def Let_def md5_blocks_append)

lemma fill_buffer_fed:
  assumes f: "fed ctx m" and len: "length x < 2 ^ 32" and run: "fill_buffer x ctx = (y, c)"
  shows "\<exists>z. x = z @ y \<and> fed c (m @ z) \<and> (y \<noteq> [] \<longrightarrow> md_buffer c = [])"
proof (cases "md_buffer ctx = []")
  case True
  then show ?thesis using run f by (intro exI [of _ "[]"]) (simp add: fill_buffer_def)
next
  case False
  define k where "k = (if length x < 128 - length (md_buffer ctx) then length x else 128 - length (md_buffer ctx))"
  define b where "b = md_buffer ctx @ take k x"
  obtain p where p: "m = p @ md_buffer ctx" "64 dvd length p" "md_regs ctx = md5_blocks p md5_init"
    "counts ctx (length p)" "length (md_buffer ctx) \<le> 64" using f by (auto simp: fed_def)
  have k: "k \<le> length x" "length b = length (md_buffer ctx) + k" "length b \<le> 128" "k < length x \<Longrightarrow> length b = 128"
    using p(5) by (auto simp: k_def b_def)
  let ?n = "whole (length b)"
  have fill: "fill_buffer x ctx = (drop k x,
      if 64 < length b then (md5_process_block (take ?n b) (ctx\<lparr>md_buffer := b\<rparr>))\<lparr>md_buffer := drop ?n b\<rparr>
      else ctx\<lparr>md_buffer := b\<rparr>)"
    unfolding fill_buffer_def Let_def k_def [symmetric] b_def [symmetric] k(2) using False by simp
  have y: "y = drop k x" using run fill by simp
  have c: "c = (if 64 < length b then (md5_process_block (take ?n b) (ctx\<lparr>md_buffer := b\<rparr>))\<lparr>md_buffer := drop ?n b\<rparr>
      else ctx\<lparr>md_buffer := b\<rparr>)"
    using run fill by simp
  have "fed c (m @ take k x)"
  proof (cases "64 < length b")
    case True
    have "counts (ctx\<lparr>md_buffer := b\<rparr>) (length p)" "md_regs (ctx\<lparr>md_buffer := b\<rparr>) = md5_blocks p md5_init"
      "length (take ?n b) < 2 ^ 32" using p k(3) le_less_trans [OF whole(2) [of "length b"], of "2 ^ 32"] by simp_all
    note P = process_block_fed [OF this(1,2) p(2) this(3)]
    show ?thesis unfolding fed_def
    proof (intro exI conjI)
      have "m @ take k x = p @ b" by (simp add: p(1) b_def)
      then show "m @ take k x = (p @ take ?n b) @ md_buffer c" using True by (simp add: c)
      show "64 dvd length (p @ take ?n b)" using p(2) by simp
      show "md_regs c = md5_blocks (p @ take ?n b) md5_init" "counts c (length (p @ take ?n b))"
        using True P by (simp_all add: c)
      show "length (md_buffer c) \<le> 64" using True less_imp_le [OF whole(3) [of "length b"]] by (simp add: c)
    qed
  next
    case False
    then show ?thesis unfolding fed_def using p by (intro exI [of _ p]) (simp add: c b_def)
  qed
  moreover have "md_buffer c = []" if "y \<noteq> []"
    using that k y by (simp add: c whole_def)
  ultimately show ?thesis using y by (intro exI [of _ "take k x"]) simp
qed

lemma feed_blocks_fed:
  assumes f: "fed c m" and len: "length y < 2 ^ 32" and e: "y \<noteq> [] \<Longrightarrow> md_buffer c = []"
    and run: "feed_blocks y c = (w, d)"
  shows "\<exists>z. y = z @ w \<and> fed d (m @ z) \<and> (w \<noteq> [] \<longrightarrow> md_buffer d = []) \<and> length w \<le> 64"
proof (cases "64 < length y")
  case True
  let ?n = "whole (length y)"
  have b: "md_buffer c = []" using True by (intro e) auto
  then have p: "64 dvd length m" "md_regs c = md5_blocks m md5_init" "counts c (length m)"
    using f by (auto simp: fed_def)
  have "length (take ?n y) < 2 ^ 32" using le_less_trans [OF whole(2) len] by simp
  note P = process_block_fed [OF p(3,2,1) this]
  have r: "w = drop ?n y" "d = md5_process_block (take ?n y) c" using run True by (auto simp: feed_blocks_def)
  have "fed d (m @ take ?n y)" unfolding fed_def
    using P p(1) b by (intro exI [of _ "m @ take ?n y"]) (simp add: r(2))
  then show ?thesis using P(3) b less_imp_le [OF whole(3) [of "length y"]] by (intro exI [of _ "take ?n y"]) (simp add: r)
next
  case False
  then show ?thesis using run f e by (intro exI [of _ "[]"]) (auto simp: feed_blocks_def)
qed

lemma process_bytes_fed:
  assumes f: "fed ctx m" and len: "length x < 2 ^ 32"
  shows "fed (md5_process_bytes x ctx) (m @ x)"
proof -
  obtain y c where r1: "fill_buffer x ctx = (y, c)" by fastforce
  obtain w d where r2: "feed_blocks y c = (w, d)" by fastforce
  obtain z1 where z1: "x = z1 @ y" "fed c (m @ z1)" "y \<noteq> [] \<Longrightarrow> md_buffer c = []"
    using fill_buffer_fed [OF f len r1] by blast
  obtain z2 where z2: "y = z2 @ w" "fed d (m @ z1 @ z2)" "w \<noteq> [] \<Longrightarrow> md_buffer d = []" "length w \<le> 64"
    using feed_blocks_fed [OF z1(2) _ z1(3) r2] z1(1) len by auto
  have "md5_process_bytes x ctx = (if 0 < length w then d\<lparr>md_buffer := w\<rparr> else d)"
    by (simp add: md5_process_bytes_def r1 r2)
  then show ?thesis using z1(1) z2 by (cases "w = []") (auto simp: fed_def)
qed

lemma hi_bits:
  "push_bit 3 (word_of_nat (n div 2 ^ 32)) OR drop_bit 29 (word_of_nat n :: 32 word) =
   (word_of_nat (8 * n div 2 ^ 32) :: 32 word)"
proof -
  let ?a = "push_bit 3 (word_of_nat (n div 2 ^ 32)) :: 32 word" and ?b = "drop_bit 29 (word_of_nat n) :: 32 word"
  have "?a OR ?b = ?a + ?b"
  proof (rule disjunctive_add [symmetric])
    show "\<not> bit ?a i \<or> \<not> bit ?b i" for i
      by (auto simp: bit_push_bit_iff bit_drop_bit_eq dest: bit_imp_le_length)
  qed
  also have "?a + ?b = word_of_nat (n div 2 ^ 32 * 8) + word_of_nat (n mod 2 ^ 32 div 2 ^ 29)"
    by (rule arg_cong2 [of _ _ _ _ "(+)"])
      (simp_all add: push_bit_eq_mult drop_bit_eq_div word_arith_nat_div unat_of_nat)
  also have "word_of_nat (n div 2 ^ 32 * 8) + word_of_nat (n mod 2 ^ 32 div 2 ^ 29) =
      (word_of_nat (n div 2 ^ 32 * 8 + n mod 2 ^ 32 div 2 ^ 29) :: 32 word)" by simp
  also have "n div 2 ^ 32 * 8 + n mod 2 ^ 32 div 2 ^ 29 = 8 * n div 2 ^ 32"
  proof -
    have "8 * (n mod 2 ^ 32 + n div 2 ^ 32 * 2 ^ 32) = 8 * (n mod 2 ^ 32) + (n div 2 ^ 32 * 8) * 2 ^ 32"
      by (simp only: distrib_left mult.assoc mult.left_commute)
    then have "8 * n = 8 * (n mod 2 ^ 32) + (n div 2 ^ 32 * 8) * 2 ^ 32" unfolding mod_div_mult_eq .
    then have "8 * n div 2 ^ 32 = (8 * (n mod 2 ^ 32) + (n div 2 ^ 32 * 8) * 2 ^ 32) div 2 ^ 32" by (rule arg_cong)
    also have "\<dots> = n div 2 ^ 32 * 8 + 8 * (n mod 2 ^ 32) div 2 ^ 32" by (intro div_mult_self1) simp
    also have "8 * (n mod 2 ^ 32) div 2 ^ 32 = n mod 2 ^ 32 div 2 ^ 29" by simp
    finally show ?thesis by simp
  qed
  finally show ?thesis .
qed

lemma finish_fed:
  assumes f: "fed ctx m"
  shows "md5_finish_ctx ctx = md5_digest m"
proof -
  obtain p where p: "m = p @ md_buffer ctx" "64 dvd length p" "md_regs ctx = md5_blocks p md5_init"
    "counts ctx (length p)" "length (md_buffer ctx) \<le> 64" using f by (auto simp: fed_def)
  let ?b = "length (md_buffer ctx)" and ?c = "count_bytes (length (md_buffer ctx)) ctx"
  define pad where "pad = (if 56 \<le> ?b then 64 + 56 - ?b else 56 - ?b)"
  have c: "md_total0 ?c = word_of_nat (length m)" "md_total1 ?c = word_of_nat (length m div 2 ^ 32)"
    using counts_count_bytes [OF p(4), of ?b] p(1,5) by (simp_all add: counts_def)
  have m64: "length m mod 64 = ?b mod 64" using p(1,2) by (auto elim: dvdE)
  have "pad = (if length m mod 64 < 56 then 56 - length m mod 64 else 120 - length m mod 64)"
    using p(5) unfolding m64 pad_def by (cases "?b = 64") auto
  then have buf: "md_buffer ctx @ take pad fillbuf @ le_bytes (push_bit 3 (md_total0 ?c)) @
      le_bytes (push_bit 3 (md_total1 ?c) OR drop_bit 29 (md_total0 ?c)) = md_buffer ctx @ md5_pad m"
    unfolding c hi_bits by (simp add: md5_pad_def push_bit_eq_mult mult.commute)
  have "md5_finish_ctx ctx = md5_read_ctx (md5_process_block (md_buffer ctx @ md5_pad m) ?c)"
    unfolding md5_finish_ctx_def Let_def pad_def [symmetric] count_bytes_frame buf ..
  also have "md_regs (md5_process_block (md_buffer ctx @ md5_pad m) ?c) = md5_blocks (m @ md5_pad m) md5_init"
    using md5_blocks_append [OF p(2)] by (simp add: md5_process_block_def Let_def p(1,3))
  then have "md5_read_ctx (md5_process_block (md_buffer ctx @ md5_pad m) ?c) = md5_digest m"
    by (simp add: md5_read_ctx_def md5_digest_def)
  finally show ?thesis .
qed

lemma fold_process_fed: "fed ctx m \<Longrightarrow> \<forall>x \<in> set xs. length x < 2 ^ 32 \<Longrightarrow> fed (fold md5_process_bytes xs ctx) (m @ concat xs)"
proof (induction xs arbitrary: ctx m)
  case (Cons x xs)
  have "fed (md5_process_bytes x ctx) (m @ x)" using process_bytes_fed Cons.prems by simp
  from Cons.IH [OF this] Cons.prems(2) show ?case by simp
qed simp

lemma md5_fold:
  "\<forall>x \<in> set xs. length x < 2 ^ 32 \<Longrightarrow>
   md5_finish_ctx (fold md5_process_bytes xs md5_init_ctx) = md5_digest (concat xs)"
  using finish_fed [OF fold_process_fed [OF fed_init]] by simp

text \<open>C22: However a message is cut into pieces for \<open>md5_process_bytes\<close>, the result is the digest of the
  whole message.\<close>

theorem md5_pieces:
  assumes "\<forall>x \<in> set xs. length x < 2 ^ 32"
  shows "md5_finish_ctx (fold md5_process_bytes xs md5_init_ctx) = md5_digest (concat xs)"
  by (rule md5_fold [OF assms])

lemma md5_pieces_witness:
  "md5_finish_ctx (fold md5_process_bytes [''na'', ''p''] md5_init_ctx) = md5_digest ''nap''"
  using md5_pieces [of "[''na'', ''p'']"] by simp

lemma stream_loop_fed:
  "fed ctx m \<Longrightarrow> md_buffer ctx = [] \<Longrightarrow> fed (stream_loop data ctx) (m @ data)"
proof (induction data ctx arbitrary: m rule: stream_loop.induct)
  case (1 data ctx)
  show ?case
  proof (cases "length data < 4096")
    case True
    then show ?thesis
      using 1(2) process_bytes_fed [OF 1(2), of data] by (subst stream_loop.simps) simp
  next
    case False
    have p: "64 dvd length m" "md_regs ctx = md5_blocks m md5_init" "counts ctx (length m)"
      using 1(2,3) by (auto simp: fed_def)
    have l: "length (take 4096 data) < 2 ^ 32" "64 dvd length (take 4096 data)" using False by simp_all
    note P = process_block_fed [OF p(3,2,1) l(1)]
    let ?c = "md5_process_block (take 4096 data) ctx"
    have "fed ?c (m @ take 4096 data)"
      unfolding fed_def using P 1(3) p(1) l(2) by (intro exI [of _ "m @ take 4096 data"]) simp
    from 1(1) [OF False this] P(3) 1(3) show ?thesis
      using False by (subst stream_loop.simps) simp
  qed
qed

text \<open>\<open>md5_stream\<close>, which reads a file block by block, computes the digest of the whole file.\<close>

lemma md5_stream_digest: "md5_stream data = md5_digest data"
proof -
  have "md_buffer md5_init_ctx = []" by (simp add: md5_init_ctx_def)
  from finish_fed [OF stream_loop_fed [OF fed_init this]] show ?thesis by (simp add: md5_stream_def)
qed

end
