(* ===== verification/Passwd.thy ===== *)
theory Passwd
  imports Md5 Text
begin

text \<open>
  Stored passwords (\<open>src/util.c\<close>): base 64, \<open>generate_pass\<close> and \<open>check_pass\<close>.  Bytes are \<open>8 word\<close>s, as the
  \<open>unsigned char\<close>s of the code.  The result \<open>None\<close> of \<open>b64_decode\<close> and \<open>check_pass\<close> is a read or write
  outside an object, or of bytes never written: behind the end of the string, behind a table, or in
  the array \<open>real\<close> of 16 bytes.
\<close>

section \<open>Base 64\<close>

definition byte :: "char \<Rightarrow> 8 word" where
  "byte c = word_of_nat (code c)"

definition unbyte :: "8 word \<Rightarrow> char" where
  "unbyte w = char_of (unat w)"

definition b64_alphabet :: string where
  "b64_alphabet = ''ABCDEFGHIJKLMNOPQRSTUVWXYZabcdefghijklmnopqrstuvwxyz0123456789+/''"

definition alphabet :: "8 word \<Rightarrow> char" where
  "alphabet w = b64_alphabet ! unat w"

text \<open>The body of the loop for three, two and one bytes; \<open>0xff\<close> marks a missing group.\<close>

definition b64_group :: "8 word \<Rightarrow> 8 word option \<Rightarrow> 8 word option \<Rightarrow> string" where
  "b64_group x y z =
     (let a = drop_bit 2 x AND 0x3F;
          b = push_bit 4 (x AND 0x3);
          b = (case y of None \<Rightarrow> b | Some y \<Rightarrow> b OR (drop_bit 4 y AND 0xF));
          c = (case y of None \<Rightarrow> 0xFF
               | Some y \<Rightarrow> (case z of None \<Rightarrow> push_bit 2 (y AND 0xF)
                            | Some z \<Rightarrow> push_bit 2 (y AND 0xF) OR (drop_bit 6 z AND 0x3)));
          d = (case z of None \<Rightarrow> 0xFF | Some z \<Rightarrow> z AND 0x3F)
      in [alphabet a, alphabet b] @
         (if c \<noteq> 0xFF then alphabet c # (if d \<noteq> 0xFF then [alphabet d] else ''='') else ''==''))"

fun b64_encode :: "string \<Rightarrow> string" where
  "b64_encode [] = []"
| "b64_encode [x] = b64_group (byte x) None None"
| "b64_encode [x, y] = b64_group (byte x) (Some (byte y)) None"
| "b64_encode (x # y # z # r) = b64_group (byte x) (Some (byte y)) (Some (byte z)) @ b64_encode r"

definition b64_table :: "int list" where
  "b64_table =
    [-1, -1, -1, -1, -1, -1, -1, -1, -1, -1, -1, -1, -1, -1, -1, -1,
     -1, -1, -1, -1, -1, -1, -1, -1, -1, -1, -1, -1, -1, -1, -1, -1,
     -1, -1, -1, -1, -1, -1, -1, -1, -1, -1, -1, 62, -1, -1, -1, 63,
     52, 53, 54, 55, 56, 57, 58, 59, 60, 61, -1, -1, -1, -1, -1, -1,
     -1, 0, 1, 2, 3, 4, 5, 6, 7, 8, 9, 10, 11, 12, 13, 14,
     15, 16, 17, 18, 19, 20, 21, 22, 23, 24, 25, -1, -1, -1, -1, -1,
     -1, 26, 27, 28, 29, 30, 31, 32, 33, 34, 35, 36, 37, 38, 39, 40,
     41, 42, 43, 44, 45, 46, 47, 48, 49, 50, 51, -1, -1, -1, -1, -1]"

definition b64_lookup :: "char \<Rightarrow> 8 word option" where
  "b64_lookup c = (if code c < 128 then Some (word_of_int (b64_table ! code c)) else None)"

text \<open>
  One round of the loop of \<open>b64_decode\<close>: the bytes that it writes, and the rest of the string if the
  loop goes on.
\<close>

fun b64_round :: "string \<Rightarrow> (8 word list \<times> string option) option" where
  "b64_round (p # q # r) =
     (case (b64_lookup p, b64_lookup q) of
        (Some a, Some b) \<Rightarrow>
          let o1 = push_bit 2 a OR drop_bit 4 b; b2 = push_bit 4 b in
          (case r of
             [] \<Rightarrow> Some ([o1], None)
           | u # r \<Rightarrow>
               if u = CHR ''='' then Some ([o1], None)
               else case b64_lookup u of
                 None \<Rightarrow> None
               | Some c \<Rightarrow>
                   let o2 = b2 OR drop_bit 2 c; b3 = push_bit 6 c in
                   (case r of
                      [] \<Rightarrow> Some ([o1, o2], None)
                    | v # r \<Rightarrow>
                        if v = CHR ''='' then Some ([o1, o2], None)
                        else map_option (\<lambda>d. ([o1, o2, b3 OR d], Some r)) (b64_lookup v)))
      | _ \<Rightarrow> None)"
| "b64_round _ = None"

lemma b64_round_shorter: "b64_round s = Some (bs, Some r) \<Longrightarrow> length r < length s"
  by (cases s rule: b64_round.cases)
    (auto simp: Let_def split: option.splits list.splits if_splits)

function b64_decode :: "string \<Rightarrow> string option" where
  "b64_decode s =
     (if s = [] then Some []
      else case b64_round s of
        None \<Rightarrow> None
      | Some (bs, None) \<Rightarrow> Some (map unbyte bs)
      | Some (bs, Some r) \<Rightarrow> map_option (\<lambda>t. map unbyte bs @ t) (b64_decode r))"
  by auto
termination by (relation "measure length") (auto dest: b64_round_shorter)

declare b64_decode.simps [simp del]

section \<open>Passwords\<close>

text \<open>\<open>rnd\<close> are the values of \<open>rand ()\<close>.\<close>

definition pass_salt :: "nat list \<Rightarrow> string" where
  "pass_salt rnd = map (\<lambda>c. b64_alphabet ! (code c mod 64)) (get_random_bytes rnd 8)"

definition pass_hash :: "string \<Rightarrow> string \<Rightarrow> string" where
  "pass_hash salt pass = md5_finish_ctx (md5_process_bytes pass (md5_process_bytes salt md5_init_ctx))"

definition generate_pass :: "nat list \<Rightarrow> string \<Rightarrow> string" where
  "generate_pass rnd pass =
     (let salt = pass_salt rnd
      in ''1,'' @ salt @ '','' @ take 22 (b64_encode (pass_hash salt pass)))"

text \<open>\<open>Some True\<close> is the return value 0, \<open>Some False\<close> is -1.\<close>

definition check_pass :: "string \<Rightarrow> string \<Rightarrow> bool option" where
  "check_pass info pass =
     (case info of
        c1 # c2 # info \<Rightarrow>
          if c1 \<noteq> CHR ''1'' \<or> c2 \<noteq> CHR '','' then Some False
          else if length info < 8 then None
          else (case drop 8 info of
                  [] \<Rightarrow> Some False
                | c3 # rest \<Rightarrow>
                    if c3 \<noteq> CHR '','' then Some False
                    else (case b64_decode rest of
                            None \<Rightarrow> None
                          | Some real \<Rightarrow>
                              if length real = 16 then Some (real = pass_hash (take 8 info) pass) else None))
      | _ \<Rightarrow> Some False)"

section \<open>What is encoded can be decoded\<close>

lemma unbyte_byte [simp]: "unbyte (byte c) = c"
  by (simp add: unbyte_def byte_def unat_of_nat)

lemma alphabet_ok: "i < 64 \<Longrightarrow> b64_lookup (b64_alphabet ! i) = Some (word_of_nat i) \<and> b64_alphabet ! i \<noteq> CHR ''=''"
proof -
  have "list_all (\<lambda>i. b64_lookup (b64_alphabet ! i) = Some (word_of_nat i) \<and> b64_alphabet ! i \<noteq> CHR ''='') [0..<64]"
    by code_simp
  then show "i < 64 \<Longrightarrow> b64_lookup (b64_alphabet ! i) = Some (word_of_nat i) \<and> b64_alphabet ! i \<noteq> CHR ''=''"
    by (simp add: list_all_iff)
qed

lemma alphabet_word: "unat w < 64 \<Longrightarrow> b64_lookup (alphabet w) = Some w \<and> alphabet w \<noteq> CHR ''=''"
  using alphabet_ok [of "unat w"] by (simp add: alphabet_def)

lemma masks: "(0x3F :: 8 word) = mask 6" "(0xF :: 8 word) = mask 4" "(0x3 :: 8 word) = mask 2"
  by (simp_all add: mask_eq_exp_minus_1)

lemma byte_eqI:
  fixes v w :: "8 word"
  assumes "\<And>n. n \<in> {0, 1, 2, 3, 4, 5, 6, 7} \<Longrightarrow> bit v n = bit w n"
  shows "v = w"
  using assms by (intro bit_word_eqI) (auto simp: less_Suc_eq numeral_eq_Suc)

lemma six_bits:
  fixes x y z :: "8 word"
  defines "a \<equiv> drop_bit 2 x AND 0x3F" and "b0 \<equiv> push_bit 4 (x AND 0x3)"
    and "b \<equiv> push_bit 4 (x AND 0x3) OR (drop_bit 4 y AND 0xF)"
    and "c0 \<equiv> push_bit 2 (y AND 0xF)" and "c \<equiv> push_bit 2 (y AND 0xF) OR (drop_bit 6 z AND 0x3)"
    and "d \<equiv> z AND 0x3F"
  shows "unat a < 64" "unat b0 < 64" "unat b < 64" "unat c0 < 64" "unat c < 64" "unat d < 64"
    and "push_bit 2 a OR drop_bit 4 b0 = x" "push_bit 2 a OR drop_bit 4 b = x"
    and "push_bit 4 b OR drop_bit 2 c0 = y" "push_bit 4 b OR drop_bit 2 c = y"
    and "push_bit 6 c OR d = z"
proof -
  have six: "unat w < 64" if "w AND 0x3F = w" for w :: "8 word"
  proof -
    have "w = take_bit 6 w" using that by (simp add: take_bit_eq_mask mask_eq_exp_minus_1)
    then have "unat w = take_bit 6 (unat w)" by (metis unsigned_take_bit_eq)
    also have "\<dots> < 2 ^ 6" by (rule take_bit_nat_less_exp)
    finally show ?thesis by simp
  qed
  show "unat a < 64" by (rule six) (simp add: a_def and.assoc)
  show "unat d < 64" by (rule six) (simp add: d_def and.assoc)
  show "unat b0 < 64" "unat b < 64" "unat c0 < 64" "unat c < 64"
    unfolding b0_def b_def c0_def c_def masks
    by (rule six; rule bit_word_eqI; auto simp: bit_simps masks)+
  show "push_bit 2 a OR drop_bit 4 b0 = x"
    unfolding a_def b0_def masks by (rule byte_eqI, auto simp: bit_simps; simp add: numeral_eq_Suc)
  show "push_bit 2 a OR drop_bit 4 b = x"
    unfolding a_def b_def masks by (rule byte_eqI, auto simp: bit_simps; simp add: numeral_eq_Suc)
  show "push_bit 4 b OR drop_bit 2 c0 = y"
    unfolding b_def c0_def masks by (rule byte_eqI, auto simp: bit_simps; simp add: numeral_eq_Suc)
  show "push_bit 4 b OR drop_bit 2 c = y"
    unfolding b_def c_def masks by (rule byte_eqI, auto simp: bit_simps; simp add: numeral_eq_Suc)
  show "push_bit 6 c OR d = z"
    unfolding c_def d_def masks by (rule byte_eqI, auto simp: bit_simps; simp add: numeral_eq_Suc)
qed

lemma not_ff: "unat w < 64 \<Longrightarrow> w \<noteq> (0xFF :: 8 word)"
  by auto

lemma b64_round_group3: "b64_round (b64_group x (Some y) (Some z) @ r) = Some ([x, y, z], Some r)"
  using alphabet_word [OF six_bits(1) [of x]] alphabet_word [OF six_bits(3) [where x = x and y = y]]
    alphabet_word [OF six_bits(5) [where y = y and z = z]] alphabet_word [OF six_bits(6) [of z]]
    not_ff [OF six_bits(5) [where y = y and z = z]] not_ff [OF six_bits(6) [of z]]
    six_bits(8) [where x = x and y = y] six_bits(10) [where x = x and y = y and z = z]
    six_bits(11) [where y = y and z = z]
  by (simp add: b64_group_def Let_def)

lemma b64_round_last: "b64_round (take 2 (b64_group x None None)) = Some ([x], None)"
  using alphabet_word [OF six_bits(1) [of x]] alphabet_word [OF six_bits(2) [of x]] six_bits(7) [of x]
  by (simp add: b64_group_def Let_def)

text \<open>A digest of 16 bytes is five groups of three and one byte; the two \<open>=\<close> at the end are cut off.\<close>

lemma b64_decode_groups:
  "length s = 3 * n + 1 \<Longrightarrow> b64_decode (take (4 * n + 2) (b64_encode s)) = Some s"
proof (induction n arbitrary: s)
  case 0
  then obtain x where s: "s = [x]" by (cases s) auto
  have "take 2 (b64_group (byte x) None None) \<noteq> []" by (simp add: b64_group_def Let_def)
  then show ?case
    using b64_round_last [of "byte x"] by (subst b64_decode.simps) (simp add: s numeral_2_eq_2)
next
  case (Suc n)
  then obtain x y z r where s: "s = x # y # z # r" "length r = 3 * n + 1"
    by (cases s rule: b64_encode.cases) auto
  let ?g = "b64_group (byte x) (Some (byte y)) (Some (byte z))"
  have g: "length ?g = 4" using not_ff [OF six_bits(5) [where y = "byte y" and z = "byte z"]]
      not_ff [OF six_bits(6) [of "byte z"]] by (simp add: b64_group_def Let_def)
  then have t: "take (4 * Suc n + 2) (b64_encode s) = ?g @ take (4 * n + 2) (b64_encode r)" by (simp add: s)
  have "?g @ take (4 * n + 2) (b64_encode r) \<noteq> []" using g by auto
  then show ?case
    unfolding t using Suc.IH [OF s(2)] by (subst b64_decode.simps) (simp add: b64_round_group3 s)
qed

lemma length_pass_salt: "length rnd = 2 \<Longrightarrow> length (pass_salt rnd) = 8"
  by (simp add: pass_salt_def length_get_random_bytes)

lemma length_md5_finish_ctx: "length (md5_finish_ctx ctx) = 16"
  by (simp add: md5_finish_ctx_def md5_read_ctx_def le_bytes_def Let_def split: prod.split)

text \<open>C20: A password that \<open>generate_pass\<close> has stored is accepted by \<open>check_pass\<close>, and another one is accepted
  exactly when its salted digest is the same; in both cases the check stays inside its arrays.\<close>

theorem pass_checked:
  assumes "length rnd = 2" "length p < 2 ^ 32" "length q < 2 ^ 32"
  shows "check_pass (generate_pass rnd p) q = Some (md5_digest (pass_salt rnd @ p) = md5_digest (pass_salt rnd @ q))"
proof -
  let ?salt = "pass_salt rnd"
  have h: "pass_hash ?salt x = md5_digest (?salt @ x)" if "length x < 2 ^ 32" for x
    using md5_fold [of "[?salt, x]"] that length_pass_salt [OF assms(1)] by (simp add: pass_hash_def)
  have "length (pass_hash ?salt p) = 3 * 5 + 1" by (simp add: pass_hash_def length_md5_finish_ctx)
  from b64_decode_groups [OF this] have d: "b64_decode (take 22 (b64_encode (pass_hash ?salt p))) = Some (pass_hash ?salt p)"
    by simp
  have l: "length ?salt = 8" by (rule length_pass_salt [OF assms(1)])
  have "check_pass (generate_pass rnd p) q = Some (pass_hash ?salt p = pass_hash ?salt q)"
    unfolding generate_pass_def Let_def using d l
    by (simp add: check_pass_def pass_hash_def length_md5_finish_ctx)
  then show ?thesis using h assms(2,3) by simp
qed

lemma pass_checked_witness:
  "check_pass (generate_pass [7, 8] ''secret'') ''secret'' = Some True"
  using pass_checked [of "[7, 8]" "''secret''" "''secret''"] by simp

end
