(* ===== verification/Tables.thy ===== *)
theory Tables
  imports CHash
begin

text \<open>
  A hash table and the store of the objects it points to: every object is found under its name, and
  nothing else is in the table.  The user database and the hotlists are kept this way.
\<close>

definition table_ok :: "nat htab \<Rightarrow> (nat \<rightharpoonup> 'o) \<Rightarrow> ('o \<Rightarrow> string) \<Rightarrow> bool" where
  "table_ok h m name \<longleftrightarrow>
     hash_invar h \<and>
     (\<forall>d D. m d = Some D \<longrightarrow> hash_stack h (name D) = [d]) \<and>
     (\<forall>k d. d \<in> set (hash_stack h k) \<longrightarrow> (\<exists>D. m d = Some D \<and> strcaseeq k (name D)))"

lemma table_okI:
  assumes "hash_invar h" "\<And>d D. m d = Some D \<Longrightarrow> hash_stack h (name D) = [d]"
    and "\<And>k d. d \<in> set (hash_stack h k) \<Longrightarrow> \<exists>D. m d = Some D \<and> strcaseeq k (name D)"
  shows "table_ok h m name"
  unfolding table_ok_def using assms by blast

lemma table_okD:
  assumes "table_ok h m name"
  shows "hash_invar h" "m d = Some D \<Longrightarrow> hash_stack h (name D) = [d]"
    and "d \<in> set (hash_stack h k) \<Longrightarrow> \<exists>D. m d = Some D \<and> strcaseeq k (name D)"
  using assms unfolding table_ok_def by blast+

lemma table_ok_lookup:
  assumes "table_ok h m name" "hash_lookup h k = Some d"
  obtains D where "m d = Some D" "strcaseeq k (name D)"
proof -
  have "d \<in> set (hash_stack h k)" using assms(2) by (auto simp: hash_lookup_stack split: list.splits)
  with table_okD(3) [OF assms(1)] that show thesis by blast
qed

lemma table_ok_named: "table_ok h m name \<Longrightarrow> m d = Some D \<Longrightarrow> hash_lookup h (name D) = Some d"
  by (simp add: hash_lookup_stack table_okD(2))

text \<open>At most one object bears a name.\<close>

lemma table_ok_unique:
  assumes "table_ok h m name" "m d = Some D" "m e = Some E" "strcaseeq (name D) (name E)"
  shows "d = e"
  using table_okD(2) [OF assms(1,2)] table_okD(2) [OF assms(1,3)] hash_stack_cong [OF assms(4), of h] by simp

lemma table_ok_stack:
  assumes t: "table_ok h m name" and l: "hash_lookup h k = Some d"
  shows "hash_stack h k = [d]"
proof -
  obtain D where "m d = Some D" "strcaseeq k (name D)" by (rule table_ok_lookup [OF t l])
  then show ?thesis using table_okD(2) [OF t] hash_stack_cong [of k "name D" h] by simp
qed

lemma table_ok_add:
  assumes t: "table_ok h m name" and d: "m d = None" and l: "hash_lookup h (name D) = None"
  shows "table_ok (hash_add h (name D) d) (m(d \<mapsto> D)) name"
proof (rule table_okI)
  have inv: "hash_invar h" by (rule table_okD(1) [OF t])
  then show "hash_invar (hash_add h (name D) d)" by (rule hash_invar_add)
  have e: "hash_stack h (name D) = []" using l by (simp add: hash_lookup_stack split: list.splits)
  show "hash_stack (hash_add h (name D) d) (name E) = [e]" if "(m(d \<mapsto> D)) e = Some E" for e E
  proof (cases "e = d")
    case True
    then show ?thesis using that e by (simp add: hash_stack_add [OF inv])
  next
    case False
    then have E: "hash_stack h (name E) = [e]" using that table_okD(2) [OF t] by simp
    then have "\<not> strcaseeq (name D) (name E)" using e hash_stack_cong [of "name D" "name E" h] by auto
    then show ?thesis using E by (simp add: hash_stack_add [OF inv])
  qed
  show "\<exists>E. (m(d \<mapsto> D)) e = Some E \<and> strcaseeq k (name E)"
    if "e \<in> set (hash_stack (hash_add h (name D) d) k)" for k e
    using that table_okD(3) [OF t, of e k] d strcaseeq_sym [of "name D" k]
    by (auto simp: hash_stack_add [OF inv] split: if_splits)
qed

lemma table_ok_remove:
  assumes t: "table_ok h m name" and l: "hash_lookup h k = Some d"
  shows "table_ok (fst (hash_remove h k)) (m(d := None)) name"
proof (rule table_okI)
  have inv: "hash_invar h" by (rule table_okD(1) [OF t])
  then show "hash_invar (fst (hash_remove h k))" by (rule hash_invar_remove)
  obtain D where D: "m d = Some D" "strcaseeq k (name D)" by (rule table_ok_lookup [OF t l])
  have st: "hash_stack h k = [d]" by (rule table_ok_stack [OF t l])
  show "hash_stack (fst (hash_remove h k)) (name E) = [e]" if "(m(d := None)) e = Some E" for e E
  proof -
    have e: "e \<noteq> d" "m e = Some E" using that by (auto split: if_splits)
    then have "\<not> strcaseeq k (name E)"
      using st table_okD(2) [OF t e(2)] hash_stack_cong [of k "name E" h] by auto
    then show ?thesis using table_okD(2) [OF t e(2)] by (simp add: hash_stack_remove [OF inv])
  qed
  show "\<exists>E. (m(d := None)) e = Some E \<and> strcaseeq j (name E)"
    if "e \<in> set (hash_stack (fst (hash_remove h k)) j)" for j e
  proof -
    have "hash_stack h j = [d]" if "strcaseeq k j" using hash_stack_cong [OF that, of h] st by simp
    then have j: "\<not> strcaseeq k j \<and> e \<in> set (hash_stack h j)"
      using that by (cases "strcaseeq k j") (simp_all add: hash_stack_remove [OF inv])
    then obtain E where E: "m e = Some E" "strcaseeq j (name E)" using table_okD(3) [OF t] by blast
    have "e \<noteq> d"
    proof
      assume "e = d"
      then have "strcaseeq k j" using D E by (simp add: strcaseeq_def)
      with j show False by blast
    qed
    then show ?thesis using E by simp
  qed
qed

lemma table_ok_upd:
  assumes t: "table_ok h m name" and f: "\<And>D. name (f D) = name D"
  shows "table_ok h (m(d := map_option f (m d))) name"
proof (rule table_okI)
  show "hash_invar h" by (rule table_okD(1) [OF t])
  show "hash_stack h (name E) = [e]" if "(m(d := map_option f (m d))) e = Some E" for e E
    using that table_okD(2) [OF t] f by (auto split: if_splits)
  show "\<exists>E. (m(d := map_option f (m d))) e = Some E \<and> strcaseeq k (name E)" if "e \<in> set (hash_stack h k)" for k e
    using table_okD(3) [OF t that] f by auto
qed

text \<open>The values that \<open>hash_foreach\<close> visits.\<close>

lemma set_free_hash:
  assumes "hash_invar h"
  shows "d \<in> set (free_hash h) \<longleftrightarrow> (\<exists>k. d \<in> set (hash_stack h k))"
proof
  assume "d \<in> set (free_hash h)"
  then obtain b k where b: "b \<in> set (bucket h)" "(k, d) \<in> set b" by (auto simp: free_hash_def)
  then obtain i where i: "i < numbuckets h" "b = bucket h ! i" by (auto simp: in_set_conv_nth numbuckets_def)
  then have "hash_string (numbuckets h) k = i" using assms b(2) by (auto simp: hash_invar_def)
  then have "d \<in> set (hash_stack h k)" using b(2) i by (force simp: hash_stack_def)
  then show "\<exists>k. d \<in> set (hash_stack h k)" ..
next
  assume "\<exists>k. d \<in> set (hash_stack h k)"
  then obtain k where k: "d \<in> set (hash_stack h k)" ..
  have "hash_string (numbuckets h) k < numbuckets h"
    using assms by (intro hash_string_less) (simp add: hash_invar_def)
  then show "d \<in> set (free_hash h)"
    using k by (force simp: hash_stack_def free_hash_def numbuckets_def)
qed

lemma table_ok_values: "table_ok h m name \<Longrightarrow> set (free_hash h) = dom m"
proof -
  assume t: "table_ok h m name"
  have "(\<exists>k. d \<in> set (hash_stack h k)) \<longleftrightarrow> d \<in> dom m" for d
  proof
    assume "\<exists>k. d \<in> set (hash_stack h k)"
    then show "d \<in> dom m" using table_okD(3) [OF t] by blast
  next
    assume "d \<in> dom m"
    then obtain D where "m d = Some D" by blast
    then have "d \<in> set (hash_stack h (name D))" using table_okD(2) [OF t] by simp
    then show "\<exists>k. d \<in> set (hash_stack h k)" ..
  qed
  then show ?thesis using set_free_hash [OF table_okD(1) [OF t]] by blast
qed

lemma hash_foreach_values: "hash_foreach h f s = fold f (free_hash h) s"
  by (simp add: hash_foreach_def free_hash_def)

text \<open>No object is visited twice.\<close>

lemma distinct_count_list: "(\<And>d. count_list xs d \<le> 1) \<Longrightarrow> distinct xs"
proof (induction xs)
  case (Cons x xs)
  have "count_list xs x = 0" using Cons.prems [of x] by simp
  moreover have "count_list xs d \<le> 1" for d using Cons.prems [of d] by (cases "d = x") simp_all
  ultimately show ?case using Cons.IH by (simp add: count_list_0_iff)
qed simp

lemma count_list_concat: "count_list (concat xss) d = sum_list (map (\<lambda>xs. count_list xs d) xss)"
  by (induction xss) (simp_all add: count_list_append)

lemma sum_list_single:
  "(\<And>j. j < length xs \<Longrightarrow> j \<noteq> i \<Longrightarrow> f (xs ! j) = (0::nat)) \<Longrightarrow> (i < length xs \<Longrightarrow> f (xs ! i) \<le> B) \<Longrightarrow>
   sum_list (map f xs) \<le> B"
proof (induction xs arbitrary: i)
  case (Cons x xs)
  show ?case
  proof (cases i)
    case 0
    have "f (xs ! j) = 0" if "j < length xs" for j using Cons.prems(1) [of "Suc j"] that 0 by simp
    then have "\<forall>x \<in> set xs. f x = 0" by (auto simp: in_set_conv_nth)
    then have "sum_list (map f xs) = 0" by (induction xs) auto
    then show ?thesis using Cons.prems(2) 0 by (simp del: sum_list_eq_0_iff)
  next
    case (Suc k)
    have "sum_list (map f xs) \<le> B"
    proof (rule Cons.IH)
      show "f (xs ! j) = 0" if "j < length xs" "j \<noteq> k" for j using Cons.prems(1) [of "Suc j"] that Suc by simp
      show "f (xs ! k) \<le> B" if "k < length xs" using Cons.prems(2) that Suc by simp
    qed
    then show ?thesis using Cons.prems(1) [of 0] Suc by simp
  qed
qed simp

lemma count_list_filter: "(\<And>x. x \<in> set xs \<Longrightarrow> snd x = d \<Longrightarrow> P x) \<Longrightarrow> count_list (map snd xs) d \<le> length (filter P xs)"
  by (induction xs) auto

lemma table_ok_distinct:
  assumes t: "table_ok h m name"
  shows "distinct (free_hash h)"
proof (rule distinct_count_list)
  fix d
  note T = table_okD [OF t]
  show "count_list (free_hash h) d \<le> 1"
  proof (cases "m d")
    case None
    then have "d \<notin> set (free_hash h)" using table_ok_values [OF t] by auto
    then show ?thesis by (simp add: count_list_0_iff)
  next
    case (Some D)
    let ?i = "hash_string (numbuckets h) (name D)"
    have key: "strcaseeq (name D) k \<and> j = ?i" if j: "j < numbuckets h" "(k, d) \<in> set (bucket h ! j)" for j k
    proof -
      have h: "hash_string (numbuckets h) k = j" using T(1) j by (auto simp: hash_invar_def)
      then have "d \<in> set (hash_stack h k)" using j(2) by (force simp: hash_stack_def)
      then have "strcaseeq (name D) k" using T(3) [of d k] Some by (auto simp: strcaseeq_def)
      then show ?thesis using h hash_string_cong by auto
    qed
    have i: "?i < numbuckets h" using T(1) by (intro hash_string_less) (simp add: hash_invar_def)
    have zero: "count_list (map snd (bucket h ! j)) d = 0" if j: "j < numbuckets h" "j \<noteq> ?i" for j
    proof -
      have "(k, d) \<notin> set (bucket h ! j)" for k using key [OF j(1)] j(2) by blast
      then show ?thesis by (auto simp: count_list_0_iff)
    qed
    have "count_list (map snd (bucket h ! ?i)) d \<le> length (filter (\<lambda>(k, e). strcaseeq (name D) k) (bucket h ! ?i))"
      by (rule count_list_filter) (use key [OF i] in auto)
    also have "\<dots> = length (hash_stack h (name D))" by (simp add: hash_stack_def)
    also have "\<dots> = 1" by (simp add: T(2) [OF Some])
    finally have one: "count_list (map snd (bucket h ! ?i)) d \<le> 1" .
    have "free_hash h = concat (map (map snd) (bucket h))" by (simp add: free_hash_def map_concat)
    then have "count_list (free_hash h) d = sum_list (map (\<lambda>b. count_list (map snd b) d) (bucket h))"
      by (simp add: count_list_concat comp_def)
    also have "\<dots> \<le> 1"
      by (rule sum_list_single [where i = ?i]) (use zero one in \<open>simp_all add: numbuckets_def\<close>)
    finally show ?thesis .
  qed
qed

end
