(* ===== verification/Accounts.thy ===== *)
theory Accounts
  imports Public Passwd Tables
begin

text \<open>
  The user database (\<open>src/userdb.c\<close>) and the commands that set a user's level (\<open>src/level.c\<close>) and muzzle
  (\<open>src/muzzle.c\<close>).  The build is the one with \<open>--enable-email\<close>.
\<close>

section \<open>Registrations\<close>

text \<open>\<open>generate_pass\<close> calls \<open>rand\<close> twice.\<close>

definition make_pass :: "string \<Rightarrow> srv \<Rightarrow> string \<times> srv" where
  "make_pass pass s =
     (generate_pass [s_rand s 0, s_rand s 1] pass, s\<lparr>s_rand := (\<lambda>i. s_rand s (i + 2))\<rparr>)"

text \<open>\<open>hash_add (User_Db, db->nick, db)\<close> of a record just allocated.\<close>

definition add_db :: "userdb \<Rightarrow> srv \<Rightarrow> srv" where
  "add_db db s =
     s\<lparr>s_dbs := (s_dbs s)(s_next_db s \<mapsto> db), s_User_Db := hash_add (s_User_Db s) (db_nick db) (s_next_db s),
       s_next_db := Suc (s_next_db s)\<rparr>"

definition create_db :: "uid \<Rightarrow> srv \<Rightarrow> did \<times> srv" where
  "create_db user s =
     (let U = usr s user;
          (pw, s) = make_pass (u_pass U) s
      in (s_next_db s,
          add_db \<lparr>db_nick = u_nick U, db_password = pw,
                  db_email = snprintf_to 2048 (''anon@'' @ Server_Name (s_cfg s)), db_level = u_level U,
                  db_flags = 0, db_timestamp = s_time s, db_lastSeen = s_time s\<rparr> s))"

text \<open>\<open>hash_remove (User_Db, nick)\<close>, whose destroy callback is \<open>userdb_free\<close>.\<close>

definition db_remove :: "string \<Rightarrow> srv \<Rightarrow> srv" where
  "db_remove nick s =
     (case hash_remove (s_User_Db s) nick of
        (h, None) \<Rightarrow> s\<lparr>s_User_Db := h\<rparr>
      | (h, Some d) \<Rightarrow> s\<lparr>s_User_Db := h, s_dbs := (s_dbs s)(d := None)\<rparr>)"

subsection \<open>The user file\<close>

text \<open>One line of the file; \<open>regen\<close> is set for files of the old format, which have plain passwords.\<close>

definition load_user :: "bool \<Rightarrow> string \<Rightarrow> srv \<Rightarrow> srv" where
  "load_user regen line s =
     (let av = get_args 7 (Some line) in
      if length av < 6 \<or> invalid_nick s (av ! 0) then s
      else
        let (pw, s) = (if regen then make_pass (av ! 1) s else (av ! 1, s))
        in add_db \<lparr>db_nick = av ! 0, db_password = pw, db_email = av ! 2,
                   db_level = (case get_level (av ! 3) of None \<Rightarrow> LEVEL_USER | Some l \<Rightarrow> l),
                   db_flags = (if 6 < length av then word_of_int (atoi (av ! 6)) else 0),
                   db_timestamp = atol (av ! 4), db_lastSeen = atol (av ! 5)\<rparr> s)"

definition user_line :: "userdb \<Rightarrow> string" where
  "user_line db =
     db_nick db @ '' '' @ db_password db @ '' '' @ db_email db @ '' '' @ Levels (db_level db) @ '' '' @
     int_dec (wrap32 (db_timestamp db)) @ '' '' @ int_dec (wrap32 (db_lastSeen db)) @ '' '' @
     nat_dec (unat (db_flags db)) @ [CHR 0x0A]"

text \<open>The callback: an expired registration of a user below the moderators is removed.\<close>

definition dump_userdb :: "did \<Rightarrow> string list \<times> srv \<Rightarrow> string list \<times> srv" where
  "dump_userdb d = (\<lambda>(fp, s).
     let db = dbs s d in
     if Nick_Expire (s_cfg s) \<le> s_time s - db_lastSeen db \<and> db_level db < LEVEL_MODERATOR
     then (fp, db_remove (db_nick db) s)
     else (fp @ [user_line db], s))"

definition userdb_dump :: "srv \<Rightarrow> string list \<times> srv" where
  "userdb_dump s = hash_foreach (s_User_Db s) dump_userdb (['':version 1'' @ [CHR 0x0A]], s)"

text \<open>
  The file is the list of its lines, \<open>None\<close> when there is none (the server does not start then).  The
  result is the state and the file as it is afterwards.
\<close>

definition userdb_init :: "string list option \<Rightarrow> srv \<Rightarrow> (string list \<times> srv) option" where
  "userdb_init users s =
     (case users of
        None \<Rightarrow> None
      | Some lines \<Rightarrow>
          let s = s\<lparr>s_User_Db := hash_init 257\<rparr>;
              regen = (lines \<noteq> [] \<and> take 10 (hd lines) \<noteq> '':version 1'');
              s = fold (load_user regen) (if regen then lines else tl lines) s
          in Some (if regen then userdb_dump s else (lines, s)))"

section \<open>The level of a user\<close>

text \<open>The test \<open>user && ...\<close> on a pointer that may be NULL.\<close>

definition user_is :: "(user \<Rightarrow> bool) \<Rightarrow> uid option \<Rightarrow> srv \<Rightarrow> bool" where
  "user_is P user s \<longleftrightarrow> (case user of None \<Rightarrow> False | Some u \<Rightarrow> P (usr s u))"

definition decloak_user :: "uid \<Rightarrow> srv \<Rightarrow> srv" where
  "decloak_user user s =
     (let s = upd_user user (\<lambda>U. U\<lparr>u_cloaked := False\<rparr>) s;
          s = notify_mods CHANGELOG_MODE (u_nick (usr s user) @ '' has decloaked'') s
      in tell_user (user_con s user) ''You are no longer cloaked.'' s)"

definition level_user :: "string \<Rightarrow> uid option \<Rightarrow> uid \<Rightarrow> level \<Rightarrow> srv \<Rightarrow> srv" where
  "level_user sender senderUser user lvl s =
     (let hidden = (user_is u_cloaked senderUser s \<and> lvl < LEVEL_MODERATOR);
          s = tell_user (user_con s user) ((if hidden then ''Operator'' else sender) @
                '' changed your user level to '' @ Levels lvl @ '' ('' @ nat_dec (level_num lvl) @ '')'') s;
          s = upd_user user (\<lambda>U. U\<lparr>u_level := lvl\<rparr>) s
      in if lvl < LEVEL_MODERATOR \<and> u_cloaked (usr s user) then decloak_user user s else s)"

definition level_db :: "did \<Rightarrow> level \<Rightarrow> srv \<Rightarrow> srv" where
  "level_db d lvl s =
     upd_db d (\<lambda>db. db\<lparr>db_level := lvl, db_timestamp := s_time s,
       db_flags := (if lvl < LEVEL_MODERATOR \<and> db_flags db AND ON_CLOAKED \<noteq> 0
                    then db_flags db AND NOT ON_CLOAKED else db_flags db)\<rparr>) s"

definition level_apply ::
    "cid \<Rightarrow> nat \<Rightarrow> string \<Rightarrow> uid option \<Rightarrow> uid option \<Rightarrow> level \<Rightarrow> did \<Rightarrow> srv \<Rightarrow> srv" where
  "level_apply con tag sender senderUser user lvl d s =
     (let s = level_db d lvl s;
          s = pass_message_args (Some con) tag ('':'' @ sender @ '' '' @ db_nick (dbs s d) @ '' '' @ Levels lvl) s;
          s = notify_mods LEVELLOG_MODE (sender @ '' changed '' @ db_nick (dbs s d) @
                CHR 0x27 # ''s user level to '' @ Levels lvl @ '' ('' @ nat_dec (level_num lvl) @ '')'') s
      in case user of None \<Rightarrow> s | Some u \<Rightarrow> level_user sender senderUser u lvl s)"

text \<open>Self-demotion is allowed.\<close>

definition may_relevel :: "uid option \<Rightarrow> uid option \<Rightarrow> did \<Rightarrow> srv \<Rightarrow> bool" where
  "may_relevel senderUser user d s \<longleftrightarrow>
     (case senderUser of
        None \<Rightarrow> True
      | Some su \<Rightarrow> user = Some su \<or> u_level (usr s su) = LEVEL_ELITE \<or> db_level (dbs s d) < u_level (usr s su))"

definition level_checked ::
    "cid \<Rightarrow> nat \<Rightarrow> string \<Rightarrow> uid option \<Rightarrow> uid option \<Rightarrow> level \<Rightarrow> did \<Rightarrow> srv \<Rightarrow> srv" where
  "level_checked con tag sender senderUser user lvl d s =
     (if may_relevel senderUser user d s then level_apply con tag sender senderUser user lvl d s
      else permission_denied con s)"

text \<open>The time stamp that a server may send.\<close>

definition level_stamped ::
    "cid \<Rightarrow> nat \<Rightarrow> string \<Rightarrow> uid option \<Rightarrow> uid option \<Rightarrow> level \<Rightarrow> string list \<Rightarrow> did \<Rightarrow> srv \<Rightarrow> srv" where
  "level_stamped con tag sender senderUser user lvl av d s =
     (if ISSERVER con s \<and> 2 < length av then
        let ts = atoi (av ! 2) in
        if db_timestamp (dbs s d) < ts then
          send_cmd con MSG_CLIENT_SETUSERLEVEL ('':'' @ Server_Name (s_cfg s) @ '' '' @ db_nick (dbs s d) @ '' '' @
            Levels (db_level (dbs s d)) @ '' '' @ nat_dec (nat (db_timestamp (dbs s d) mod 2 ^ 32))) s
        else level_checked con tag sender senderUser user lvl d (upd_db d (\<lambda>db. db\<lparr>db_timestamp := ts\<rparr>) s)
      else level_checked con tag sender senderUser user lvl d s)"

definition level_target ::
    "cid \<Rightarrow> nat \<Rightarrow> string \<Rightarrow> uid option \<Rightarrow> level \<Rightarrow> string list \<Rightarrow> srv \<Rightarrow> srv" where
  "level_target con tag sender senderUser lvl av s =
     (let user = hash_lookup (s_Users s) (av ! 0) in
      case hash_lookup (s_User_Db s) (av ! 0) of
        Some d \<Rightarrow>
          if db_level (dbs s d) = lvl then s
          else if map_option (\<lambda>u. u_level (usr s u)) user = Some lvl then s
          else level_stamped con tag sender senderUser user lvl av d s
      | None \<Rightarrow>
          (case user of
             None \<Rightarrow> tell_user con ''user is is not registered'' s
           | Some u \<Rightarrow>
               if u_level (usr s u) = lvl then s
               else (case create_db u s of
                       (d, s) \<Rightarrow> level_stamped con tag sender senderUser user lvl av d s)))"

definition level :: "cid \<Rightarrow> nat \<Rightarrow> string \<Rightarrow> srv \<Rightarrow> srv" where
  "level con tag pkt s =
     (case pop_user_server con pkt s of
        None \<Rightarrow> s
      | Some (pkt, sender, senderUser) \<Rightarrow>
          let av = get_args 3 pkt in
          if length av < 2 then unparsable con s
          else case get_level (av ! 1) of
            None \<Rightarrow> tell_user con ''invalid level'' s
          | Some lvl \<Rightarrow>
              let me = u_level (usr s (c_user (cnx s con))) in
              if ISUSER con s \<and> me < LEVEL_ELITE \<and> me \<le> lvl then permission_denied con s
              else level_target con tag sender senderUser lvl av s)"

section \<open>Muzzles\<close>

definition outranks :: "uid option \<Rightarrow> uid option \<Rightarrow> did option \<Rightarrow> srv \<Rightarrow> bool" where
  "outranks sender user db s \<longleftrightarrow>
     (case sender of
        None \<Rightarrow> True
      | Some su \<Rightarrow> u_level (usr s su) = LEVEL_ELITE \<or>
          pred_option (\<lambda>u. u_level (usr s u) < u_level (usr s su)) user \<and>
          pred_option (\<lambda>d. db_level (dbs s d) < u_level (usr s su)) db)"

definition db_muzzled :: "did option \<Rightarrow> srv \<Rightarrow> bool" where
  "db_muzzled db s \<longleftrightarrow> (case db of None \<Rightarrow> False | Some d \<Rightarrow> db_flags (dbs s d) AND ON_MUZZLED \<noteq> 0)"

definition set_muzzle :: "bool \<Rightarrow> uid option \<Rightarrow> did option \<Rightarrow> srv \<Rightarrow> srv" where
  "set_muzzle on user db s =
     (let s = (case user of None \<Rightarrow> s | Some u \<Rightarrow> upd_user u (\<lambda>U. U\<lparr>u_muzzled := on\<rparr>) s)
      in case db of
           None \<Rightarrow> s
         | Some d \<Rightarrow> upd_db d (\<lambda>D. D\<lparr>db_flags := (if on then db_flags D OR ON_MUZZLED
                                               else db_flags D AND NOT ON_MUZZLED)\<rparr>) s)"

definition muzzle_notices ::
    "cid \<Rightarrow> nat \<Rightarrow> string \<Rightarrow> uid option \<Rightarrow> uid option \<Rightarrow> string \<Rightarrow> string \<Rightarrow> srv \<Rightarrow> srv" where
  "muzzle_notices con tag senderName sender user nick reason s =
     (let un = (if tag = MSG_CLIENT_MUZZLE then [] else ''un'');
          hidden = user_is u_cloaked sender s;
          s = pass_message_args (Some con) tag ('':'' @ senderName @ '' '' @ nick @ '' '' @ [dquote] @ reason @ [dquote]) s;
          s = (case user of
                 None \<Rightarrow> s
               | Some u \<Rightarrow> tell_user (user_con s u) (''You have been '' @ un @ ''muzzled'' @
                   (if hidden then [] else '' by '') @ (if hidden then [] else senderName) @ '': '' @ reason) s)
      in notify_mods MUZZLELOG_MODE (senderName @ '' has '' @ un @ ''muzzled '' @ nick @ '': '' @ reason) s)"

text \<open>Muzzling registers the user; the tag is one of the two of the command.\<close>

definition muzzle_target ::
    "cid \<Rightarrow> nat \<Rightarrow> string \<Rightarrow> uid option \<Rightarrow> uid option \<Rightarrow> did option \<Rightarrow> string \<Rightarrow> string \<Rightarrow> srv \<Rightarrow> srv" where
  "muzzle_target con tag senderName sender user db nick reason s =
     (if tag = MSG_CLIENT_MUZZLE then
        let (db, s) = (case (db, user) of
                         (None, Some u) \<Rightarrow> (case create_db u s of (d, s) \<Rightarrow> (Some d, s))
                       | _ \<Rightarrow> (db, s)) in
        if user_is u_muzzled user s \<or> db_muzzled db s
        then tell_user con ''user is already muzzled'' s
        else muzzle_notices con tag senderName sender user nick reason (set_muzzle True user db s)
      else
        if user_is (\<lambda>U. \<not> u_muzzled U) user s \<or> \<not> db_muzzled db s
        then tell_user con ''user is not muzzled'' s
        else muzzle_notices con tag senderName sender user nick reason (set_muzzle False user db s))"

definition muzzle :: "cid \<Rightarrow> nat \<Rightarrow> string \<Rightarrow> srv \<Rightarrow> srv" where
  "muzzle con tag pkt s =
     (case pop_user_server con pkt s of
        None \<Rightarrow> s
      | Some (pkt, senderName, sender) \<Rightarrow>
          let av = get_args 2 pkt in
          if length av < 1 then unparsable con s
          else
            let user = hash_lookup (s_Users s) (av ! 0); db = hash_lookup (s_User_Db s) (av ! 0) in
            if \<not> outranks sender user db s then permission_denied con s
            else if db = None \<and> user = None then nosuchuser con s
            else muzzle_target con tag senderName sender user db (av ! 0)
                   (if 1 < length av then truncate_reason s (av ! 1) else []) s)"

lemmas [handler_defs] = level_def muzzle_def

section \<open>The invariant is kept\<close>

lemma same_core_db [simp]:
  "same_core (upd_db d f s) r = same_core s r" "same_core (add_db db s) r = same_core s r"
  "same_core (snd (make_pass p s)) r = same_core s r" "same_core (snd (create_db u s)) r = same_core s r"
  by (simp_all add: same_core_def add_db_def create_db_def make_pass_def Let_def)

lemma same_core_db_remove [simp]: "same_core (db_remove n s) r = same_core s r"
  by (simp add: db_remove_def same_core_def split: prod.split option.split)

lemma wf_decloak_user: "wf s \<Longrightarrow> wf (decloak_user u s)"
  by (simp add: decloak_user_def Let_def wf_upd_user)

lemma wf_level_user: "wf s \<Longrightarrow> wf (level_user sender su u lvl s)"
  by (simp add: level_user_def Let_def wf_upd_user wf_decloak_user)

lemma wf_upd_db [simp]: "wf_upto X (upd_db d f s) = wf_upto X s"
  by (rule wf_cong) simp_all

lemma wf_level_apply: "wf s \<Longrightarrow> wf (level_apply con tag sender su user lvl d s)"
  by (simp add: level_apply_def Let_def level_db_def wf_level_user split: option.split)

text \<open>Either nothing but output and the database changes, or the level is applied.\<close>

definition reg_level :: "srv \<Rightarrow> string \<Rightarrow> uid \<Rightarrow> level" where
  "reg_level s nick u =
     (case hash_lookup (s_User_Db s) nick of Some d \<Rightarrow> db_level (dbs s d) | None \<Rightarrow> u_level (usr s u))"

lemma level_checked_cases:
  obtains "level_checked con tag sender su user lvl d s = permission_denied con s"
  | "may_relevel su user d s" "level_checked con tag sender su user lvl d s = level_apply con tag sender su user lvl d s"
  by (cases "may_relevel su user d s") (simp_all add: level_checked_def)

lemma level_stamped_cases:
  assumes t: "same_core t s"
  obtains "same_core (level_stamped con tag sender su user lvl av d t) s"
  | t' where "same_core t' s" "db_level (dbs t' d) = db_level (dbs t d)" "may_relevel su user d t'"
      "level_stamped con tag sender su user lvl av d t = level_apply con tag sender su user lvl d t'"
proof -
  let ?t = "upd_db d (\<lambda>db. db\<lparr>db_timestamp := atoi (av ! 2)\<rparr>) t"
  have l: "db_level (dbs ?t d) = db_level (dbs t d)" by (cases "s_dbs t d") simp_all
  let ?out = "level_stamped con tag sender su user lvl av d t"
  have "same_core ?out s \<or> ?out = level_checked con tag sender su user lvl d t \<or>
      ?out = level_checked con tag sender su user lvl d ?t"
    unfolding level_stamped_def Let_def using t by auto
  then consider "same_core ?out s" | "?out = level_checked con tag sender su user lvl d t"
    | "?out = level_checked con tag sender su user lvl d ?t" by blast
  then show thesis
  proof cases
    case 2
    show ?thesis
      by (rule level_checked_cases [of con tag sender su user lvl d t]) (use 2 that t in simp_all)
  next
    case 3
    show ?thesis
      by (rule level_checked_cases [of con tag sender su user lvl d ?t]) (use 3 that(1) that(2) [of ?t] t l in simp_all)
  qed (rule that)
qed

lemma level_target_cases:
  obtains "same_core (level_target con tag sender su lvl av s) s"
  | user d t where "user = hash_lookup (s_Users s) (av ! 0)" "same_core t s"
      "\<And>u. user = Some u \<Longrightarrow> db_level (dbs t d) = reg_level s (av ! 0) u"
      "may_relevel su user d t" "level_target con tag sender su lvl av s = level_apply con tag sender su user lvl d t"
proof -
  let ?user = "hash_lookup (s_Users s) (av ! 0)" and ?out = "level_target con tag sender su lvl av s"
  have "same_core ?out s \<or>
    (\<exists>d. hash_lookup (s_User_Db s) (av ! 0) = Some d \<and> ?out = level_stamped con tag sender su ?user lvl av d s) \<or>
    (\<exists>u. hash_lookup (s_User_Db s) (av ! 0) = None \<and> ?user = Some u \<and>
        ?out = level_stamped con tag sender su ?user lvl av (fst (create_db u s)) (snd (create_db u s)))"
    unfolding level_target_def Let_def case_prod_beta by (auto split: option.split)
  then consider "same_core ?out s"
    | d where "hash_lookup (s_User_Db s) (av ! 0) = Some d" "?out = level_stamped con tag sender su ?user lvl av d s"
    | u where "hash_lookup (s_User_Db s) (av ! 0) = None" "?user = Some u"
        "?out = level_stamped con tag sender su ?user lvl av (fst (create_db u s)) (snd (create_db u s))" by blast
  then show thesis
  proof cases
    case 1
    then show ?thesis by (rule that(1))
  next
    case 2
    show ?thesis
    proof (rule level_stamped_cases [of s s con tag sender su ?user lvl av d])
      fix t assume "same_core t s" "db_level (dbs t d) = db_level (dbs s d)" "may_relevel su ?user d t"
        "level_stamped con tag sender su ?user lvl av d s = level_apply con tag sender su ?user lvl d t"
      then show ?thesis using 2 by (intro that(2) [of ?user t d]) (simp_all add: reg_level_def)
    qed (use 2 that(1) in simp_all)
  next
    case 3
    let ?d = "fst (create_db u s)" and ?s = "snd (create_db u s)"
    have l: "db_level (dbs ?s ?d) = u_level (usr s u)"
      by (simp add: create_db_def make_pass_def add_db_def Let_def)
    show ?thesis
    proof (rule level_stamped_cases [of ?s s con tag sender su ?user lvl av ?d])
      fix t assume "same_core t s" "db_level (dbs t ?d) = db_level (dbs ?s ?d)" "may_relevel su ?user ?d t"
        "level_stamped con tag sender su ?user lvl av ?d ?s = level_apply con tag sender su ?user lvl ?d t"
      then show ?thesis using 3 l by (intro that(2) [of ?user t ?d]) (simp_all add: reg_level_def)
    qed (use 3 that(1) in simp_all)
  qed
qed

lemma level_cases:
  obtains "same_core (level con tag pkt s) s"
  | pkt' sender su av lvl user d t where "pop_user_server con pkt s = Some (pkt', sender, su)"
      "ISUSER con s \<Longrightarrow> u_level (usr s (c_user (cnx s con))) = LEVEL_ELITE \<or> lvl < u_level (usr s (c_user (cnx s con)))"
      "user = hash_lookup (s_Users s) (av ! 0)" "same_core t s"
      "\<And>u. user = Some u \<Longrightarrow> db_level (dbs t d) = reg_level s (av ! 0) u"
      "may_relevel su user d t" "level con tag pkt s = level_apply con tag sender su user lvl d t"
proof -
  let ?me = "u_level (usr s (c_user (cnx s con)))"
  have "same_core (level con tag pkt s) s \<or>
    (\<exists>pkt' sender su lvl. pop_user_server con pkt s = Some (pkt', sender, su) \<and>
        (ISUSER con s \<longrightarrow> \<not> (?me < LEVEL_ELITE \<and> ?me \<le> lvl)) \<and>
        level con tag pkt s = level_target con tag sender su lvl (get_args 3 pkt') s)"
    unfolding level_def Let_def by (auto split: option.split)
  then consider "same_core (level con tag pkt s) s"
    | pkt' sender su lvl where "pop_user_server con pkt s = Some (pkt', sender, su)"
        "ISUSER con s \<Longrightarrow> \<not> (?me < LEVEL_ELITE \<and> ?me \<le> lvl)"
        "level con tag pkt s = level_target con tag sender su lvl (get_args 3 pkt') s" by blast
  then show thesis
  proof cases
    case 2
    have e: "?me = LEVEL_ELITE \<or> lvl < ?me" if "ISUSER con s"
      using 2(2) [OF that] level_top(1) [of ?me] by (auto simp: less_le not_le)
    show ?thesis
      by (rule level_target_cases [of con tag sender su lvl "get_args 3 pkt'" s])
        (use 2 that e in \<open>simp_all, blast\<close>)
  qed (rule that(1))
qed

lemma wf_level: "wf s \<Longrightarrow> wf (level con tag pkt s)"
  by (rule level_cases [of con tag pkt s]) (simp_all add: same_core_wf wf_level_apply)

section \<open>Who may change a level\<close>

lemma level_user_users:
  "s_users (level_user sender su u lvl s) =
     (s_users s)(u := map_option (\<lambda>U. if lvl < LEVEL_MODERATOR \<and> u_cloaked U
        then U\<lparr>u_level := lvl, u_cloaked := False\<rparr> else U\<lparr>u_level := lvl\<rparr>) (s_users s u))"
  by (cases "s_users s u") (auto simp: level_user_def decloak_user_def Let_def fun_eq_iff)

lemma level_apply_users:
  "s_users (level_apply con tag sender su user lvl d s) =
     (case user of None \<Rightarrow> s_users s
      | Some u \<Rightarrow> (s_users s)(u := map_option (\<lambda>U. if lvl < LEVEL_MODERATOR \<and> u_cloaked U
          then U\<lparr>u_level := lvl, u_cloaked := False\<rparr> else U\<lparr>u_level := lvl\<rparr>) (s_users s u)))"
  by (simp add: level_apply_def Let_def level_db_def level_user_users split: option.split)

lemma create_db_parts [simp]:
  "s_users (snd (create_db u s)) = s_users s" "s_conns (snd (create_db u s)) = s_conns s"
  "s_chans (snd (create_db u s)) = s_chans s" "s_Users (snd (create_db u s)) = s_Users s"
  "ISUSER c (snd (create_db u s)) = ISUSER c s" "ISSERVER c (snd (create_db u s)) = ISSERVER c s"
  "s_dbs (snd (create_db u s)) (fst (create_db u s)) \<noteq> None"
  "db_level (dbs (snd (create_db u s)) (fst (create_db u s))) = u_level (usr s u)"
  by (simp_all add: create_db_def make_pass_def add_db_def Let_def ISUSER_def ISSERVER_def)

text \<open>C3: \<open>level\<close> changes the level of a user only for a local sender that is Elite or stays above the new
  level; and the sender, if it is a user, is the user itself, Elite, or above the level that the user
  is registered with.\<close>

theorem level_needs_rank:
  assumes "s_users s v = Some V" "u_level (usr (level con tag pkt s) v) \<noteq> u_level V"
  shows "\<exists>p sender su nick. pop_user_server con pkt s = Some (p, sender, su) \<and>
    hash_lookup (s_Users s) nick = Some v \<and>
    (ISUSER con s \<longrightarrow> u_level (usr s (c_user (cnx s con))) = LEVEL_ELITE \<or>
       u_level (usr (level con tag pkt s) v) < u_level (usr s (c_user (cnx s con)))) \<and>
    (case su of None \<Rightarrow> True
     | Some w \<Rightarrow> w = v \<or> u_level (usr s w) = LEVEL_ELITE \<or> reg_level s nick v < u_level (usr s w))"
proof (rule level_cases [of con tag pkt s])
  assume "same_core (level con tag pkt s) s"
  then show ?thesis using assms by (simp add: same_core_def)
next
  fix pkt' sender su av lvl user d t
  assume r: "pop_user_server con pkt s = Some (pkt', sender, su)"
    "ISUSER con s \<Longrightarrow> u_level (usr s (c_user (cnx s con))) = LEVEL_ELITE \<or> lvl < u_level (usr s (c_user (cnx s con)))"
    "user = hash_lookup (s_Users s) (av ! 0)" "same_core t s"
    "\<And>u. user = Some u \<Longrightarrow> db_level (dbs t d) = reg_level s (av ! 0) u"
    "may_relevel su user d t" "level con tag pkt s = level_apply con tag sender su user lvl d t"
  have "s_users t = s_users s" using r(4) by (simp add: same_core_def)
  then have u: "user = Some v" "u_level (usr (level con tag pkt s) v) = lvl"
    using assms unfolding r(7) level_apply_users by (auto split: option.splits if_splits)
  have "case su of None \<Rightarrow> True
     | Some w \<Rightarrow> w = v \<or> u_level (usr s w) = LEVEL_ELITE \<or> reg_level s (av ! 0) v < u_level (usr s w)"
    using r(5) [OF u(1)] r(6) u(1) unfolding may_relevel_def \<open>s_users t = s_users s\<close>
    by (auto split: option.splits)
  then show ?thesis using r(1-3) u by blast
qed

lemma level_needs_rank_witness:
  "u_level (usr (level 0 606 ''bob leech'' sample) 1) = LEVEL_LEECH \<and>
   (\<exists>p sender su nick. pop_user_server 0 ''bob leech'' sample = Some (p, sender, su) \<and>
      hash_lookup (s_Users sample) nick = Some 1)"
proof -
  let ?d = "fst (create_db 1 sample)" and ?s = "snd (create_db 1 sample)"
  have a: "get_args 3 (Some ''bob leech'') = [''bob'', ''leech'']" by (simp add: text_eval numeral_eq_Suc)
  have g: "get_level ''leech'' = Some LEVEL_LEECH" by (simp add: get_level_def strncaseeq_def char_eval)
  have n: "hash_lookup (s_User_Db sample) ''bob'' = None" by (simp add: sample_def hash_lookup_init)
  have m: "may_relevel (Some 0) (Some 1) ?d ?s" by (simp add: may_relevel_def sample_parts level_order)
  have "level 0 606 ''bob leech'' sample = level_apply 0 606 ''alice'' (Some 0) (Some 1) LEVEL_LEECH ?d ?s"
    using m by (simp add: level_def a g n level_target_def level_stamped_def level_checked_def
        pop_user_server_def sample_parts level_order case_prod_beta)
  then have l: "u_level (usr (level 0 606 ''bob leech'' sample) 1) = LEVEL_LEECH"
    by (simp add: level_apply_users sample_parts)
  show ?thesis using level_needs_rank [of sample 1 "sample_user ''bob'' LEVEL_USER True 1 [0] []" 0 606 "''bob leech''"] l
    by (auto simp: sample_user_def)
qed

section \<open>The user database stays consistent\<close>

definition db_ok :: "srv \<Rightarrow> bool" where
  "db_ok s \<longleftrightarrow> table_ok (s_User_Db s) (s_dbs s) db_nick \<and> (\<forall>d D. s_dbs s d = Some D \<longrightarrow> d < s_next_db s)"

lemma db_ok_cong:
  "s_User_Db s = s_User_Db t \<Longrightarrow> s_dbs s = s_dbs t \<Longrightarrow> s_next_db s = s_next_db t \<Longrightarrow> db_ok s = db_ok t"
  by (simp add: db_ok_def)

lemma db_ok_output [simp]:
  "db_ok (emit fs s) = db_ok s" "db_ok (queue_data d t m s) = db_ok s" "db_ok (send_cmd d t m s) = db_ok s"
  "db_ok (pass_message x t m s) = db_ok s" "db_ok (pass_message_args x t m s) = db_ok s"
  "db_ok (send_user u t m s) = db_ok s" "db_ok (notify_mods l m s) = db_ok s" "db_ok (notify_ops ch m s) = db_ok s"
  "db_ok (nosuchuser d s) = db_ok s" "db_ok (permission_denied d s) = db_ok s" "db_ok (unparsable d s) = db_ok s"
  "db_ok (nosuchchannel d s) = db_ok s" "db_ok (invalid_nick_msg d s) = db_ok s" "db_ok (tell_user d m s) = db_ok s"
  "db_ok (upd_user u f s) = db_ok s" "db_ok (upd_chan ch g s) = db_ok s" "db_ok (upd_conn d h s) = db_ok s"
  "db_ok (s\<lparr>s_rand := r\<rparr>) = db_ok s" "db_ok (snd (make_pass p s)) = db_ok s"
  by (rule db_ok_cong; simp add: make_pass_def)+

lemma db_ok_upd_db [simp]: "(\<And>D. db_nick (f D) = db_nick D) \<Longrightarrow> db_ok s \<Longrightarrow> db_ok (upd_db d f s)"
  unfolding db_ok_def upd_db_frame
  by (intro conjI table_ok_upd) (auto split: if_splits)

lemma db_ok_add_db: "db_ok s \<Longrightarrow> hash_lookup (s_User_Db s) (db_nick D) = None \<Longrightarrow> db_ok (add_db D s)"
proof -
  assume a: "db_ok s" "hash_lookup (s_User_Db s) (db_nick D) = None"
  then have "s_dbs s (s_next_db s) = None" by (cases "s_dbs s (s_next_db s)") (auto simp: db_ok_def)
  then have "table_ok (hash_add (s_User_Db s) (db_nick D) (s_next_db s)) ((s_dbs s)(s_next_db s \<mapsto> D)) db_nick"
    using a by (intro table_ok_add) (simp_all add: db_ok_def)
  then show ?thesis using a(1) by (auto simp: db_ok_def add_db_def less_Suc_eq split: if_splits)
qed

lemma db_ok_create_db:
  assumes "db_ok s" "hash_lookup (s_User_Db s) (u_nick (usr s u)) = None"
  shows "db_ok (snd (create_db u s))"
proof -
  have "db_ok (snd (make_pass p s))" "s_User_Db (snd (make_pass p s)) = s_User_Db s" for p
    using assms(1) by (simp_all add: make_pass_def)
  then show ?thesis
    using assms(2) by (simp add: create_db_def Let_def case_prod_beta db_ok_add_db)
qed

lemma db_ok_db_remove:
  assumes "db_ok s"
  shows "db_ok (db_remove n s)"
proof (cases "hash_lookup (s_User_Db s) n")
  case None
  then have "snd (hash_remove (s_User_Db s) n) = None" by (simp add: hash_remove_result)
  moreover from None have "fst (hash_remove (s_User_Db s) n) = s_User_Db s"
    by (simp add: hash_remove_def hash_lookup_def Let_def)
  ultimately show ?thesis
    using assms by (cases "hash_remove (s_User_Db s) n") (simp add: db_remove_def)
next
  case (Some d)
  then have "snd (hash_remove (s_User_Db s) n) = Some d" by (simp add: hash_remove_result)
  then have run: "db_remove n s = s\<lparr>s_User_Db := fst (hash_remove (s_User_Db s) n), s_dbs := (s_dbs s)(d := None)\<rparr>"
    by (cases "hash_remove (s_User_Db s) n") (simp add: db_remove_def)
  have "table_ok (fst (hash_remove (s_User_Db s) n)) ((s_dbs s)(d := None)) db_nick"
    by (rule table_ok_remove [OF _ Some]) (use assms in \<open>simp add: db_ok_def\<close>)
  then show ?thesis using assms unfolding run by (auto simp: db_ok_def split: if_splits)
qed

text \<open>A user that is logged in under a name without registration may be registered.\<close>

lemma lookup_nick_db:
  assumes "wf s" "hash_lookup (s_Users s) k = Some u" "hash_lookup (s_User_Db s) k = None"
  shows "hash_lookup (s_User_Db s) (u_nick (usr s u)) = None"
proof -
  obtain U where U: "s_users s u = Some U" "strcaseeq k (u_nick U)" by (rule wf_lookup_user [OF assms(1,2)])
  then show ?thesis using assms(3) hash_stack_cong [OF U(2), of "s_User_Db s"] by (simp add: hash_lookup_stack)
qed

lemma db_ok_level_apply: "db_ok s \<Longrightarrow> db_ok (level_apply con tag sender su user lvl d s)"
  by (simp add: level_apply_def level_user_def decloak_user_def level_db_def Let_def split: option.split)

lemma db_ok_level_stamped: "db_ok s \<Longrightarrow> db_ok (level_stamped con tag sender su user lvl av d s)"
  by (simp add: level_stamped_def level_checked_def Let_def db_ok_level_apply)

lemma db_ok_level: "wf s \<Longrightarrow> db_ok s \<Longrightarrow> db_ok (level con tag pkt s)"
  unfolding level_def level_target_def Let_def case_prod_beta
  by (auto intro!: db_ok_level_stamped db_ok_create_db lookup_nick_db split: option.split)

lemma db_ok_set_muzzle [simp]: "db_ok s \<Longrightarrow> db_ok (set_muzzle on user db s)"
  by (simp add: set_muzzle_def Let_def split: option.split)

lemma db_ok_muzzle_notices [simp]:
  "db_ok (muzzle_notices con tag sn sender user nick r s) = db_ok s"
  by (simp add: muzzle_notices_def Let_def split: option.split)

lemma db_ok_muzzle_target:
  "db_ok s \<Longrightarrow> (\<And>u. user = Some u \<Longrightarrow> db = None \<Longrightarrow> hash_lookup (s_User_Db s) (u_nick (usr s u)) = None) \<Longrightarrow>
   db_ok (muzzle_target con tag sn sender user db nick r s)"
  by (auto simp: muzzle_target_def Let_def case_prod_beta intro!: db_ok_set_muzzle db_ok_create_db split: option.split)

lemma db_ok_muzzle: "wf s \<Longrightarrow> db_ok s \<Longrightarrow> db_ok (muzzle con tag pkt s)"
  unfolding muzzle_def Let_def
  by (auto intro!: db_ok_muzzle_target lookup_nick_db split: option.split)

lemma wf_set_muzzle: "wf s \<Longrightarrow> wf (set_muzzle on user db s)"
  by (simp add: set_muzzle_def Let_def wf_upd_user split: option.split)

lemma wf_muzzle_notices [simp]: "wf (muzzle_notices con tag sn sender user nick r s) = wf s"
  by (simp add: muzzle_notices_def Let_def split: option.split)

lemma wf_create_db [simp]: "wf (snd (create_db u s)) = wf s"
  by (rule same_core_wf) simp

lemma wf_muzzle: "wf s \<Longrightarrow> wf (muzzle con tag pkt s)"
  unfolding muzzle_def muzzle_target_def Let_def case_prod_beta
  by (auto intro!: wf_set_muzzle split: option.split)

section \<open>Saving and loading the user database\<close>

definition savable_db :: "srv \<Rightarrow> userdb \<Rightarrow> bool" where
  "savable_db s D \<longleftrightarrow>
     \<not> invalid_nick s (db_nick D) \<and> arg_ok (Plain (db_password D)) \<and> arg_ok (Plain (db_email D)) \<and>
     - (2 ^ 31) \<le> db_timestamp D \<and> db_timestamp D < 2 ^ 31 \<and>
     - (2 ^ 31) \<le> db_lastSeen D \<and> db_lastSeen D < 2 ^ 31"

definition db_expired :: "srv \<Rightarrow> userdb \<Rightarrow> bool" where
  "db_expired s D \<longleftrightarrow> Nick_Expire (s_cfg s) \<le> s_time s - db_lastSeen D \<and> db_level D < LEVEL_MODERATOR"

lemma arg_ok_nick: "\<not> invalid_nick s n \<Longrightarrow> arg_ok (Plain n)"
proof -
  assume n: "\<not> invalid_nick s n"
  then have c: "\<not> (schar c < 33) \<and> c \<noteq> dquote" if "c \<in> set n" for c
    using that by (auto simp: invalid_nick_def list_ex_iff bad_nick_chars_def)
  then have "\<not> c_isspace c" if "c \<in> set n" for c using that by (force simp: c_isspace_def schar_def)
  moreover have "n \<noteq> []" using n by (auto simp: invalid_nick_def)
  ultimately show ?thesis using c by auto
qed

lemma arg_ok_nat_dec: "arg_ok (Plain (nat_dec n))"
  using arg_ok_int_dec [of "int n"] by (simp add: int_dec_def)

lemma arg_ok_Levels: "arg_ok (Plain (Levels l))"
  by (cases l) (simp_all add: c_isspace_def)

lemma load_user_line: "savable_db s D \<Longrightarrow> load_user False (user_line D) s = add_db D s"
proof -
  assume D: "savable_db s D"
  let ?as = "[Plain (db_nick D), Plain (db_password D), Plain (db_email D), Plain (Levels (db_level D)),
    Plain (int_dec (db_timestamp D)), Plain (int_dec (db_lastSeen D)), Plain (nat_dec (unat (db_flags D)))]"
  have n: "arg_ok (Plain (db_nick D))" by (rule arg_ok_nick [of s]) (use D in \<open>simp add: savable_db_def\<close>)
  have "user_line D = join_args ?as @ [CHR 0x0A]"
    using D by (simp add: user_line_def savable_db_def wrap32_id)
  moreover have "split_line 7 (join_args ?as @ [CHR 0x0A]) = Some (map arg_val ?as)"
    by (rule split_line_join_nl)
      (use D n arg_ok_int_dec arg_ok_nat_dec arg_ok_Levels in \<open>simp_all add: savable_db_def del: arg_ok.simps\<close>)
  ultimately have a: "get_args 7 (Some (user_line D)) =
      [db_nick D, db_password D, db_email D, Levels (db_level D), int_dec (db_timestamp D),
       int_dec (db_lastSeen D), nat_dec (unat (db_flags D))]"
    by (simp add: get_args_def)
  have f: "int (unat (db_flags D)) < 2 ^ 31"
  proof -
    have "unat (db_flags D) < 2 ^ LENGTH(16)" by (rule unsigned_less)
    then have "unat (db_flags D) < 2 ^ 31" by simp
    then have "int (unat (db_flags D)) < int (2 ^ 31)" by (rule of_nat_less_iff [THEN iffD2])
    then show ?thesis by simp
  qed
  moreover have "- (2 ^ 31) \<le> int (unat (db_flags D))" by (rule order_trans [of _ 0]) simp_all
  ultimately have "atoi (nat_dec (unat (db_flags D))) = int (unat (db_flags D))"
    using atoi_int_dec [of "int (unat (db_flags D))"] by (simp add: int_dec_def)
  then have "word_of_int (atoi (nat_dec (unat (db_flags D)))) = db_flags D" by simp
  moreover have "atol (int_dec (db_timestamp D)) = db_timestamp D" "atol (int_dec (db_lastSeen D)) = db_lastSeen D"
    using D by (simp_all add: savable_db_def atol_int_dec)
  moreover have "\<not> invalid_nick s (db_nick D)" using D by (simp add: savable_db_def)
  ultimately show ?thesis unfolding load_user_def a Let_def by (cases D) (simp add: numeral_eq_Suc)
qed

lemma fold_load_user:
  "\<forall>D \<in> set Ds. savable_db s D \<Longrightarrow> fold (load_user False) (map user_line Ds) s = fold add_db Ds s"
proof (induction Ds arbitrary: s)
  case (Cons D Ds)
  have "savable_db (add_db D s) E = savable_db s E" for E
    by (simp add: savable_db_def add_db_def invalid_nick_def)
  then show ?case using Cons by (simp add: load_user_line)
qed simp

text \<open>A lookup in a table filled from a list finds the last record of the name.\<close>

lemma lookup_fold_add_db:
  assumes "hash_invar (s_User_Db s)" "\<And>k d. d \<in> set (hash_stack (s_User_Db s) k) \<Longrightarrow> d < s_next_db s"
  shows "map_option (dbs (fold add_db Ds s)) (hash_lookup (s_User_Db (fold add_db Ds s)) k) =
    (case find (\<lambda>D. strcaseeq (db_nick D) k) (rev Ds) of Some D \<Rightarrow> Some D
     | None \<Rightarrow> map_option (dbs s) (hash_lookup (s_User_Db s) k))"
  using assms
proof (induction Ds arbitrary: s)
  case (Cons D Ds)
  let ?s = "add_db D s"
  have st: "hash_stack (s_User_Db ?s) j = (if strcaseeq (db_nick D) j then s_next_db s # hash_stack (s_User_Db s) j
      else hash_stack (s_User_Db s) j)" for j
    using Cons.prems(1) by (simp add: add_db_def hash_stack_add)
  have "hash_invar (s_User_Db ?s)" using Cons.prems(1) by (simp add: add_db_def hash_invar_add)
  moreover have "d < s_next_db ?s" if "d \<in> set (hash_stack (s_User_Db ?s) j)" for j d
  proof -
    have "d = s_next_db s \<or> d \<in> set (hash_stack (s_User_Db s) j)" using that unfolding st by (auto split: if_splits)
    then have "d = s_next_db s \<or> d < s_next_db s" using Cons.prems(2) by blast
    then show ?thesis by (auto simp: add_db_def)
  qed
  ultimately have IH: "map_option (dbs (fold add_db Ds ?s)) (hash_lookup (s_User_Db (fold add_db Ds ?s)) k) =
    (case find (\<lambda>D. strcaseeq (db_nick D) k) (rev Ds) of Some D \<Rightarrow> Some D
     | None \<Rightarrow> map_option (dbs ?s) (hash_lookup (s_User_Db ?s) k))" by (rule Cons.IH)
  have "map_option (dbs ?s) (hash_lookup (s_User_Db ?s) k) =
    (if strcaseeq (db_nick D) k then Some D else map_option (dbs s) (hash_lookup (s_User_Db s) k))"
  proof (cases "hash_stack (s_User_Db s) k")
    case Nil
    then show ?thesis by (simp add: hash_lookup_stack st) (simp add: add_db_def)
  next
    case (Cons d ds)
    then have "d < s_next_db s" using Cons.prems(2) [of d k] by simp
    then show ?thesis using Cons by (simp add: hash_lookup_stack st) (simp add: add_db_def)
  qed
  moreover have "find P (xs @ [x]) = (case find P xs of Some y \<Rightarrow> Some y | None \<Rightarrow> if P x then Some x else None)"
    for P and xs :: "userdb list" and x by (induction xs) auto
  ultimately show ?case using IH by (simp split: option.split)
qed simp

lemma fold_dump_userdb:
  "(\<And>d. d \<in> set ds \<Longrightarrow> \<not> db_expired s (dbs s d)) \<Longrightarrow>
   fold dump_userdb ds (fp, s) = (fp @ map (\<lambda>d. user_line (dbs s d)) ds, s)"
proof (induction ds arbitrary: fp)
  case (Cons d ds)
  have "\<not> db_expired s (dbs s d)" using Cons.prems by simp
  then have "dump_userdb d (fp, s) = (fp @ [user_line (dbs s d)], s)"
    by (simp only: dump_userdb_def db_expired_def Let_def prod.case if_False)
  then show ?case using Cons by simp
qed simp


definition sample_db :: userdb where
  "sample_db = \<lparr>db_nick = ''bob'', db_password = ''1,abcdefgh,x'', db_email = ''anon@hub'', db_level = LEVEL_USER,
     db_flags = ON_MUZZLED, db_timestamp = 800, db_lastSeen = 900\<rparr>"

lemma db_ok_sample: "db_ok sample"
  by (simp add: db_ok_def sample_def table_ok_def)

lemma hash_lookup_db_sample [simp]: "hash_lookup (s_User_Db sample) n = None"
  by (simp add: sample_def hash_lookup_init)


end
