(* ===== verification/Private.thy ===== *)
theory Private
  imports Public
begin

text \<open>
  Private messages, the command lines to OperServ and ChanServ, and the lists of ignored users
  (\<open>src/privmsg.c\<close>).  A message to one of the services comes back to \<open>dispatch_command\<close>, which the
  definitions take as an argument; the locale \<open>commands\<close> says what it is relied on for.
\<close>

section \<open>OperServ and ChanServ\<close>

definition operserv_tags :: "(string \<times> nat) list" where
  "operserv_tags =
     [(''chanlevel'', MSG_CLIENT_CHANNEL_LEVEL), (''links'', MSG_CLIENT_LINKS),
      (''stats'', MSG_CLIENT_USAGE_STATS), (''connect'', MSG_CLIENT_CONNECT),
      (''disconnect'', MSG_CLIENT_DISCONNECT), (''killserver'', MSG_CLIENT_KILL_SERVER),
      (''register'', MSG_CLIENT_REGISTER_USER), (''chanlimit'', MSG_CLIENT_CHANNEL_LIMIT),
      (''kick'', MSG_CLIENT_KICK_USER), (''usermode'', MSG_CLIENT_USER_MODE),
      (''config'', MSG_CLIENT_SERVER_CONFIG), (''reconfig'', MSG_CLIENT_SERVER_RECONFIG),
      (''cban'', MSG_CLIENT_CHANNEL_BAN), (''cunban'', MSG_CLIENT_CHANNEL_UNBAN),
      (''cbanlist'', MSG_CLIENT_CHANNEL_BAN_LIST), (''cbanclear'', MSG_CLIENT_CHANNEL_CLEAR_BANS),
      (''clearchan'', MSG_CLIENT_CLEAR_CHANNEL), (''cloak'', MSG_CLIENT_CLOAK), (''op'', MSG_CLIENT_OP),
      (''oplist'', MSG_CLIENT_OP_LIST), (''deop'', MSG_CLIENT_DEOP), (''rehash'', MSG_CLIENT_REHASH)]"

definition operserv_help :: "string list" where
  "operserv_help =
     [''OperServ Help for OperServ:'', ''OperServ cloak'', ''OperServ config'', ''OperServ connect'',
      ''OperServ disconnect'', ''OperServ help'', ''OperServ killserver'', ''OperServ links'',
      ''OperServ reconfig'', ''OperServ register'', ''OperServ rehash [server]'', ''OperServ stats'',
      ''OperServ usermode'', ''OperServ END of help for OperServ'']"

definition chanserv_tags :: "(string \<times> nat) list" where
  "chanserv_tags =
     [(''ban'', MSG_CLIENT_CHANNEL_BAN), (''unban'', MSG_CLIENT_CHANNEL_UNBAN),
      (''banclear'', MSG_CLIENT_CHANNEL_CLEAR_BANS), (''banlist'', MSG_CLIENT_CHANNEL_BAN_LIST),
      (''clear'', MSG_CLIENT_CLEAR_CHANNEL), (''kick'', MSG_CLIENT_KICK), (''oplist'', MSG_CLIENT_OP_LIST),
      (''topic'', MSG_SERVER_TOPIC), (''limit'', MSG_CLIENT_CHANNEL_LIMIT),
      (''drop'', MSG_CLIENT_DROP_CHANNEL), (''op'', MSG_CLIENT_OP), (''deop'', MSG_CLIENT_DEOP),
      (''wallop'', MSG_CLIENT_CHANNEL_WALLOP), (''invite'', MSG_CLIENT_CHANNEL_INVITE),
      (''mode'', MSG_CLIENT_CHANNEL_MODE), (''muzzle'', MSG_CLIENT_CHANNEL_MUZZLE),
      (''unmuzzle'', MSG_CLIENT_CHANNEL_UNMUZZLE), (''unvoice'', MSG_CLIENT_CHANNEL_UNVOICE),
      (''voice'', MSG_CLIENT_CHANNEL_VOICE)]"

definition chanserv_help :: "string list" where
  "chanserv_help =
     [''ChanServ HELP for ChanServ commands:'', ''ChanServ ban <channel> <user> [reason]'',
      ''ChanServ banclear <channel>'', ''ChanServ banlist <channel>'', ''ChanServ clear <channel>'',
      ''ChanServ deop <channel> <user> [user ...]'', ''ChanServ drop <channel>'', ''ChanServ help'',
      ''ChanServ invite <channel> <user>'', ''ChanServ kick <channel> <user> [reason]'',
      ''ChanServ limit <channel> <number>'', ''ChanServ mode <channel> [mode]'',
      ''ChanServ muzzle <channel> <user>'', ''ChanServ op <channel> <user> [user ...]'',
      ''ChanServ oplist <channel>'', ''ChanServ topic <channel> [topic]'', ''ChanServ unban <channel>'',
      ''ChanServ unmuzzle <channel> <user>'', ''ChanServ unvoice <channel> [user [user ...]]'',
      ''ChanServ voice <channel> [user [user ...]]'', ''ChanServ wallop <channel> <text>'',
      ''ChanServ END of ChanServ HELP'']"

type_synonym command = "cid \<Rightarrow> nat \<Rightarrow> string \<Rightarrow> srv \<Rightarrow> srv option"

text \<open>The chain of \<open>strcasecmp\<close> that both services have; the first word is the command.\<close>

definition service_tag :: "(string \<times> nat) list \<Rightarrow> string \<Rightarrow> nat option" where
  "service_tag tags cmd = map_option snd (find (\<lambda>(w, t). strcaseeq w cmd) tags)"

definition send_help :: "cid \<Rightarrow> string list \<Rightarrow> srv \<Rightarrow> srv" where
  "send_help con ls s = fold (send_cmd con MSG_CLIENT_PRIVMSG) ls s"

definition operserv :: "command \<Rightarrow> cid \<Rightarrow> string \<Rightarrow> srv \<Rightarrow> srv option" where
  "operserv dispatch con pkt s =
     (case next_arg (Some pkt) of
        (None, _) \<Rightarrow> None
      | (Some cmd, pkt) \<Rightarrow>
          (case service_tag operserv_tags cmd of
             Some tag \<Rightarrow> dispatch con tag (nonull pkt) s
           | None \<Rightarrow>
               Some (if strcaseeq ''help'' cmd then send_help con operserv_help s
                     else send_cmd con MSG_SERVER_NOSUCH (''Unknown OperServ command: '' @ cmd) s)))"

definition chanserv :: "command \<Rightarrow> cid \<Rightarrow> string \<Rightarrow> srv \<Rightarrow> srv option" where
  "chanserv dispatch con pkt s =
     (case next_arg (Some pkt) of
        (None, _) \<Rightarrow> None
      | (Some cmd, pkt) \<Rightarrow>
          (case service_tag chanserv_tags cmd of
             Some tag \<Rightarrow> dispatch con tag (nonull pkt) s
           | None \<Rightarrow>
               Some (if strcaseeq ''help'' cmd then send_help con chanserv_help s
                     else send_cmd con MSG_SERVER_NOSUCH ''unknown ChanServ command'' s)))"

section \<open>Private messages\<close>

definition deliver :: "uid \<Rightarrow> uid \<Rightarrow> string \<Rightarrow> srv \<Rightarrow> srv" where
  "deliver sender user msg s =
     (let con = user_con s user; nick = u_nick (usr s sender) in
      if ISUSER con s then
        (if is_ignoring (c_ignore (cnx s con)) nick
         then send_user sender MSG_SERVER_NOSUCH (u_nick (usr s user) @ '' is ignoring you'') s
         else send_cmd con MSG_CLIENT_PRIVMSG (nick @ '' '' @ msg) s)
      else send_cmd con MSG_CLIENT_PRIVMSG ('':'' @ nick @ '' '' @ u_nick (usr s user) @ '' '' @ msg) s)"

text \<open>\<open>None\<close> is a NULL pointer that is followed: a server that names a sender and sends nothing else.\<close>

definition privmsg :: "command \<Rightarrow> command" where
  "privmsg dispatch con tag pkt s =
     (case pop_user con pkt s of
        None \<Rightarrow> Some s
      | Some (None, sender) \<Rightarrow> None
      | Some (Some p, sender) \<Rightarrow>
          (case next_arg_noskip (take 180 p) of
             (ptr, None) \<Rightarrow> Some (unparsable con s)
           | (ptr, Some msg) \<Rightarrow>
               if ISUSER con s \<and> LEVEL_USER < u_level (usr s sender) \<and> strcaseeq ptr ''operserv''
               then operserv dispatch con msg s
               else if ISUSER con s \<and> strcaseeq ''chanserv'' ptr then chanserv dispatch con msg s
               else Some (case hash_lookup (s_Users s) ptr of
                            None \<Rightarrow> nosuchuser con s
                          | Some user \<Rightarrow> deliver sender user msg s)))"

section \<open>Ignored users\<close>

definition ignore_list :: "cid \<Rightarrow> nat \<Rightarrow> string \<Rightarrow> srv \<Rightarrow> srv" where
  "ignore_list con tag pkt s =
     (if \<not> ISUSER con s then s
      else let ignored = c_ignore (cnx s con) in
        send_cmd con tag (nat_dec (length ignored)) (fold (send_cmd con MSG_SERVER_IGNORE_ENTRY) ignored s))"

definition ignore :: "cid \<Rightarrow> nat \<Rightarrow> string \<Rightarrow> srv \<Rightarrow> srv" where
  "ignore con tag pkt s =
     (if \<not> ISUSER con s then s
      else if invalid_nick s pkt then invalid_nick_msg con s
      else if list_ex (strcaseeq pkt) (c_ignore (cnx s con)) then send_cmd con MSG_SERVER_ALREADY_IGNORED pkt s
      else if 0 < Max_Ignore (s_cfg s) \<and> Max_Ignore (s_cfg s) < int (length (c_ignore (cnx s con)))
      then send_cmd con MSG_SERVER_NOSUCH
             (''ignore list is limited to '' @ int_dec (Max_Ignore (s_cfg s)) @ '' users'') s
      else send_cmd con tag pkt (upd_conn con (\<lambda>C. C\<lparr>c_ignore := pkt # c_ignore C\<rparr>) s))"

text \<open>The first entry that matches is unlinked.\<close>

fun unlink_first :: "('a \<Rightarrow> bool) \<Rightarrow> 'a list \<Rightarrow> 'a list" where
  "unlink_first P [] = []"
| "unlink_first P (x # xs) = (if P x then xs else x # unlink_first P xs)"

definition unignore :: "cid \<Rightarrow> nat \<Rightarrow> string \<Rightarrow> srv \<Rightarrow> srv" where
  "unignore con tag pkt s =
     (if \<not> ISUSER con s then s
      else if invalid_nick s pkt then invalid_nick_msg con s
      else if list_ex (strcaseeq pkt) (c_ignore (cnx s con))
      then upd_conn con (\<lambda>C. C\<lparr>c_ignore := unlink_first (strcaseeq pkt) (c_ignore C)\<rparr>) (send_cmd con tag pkt s)
      else send_cmd con MSG_SERVER_NOT_IGNORED pkt s)"

definition clear_ignore :: "cid \<Rightarrow> nat \<Rightarrow> string \<Rightarrow> srv \<Rightarrow> srv" where
  "clear_ignore con tag pkt s =
     (if \<not> ISUSER con s then s
      else send_cmd con tag (nat_dec (length (c_ignore (cnx s con))))
             (upd_conn con (\<lambda>C. C\<lparr>c_ignore := []\<rparr>) s))"

lemmas [handler_defs] = privmsg_def ignore_list_def ignore_def unignore_def clear_ignore_def

section \<open>The invariant is kept\<close>

definition service_commands :: "nat set" where
  "service_commands = set (map snd operserv_tags) \<union> set (map snd chanserv_tags)"

text \<open>
  What the services rely on: the commands that they forward lead from good states to states in which the
  invariant is kept, and so does output.
\<close>

locale commands =
  fixes dispatch :: command and good kept :: "srv \<Rightarrow> bool"
  assumes keeps: "tag \<in> service_commands \<Longrightarrow> good s \<Longrightarrow> registered con s \<Longrightarrow>
    dispatch con tag pkt s = Some s' \<Longrightarrow> kept s'"
    and quiet: "good s \<Longrightarrow> same_core s' s \<Longrightarrow> kept s'"

lemma service_tag_command:
  "service_tag operserv_tags cmd = Some tag \<Longrightarrow> tag \<in> service_commands"
  "service_tag chanserv_tags cmd = Some tag \<Longrightarrow> tag \<in> service_commands"
  unfolding service_tag_def service_commands_def by (auto dest!: find_Some_in simp: image_iff) force+

lemma same_core_fold_send [simp]: "same_core (fold (send_cmd con tag) ls s) r = same_core s r"
  by (rule fold_frame [where g = "\<lambda>s. same_core s r"]) simp

lemma same_core_deliver [simp]: "same_core (deliver a u m s) r = same_core s r"
  by (simp add: deliver_def Let_def)

text \<open>Either a command of the service is executed, or there is only output.\<close>

lemma operserv_cases:
  "operserv dispatch con pkt s = Some s' \<Longrightarrow>
   (\<exists>tag p. tag \<in> service_commands \<and> dispatch con tag p s = Some s') \<or> same_core s' s"
  by (auto simp: operserv_def send_help_def dest: service_tag_command split: prod.splits option.splits if_splits)

lemma chanserv_cases:
  "chanserv dispatch con pkt s = Some s' \<Longrightarrow>
   (\<exists>tag p. tag \<in> service_commands \<and> dispatch con tag p s = Some s') \<or> same_core s' s"
  by (auto simp: chanserv_def send_help_def dest: service_tag_command split: prod.splits option.splits if_splits)

lemma privmsg_cases:
  "privmsg dispatch con tag pkt s = Some s' \<Longrightarrow>
   (\<exists>tag p. tag \<in> service_commands \<and> dispatch con tag p s = Some s') \<or> same_core s' s"
proof -
  assume p: "privmsg dispatch con tag pkt s = Some s'"
  then have "same_core s' s \<or> (\<exists>m. operserv dispatch con m s = Some s') \<or> (\<exists>m. chanserv dispatch con m s = Some s')"
    by (auto simp: privmsg_def split: prod.splits option.splits if_splits)
  then show ?thesis using operserv_cases chanserv_cases by blast
qed

context commands
begin

lemma privmsg_keeps:
  assumes "privmsg dispatch con tag pkt s = Some s'" "good s" "registered con s"
  shows "kept s'"
  using privmsg_cases [OF assms(1)] assms(2,3) by (auto dest: keeps intro: quiet)

end

lemma wf_ignores:
  "wf s \<Longrightarrow> wf (ignore_list con tag pkt s)" "wf s \<Longrightarrow> wf (ignore con tag pkt s)"
  "wf s \<Longrightarrow> wf (unignore con tag pkt s)" "wf s \<Longrightarrow> wf (clear_ignore con tag pkt s)"
  by (simp_all add: ignore_list_def ignore_def unignore_def clear_ignore_def Let_def wf_upd_conn
      same_core_wf [of "fold _ _ s" s])

section \<open>Who gets a private message\<close>

text \<open>The messages of one type for one connection in a trace.\<close>

definition got :: "cid \<Rightarrow> nat \<Rightarrow> frame list \<Rightarrow> string list" where
  "got d tag fs = [m. (c, t, m) \<leftarrow> fs, c = d \<and> t = tag]"

lemma got_append [simp]: "got d tag (f @ g) = got d tag f @ got d tag g"
  by (simp add: got_def)

lemma got_frame [simp]: "got d tag [(c, t, m)] = (if c = d \<and> t = tag then [m] else [])"
  by (simp add: got_def)

lemma got_send [simp]:
  "got d tag (s_out (send_cmd c t m s)) =
     got d tag (s_out s) @ (if c = d \<and> t = tag then [form_message m] else [])"
  by (simp add: send_cmd_def queue_data_def)

lemma got_replies [simp]:
  "tag \<noteq> MSG_SERVER_NOSUCH \<Longrightarrow> got d tag (s_out (unparsable c s)) = got d tag (s_out s)"
  "tag \<noteq> MSG_SERVER_NOSUCH \<Longrightarrow> got d tag (s_out (nosuchuser c s)) = got d tag (s_out s)"
  by (simp_all add: unparsable_def nosuchuser_def)

lemma got_send_user [simp]:
  "tag \<noteq> t \<Longrightarrow> tag \<noteq> MSG_SERVER_ENCAPSULATED \<Longrightarrow> got d tag (s_out (send_user u t m s)) = got d tag (s_out s)"
  by (simp add: send_user_def queue_data_def Let_def)

lemma got_deliver:
  "got d MSG_CLIENT_PRIVMSG (s_out (deliver a u m s)) = got d MSG_CLIENT_PRIVMSG (s_out s) @
     (if user_con s u = d \<and> \<not> (ISUSER d s \<and> is_ignoring (c_ignore (cnx s d)) (u_nick (usr s a)))
      then [form_message ((if ISUSER d s then u_nick (usr s a)
                           else '':'' @ u_nick (usr s a) @ '' '' @ u_nick (usr s u)) @ '' '' @ m)] else [])"
  by (simp add: deliver_def Let_def)

text \<open>A local user is the one that a name finds exactly if its connection is the one found.\<close>

lemma lookup_local:
  assumes w: "wf s" and d: "s_conns s d = Some K" "ISUSER d s"
  shows "(\<exists>u. hash_lookup (s_Users s) k = Some u \<and> user_con s u = d) \<longleftrightarrow> strcaseeq k (u_nick (usr s (c_user K)))"
    (is "?A \<longleftrightarrow> ?B")
proof
  note CO = conn_okD [OF wf_uptoD(4) [OF w]]
  have cl: "c_class K = CLASS_USER" using d by (simp add: ISUSER_def)
  obtain U where U: "s_users s (c_user K) = Some U" "u_con U = d"
    using CO(1) [OF d(1) cl] by auto
  {
    assume ?A
    then obtain u where u: "hash_lookup (s_Users s) k = Some u" "user_con s u = d" by blast
    obtain V where V: "s_users s u = Some V" "strcaseeq k (u_nick V)" by (rule wf_lookup_user [OF w u(1)])
    then have "c_user K = u" using CO(3) [OF V(1)] u(2) d by simp
    then show ?B using V by simp
  next
    assume ?B
    then have "strcaseeq k (u_nick U)" using U(1) by simp
    moreover have "hash_lookup (s_Users s) (u_nick U) = Some (c_user K)"
      using user_table_okD(2) [OF wf_uptoD(3) [OF w] _ U(1)] by (simp add: hash_lookup_stack)
    ultimately have "hash_lookup (s_Users s) k = Some (c_user K)"
      using hash_stack_cong [of k "u_nick U" "s_Users s"] by (simp add: hash_lookup_stack)
    then show ?A using U by auto
  }
qed



section \<open>The lists of ignored users\<close>

definition ignores_ok :: "config \<Rightarrow> string list \<Rightarrow> bool" where
  "ignores_ok cfg ignored \<longleftrightarrow>
     distinct (map lower ignored) \<and> (0 < Max_Ignore cfg \<longrightarrow> int (length ignored) \<le> Max_Ignore cfg + 1)"

lemma unlink_first_shorter: "length (unlink_first P xs) \<le> length xs"
  by (induction xs) auto

lemma unlink_first_subset: "set (unlink_first P xs) \<subseteq> set xs"
  by (induction xs) auto

lemma distinct_unlink_first: "distinct (map f xs) \<Longrightarrow> distinct (map f (unlink_first P xs))"
proof (induction xs)
  case (Cons x xs)
  then show ?case using unlink_first_subset [of P xs] by auto
qed simp

lemma ignores_ok_unlink: "ignores_ok cfg xs \<Longrightarrow> ignores_ok cfg (unlink_first P xs)"
  using unlink_first_shorter [of P xs] by (auto simp: ignores_ok_def distinct_unlink_first)



end
