(* ===== verification/Hotlists.thy ===== *)
theory Hotlists
  imports Public Tables
begin

text \<open>
  The hotlists (\<open>src/hotlist.c\<close>): a user asks to be told when somebody signs on or off.  The entry of a
  name is shared by the connections that wait for it, and it is freed with the last of them.
\<close>

section \<open>The commands\<close>

text \<open>\<open>hash_add (Hotlist, nick, hotlist)\<close> of an entry just allocated.\<close>

definition new_hotlist :: "string \<Rightarrow> srv \<Rightarrow> srv" where
  "new_hotlist nick s =
     s\<lparr>s_hotl := (s_hotl s)(s_next_hot s \<mapsto> \<lparr>h_nick = nick, h_users = []\<rparr>),
       s_Hotlist := hash_add (s_Hotlist s) nick (s_next_hot s), s_next_hot := Suc (s_next_hot s)\<rparr>"

text \<open>\<open>hash_remove (Hotlist, nick)\<close>, whose destroy callback is \<open>free_hotlist\<close>.\<close>

definition free_hotlist :: "hid \<Rightarrow> srv \<Rightarrow> srv" where
  "free_hotlist h s = s\<lparr>s_hotl := (s_hotl s)(h := None)\<rparr>"

definition hot_remove :: "string \<Rightarrow> srv \<Rightarrow> srv" where
  "hot_remove nick s =
     (case hash_remove (s_Hotlist s) nick of
        (t, None) \<Rightarrow> s\<lparr>s_Hotlist := t\<rparr>
      | (t, Some h) \<Rightarrow> free_hotlist h (s\<lparr>s_Hotlist := t\<rparr>))"

definition wait_for :: "cid \<Rightarrow> hid \<Rightarrow> srv \<Rightarrow> srv" where
  "wait_for con h s =
     upd_conn con (\<lambda>C. C\<lparr>c_hotlist := h # c_hotlist C\<rparr>) (upd_hot h (\<lambda>H. H\<lparr>h_users := con # h_users H\<rparr>) s)"

definition join_hotlist :: "cid \<Rightarrow> hid \<Rightarrow> srv \<Rightarrow> srv" where
  "join_hotlist con h s =
     (if con \<in> set (h_users (hot s h)) then s
      else
        let s = send_cmd con MSG_SERVER_HOTLIST_ACK (h_nick (hot s h)) (wait_for con h s)
        in case hash_lookup (s_Users s) (h_nick (hot s h)) of
             None \<Rightarrow> s
           | Some user \<Rightarrow> send_cmd con MSG_SERVER_USER_SIGNON
               (u_nick (usr s user) @ '' '' @ nat_dec (u_speed (usr s user))) s)"

text \<open>The message about the limit is sent when the count is \<open>Max_Hotlist\<close>, which is never the case there.\<close>

definition add_hotlist :: "cid \<Rightarrow> nat \<Rightarrow> string \<Rightarrow> srv \<Rightarrow> srv" where
  "add_hotlist con tag pkt s =
     (let count = int (length (c_hotlist (cnx s con))); max = Max_Hotlist (s_cfg s) in
      if \<not> ISUSER con s then s
      else if 0 < max \<and> max < count then
        (if count = max
         then send_cmd con MSG_SERVER_NOSUCH (''hotlist is limited to '' @ int_dec max @ '' entries'') s else s)
      else case hash_lookup (s_Hotlist s) pkt of
        Some h \<Rightarrow> join_hotlist con h s
      | None \<Rightarrow>
          if invalid_nick s pkt then invalid_nick_msg con s
          else join_hotlist con (s_next_hot s) (new_hotlist pkt s))"

text \<open>A connection no longer waits; the last one that goes frees the entry.\<close>

definition stop_waiting :: "cid \<Rightarrow> hid \<Rightarrow> srv \<Rightarrow> srv" where
  "stop_waiting con h s =
     (let s = upd_hot h (\<lambda>H. H\<lparr>h_users := list_delete (h_users H) con\<rparr>) s
      in if h_users (hot s h) = [] then hot_remove (h_nick (hot s h)) s else s)"

definition remove_hotlist :: "cid \<Rightarrow> nat \<Rightarrow> string \<Rightarrow> srv \<Rightarrow> srv" where
  "remove_hotlist con tag pkt s =
     (if \<not> ISUSER con s then s
      else case hash_lookup (s_Hotlist s) pkt of
        None \<Rightarrow> send_cmd con MSG_SERVER_NOSUCH ''user is not in your hotlist'' s
      | Some h \<Rightarrow> stop_waiting con h (upd_conn con (\<lambda>C. C\<lparr>c_hotlist := list_delete (c_hotlist C) h\<rparr>) s))"

lemmas [handler_defs] = add_hotlist_def remove_hotlist_def

section \<open>The invariant of the members is kept\<close>

lemma wf_hot_parts [simp]:
  "wf_upto X (new_hotlist n s) = wf_upto X s" "wf_upto X (hot_remove n s) = wf_upto X s"
  "wf_upto X (stop_waiting con h s) = wf_upto X s"
proof -
  show r: "wf_upto X (hot_remove n s) = wf_upto X s" for n s
    by (rule wf_cong) (simp_all add: hot_remove_def free_hotlist_def split: prod.split option.split)
  have "wf_upto X (upd_hot h f s) = wf_upto X s" for f by (rule wf_cong) simp_all
  then show "wf_upto X (stop_waiting con h s) = wf_upto X s" by (simp add: stop_waiting_def Let_def r)
qed (rule wf_cong, simp_all add: new_hotlist_def)

lemma wf_join_hotlist: "wf s \<Longrightarrow> wf (join_hotlist con h s)"
proof -
  assume w: "wf s"
  have "wf_upto {} (upd_hot h f s) = wf_upto {} s" for f by (rule wf_cong) simp_all
  then have "wf (wait_for con h s)" using w by (simp add: wait_for_def wf_upd_conn)
  then show ?thesis using w by (auto simp: join_hotlist_def Let_def split: option.split)
qed

lemma wf_hotlist:
  "wf s \<Longrightarrow> wf (add_hotlist con tag pkt s)" "wf s \<Longrightarrow> wf (remove_hotlist con tag pkt s)"
  by (simp_all add: add_hotlist_def remove_hotlist_def Let_def wf_join_hotlist wf_upd_conn split: option.split)

section \<open>The hotlists stay consistent\<close>

definition waits :: "srv \<Rightarrow> hid \<Rightarrow> cid \<Rightarrow> bool" where
  "waits s h d \<longleftrightarrow> (\<exists>H. s_hotl s h = Some H \<and> d \<in> set (h_users H))"

definition lists :: "srv \<Rightarrow> cid \<Rightarrow> hid \<Rightarrow> bool" where
  "lists s d h \<longleftrightarrow> (\<exists>K. s_conns s d = Some K \<and> h \<in> set (c_hotlist K))"

text \<open>\<open>X\<close> is a set of connections whose own lists need not agree with the entries.\<close>

definition hot_upto :: "cid set \<Rightarrow> srv \<Rightarrow> bool" where
  "hot_upto X s \<longleftrightarrow>
     table_ok (s_Hotlist s) (s_hotl s) h_nick \<and>
     (\<forall>h H. s_hotl s h = Some H \<longrightarrow> h < s_next_hot s \<and> distinct (h_users H) \<and> h_users H \<noteq> []) \<and>
     (\<forall>d K. s_conns s d = Some K \<longrightarrow> distinct (c_hotlist K)) \<and>
     (\<forall>d h. d \<notin> X \<longrightarrow> (lists s d h \<longleftrightarrow> waits s h d))"

abbreviation hot_ok :: "srv \<Rightarrow> bool" where "hot_ok s \<equiv> hot_upto {} s"

lemma hot_uptoI:
  assumes "table_ok (s_Hotlist s) (s_hotl s) h_nick"
    and "\<And>h H. s_hotl s h = Some H \<Longrightarrow> h < s_next_hot s \<and> distinct (h_users H) \<and> h_users H \<noteq> []"
    and "\<And>d K. s_conns s d = Some K \<Longrightarrow> distinct (c_hotlist K)"
    and "\<And>d h. d \<notin> X \<Longrightarrow> lists s d h \<longleftrightarrow> waits s h d"
  shows "hot_upto X s"
  unfolding hot_upto_def using assms by blast

lemma hot_uptoD:
  assumes "hot_upto X s"
  shows "table_ok (s_Hotlist s) (s_hotl s) h_nick"
    and "s_hotl s h = Some H \<Longrightarrow> h < s_next_hot s" "s_hotl s h = Some H \<Longrightarrow> distinct (h_users H)"
    and "s_hotl s h = Some H \<Longrightarrow> h_users H \<noteq> []"
    and "s_conns s d = Some K \<Longrightarrow> distinct (c_hotlist K)"
    and "d \<notin> X \<Longrightarrow> lists s d h \<longleftrightarrow> waits s h d"
  using assms unfolding hot_upto_def by blast+

text \<open>What the invariant does not mention may change.\<close>

definition same_hot :: "srv \<Rightarrow> srv \<Rightarrow> bool" where
  "same_hot s t \<longleftrightarrow> s_hotl s = s_hotl t \<and> s_Hotlist s = s_Hotlist t \<and> s_next_hot s = s_next_hot t \<and>
     (\<forall>d. map_option c_hotlist (s_conns s d) = map_option c_hotlist (s_conns t d))"

lemma same_hotI:
  "s_hotl s = s_hotl t \<Longrightarrow> s_Hotlist s = s_Hotlist t \<Longrightarrow> s_next_hot s = s_next_hot t \<Longrightarrow>
   s_conns s = s_conns t \<Longrightarrow> same_hot s t"
  by (simp add: same_hot_def)

lemma same_hot_trans: "same_hot s t \<Longrightarrow> same_hot t r \<Longrightarrow> same_hot s r"
  by (simp add: same_hot_def)

lemma same_hot_lists: "same_hot s t \<Longrightarrow> lists s = lists t"
  unfolding same_hot_def lists_def fun_eq_iff by (metis map_option_eq_Some)

lemma same_hot_sym: "same_hot s t \<Longrightarrow> same_hot t s"
  by (simp add: same_hot_def)

lemma same_hot_imp:
  assumes e: "same_hot s t" and h: "hot_upto X s"
  shows "hot_upto X t"
proof -
  have p: "s_hotl t = s_hotl s" "s_Hotlist t = s_Hotlist s" "s_next_hot t = s_next_hot s"
    using e by (simp_all add: same_hot_def)
  have "waits t = waits s" by (simp add: waits_def p fun_eq_iff)
  moreover have "distinct (c_hotlist K)" if K: "s_conns t d = Some K" for d K
  proof -
    have "map_option c_hotlist (s_conns s d) = Some (c_hotlist K)" using e K by (simp add: same_hot_def)
    then obtain C where "s_conns s d = Some C" "c_hotlist C = c_hotlist K" by auto
    then show ?thesis using hot_uptoD(5) [OF h] by metis
  qed
  ultimately show ?thesis
    using hot_uptoD(1-4,6) [OF h] same_hot_lists [OF e] by (intro hot_uptoI) (simp_all add: p)
qed

lemma same_hot_upto: "same_hot s t \<Longrightarrow> hot_upto X s \<longleftrightarrow> hot_upto X t"
  using same_hot_imp same_hot_sym by blast

lemma hot_upto_cong:
  "s_hotl s = s_hotl t \<Longrightarrow> s_Hotlist s = s_Hotlist t \<Longrightarrow> s_next_hot s = s_next_hot t \<Longrightarrow>
   s_conns s = s_conns t \<Longrightarrow> hot_upto X s = hot_upto X t"
  by (rule same_hot_upto [OF same_hotI])

lemma hot_upto_output [simp]:
  "hot_upto X (emit fs s) = hot_upto X s" "hot_upto X (send_cmd d t m s) = hot_upto X s"
  "hot_upto X (invalid_nick_msg d s) = hot_upto X s" "hot_upto X (upd_user u f s) = hot_upto X s"
  by (rule hot_upto_cong; simp)+

text \<open>A fresh entry with its first connection.\<close>

lemma hot_new_wait:
  assumes ok: "hot_ok s" and con: "s_conns s con = Some K" and l: "hash_lookup (s_Hotlist s) n = None"
  shows "hot_ok (wait_for con (s_next_hot s) (new_hotlist n s))"
proof (rule hot_uptoI)
  let ?h = "s_next_hot s" and ?t = "wait_for con (s_next_hot s) (new_hotlist n s)"
  note H = hot_uptoD [OF ok]
  have new: "s_hotl s ?h = None" using H(2) by (cases "s_hotl s ?h") auto
  then have nw: "\<not> lists s d ?h" for d using H(6) by (simp add: waits_def)
  have st: "s_hotl ?t = (s_hotl s)(?h \<mapsto> \<lparr>h_nick = n, h_users = [con]\<rparr>)"
    "s_Hotlist ?t = hash_add (s_Hotlist s) n ?h" "s_next_hot ?t = Suc ?h"
    "s_conns ?t = (s_conns s)(con \<mapsto> K\<lparr>c_hotlist := ?h # c_hotlist K\<rparr>)"
    by (simp_all add: wait_for_def new_hotlist_def con)
  show "table_ok (s_Hotlist ?t) (s_hotl ?t) h_nick"
    using table_ok_add [OF H(1) new, of "\<lparr>h_nick = n, h_users = [con]\<rparr>"] l unfolding st by simp
  show "h < s_next_hot ?t \<and> distinct (h_users E) \<and> h_users E \<noteq> []" if "s_hotl ?t h = Some E" for h E
    using that H(2) [of h] H(3,4) unfolding st by (auto simp: less_Suc_eq split: if_splits)
  show "distinct (c_hotlist C)" if "s_conns ?t d = Some C" for d C
    using that H(5) con nw [of con] unfolding st by (auto simp: lists_def split: if_splits)
  show "lists ?t d h \<longleftrightarrow> waits ?t h d" for d h
    using H(6) [of d h] con nw [of d] new unfolding lists_def waits_def st by (auto split: if_splits)
qed

lemma hot_wait:
  assumes ok: "hot_ok s" and con: "s_conns s con = Some K" and h: "s_hotl s h = Some E" "con \<notin> set (h_users E)"
  shows "hot_ok (wait_for con h s)"
proof (rule hot_uptoI)
  let ?t = "wait_for con h s"
  note H = hot_uptoD [OF ok]
  have nw: "h \<notin> set (c_hotlist K)" using H(6) [of con h] h con by (auto simp: waits_def lists_def)
  have st: "s_hotl ?t = (s_hotl s)(h := map_option (\<lambda>E. E\<lparr>h_users := con # h_users E\<rparr>) (s_hotl s h))"
    "s_Hotlist ?t = s_Hotlist s" "s_next_hot ?t = s_next_hot s"
    "s_conns ?t = (s_conns s)(con \<mapsto> K\<lparr>c_hotlist := h # c_hotlist K\<rparr>)"
    by (simp_all add: wait_for_def con)
  show "table_ok (s_Hotlist ?t) (s_hotl ?t) h_nick"
    unfolding st by (rule table_ok_upd [OF H(1)]) simp
  show "g < s_next_hot ?t \<and> distinct (h_users F) \<and> h_users F \<noteq> []" if "s_hotl ?t g = Some F" for g F
    using that H(2-4) h unfolding st by (auto split: if_splits)
  show "distinct (c_hotlist C)" if "s_conns ?t d = Some C" for d C
    using that H(5) con nw unfolding st by (auto split: if_splits)
  show "lists ?t d g \<longleftrightarrow> waits ?t g d" for d g
    using H(6) [of d g] con h unfolding lists_def waits_def st by (auto split: if_splits)
qed

lemma hot_join:
  assumes "if con \<in> set (h_users (hot s h)) then hot_ok s else hot_ok (wait_for con h s)"
  shows "hot_ok (join_hotlist con h s)"
  using assms by (simp add: join_hotlist_def Let_def split: option.split)

text \<open>A connection whose own list is not looked at stops waiting.\<close>

lemma hot_remove_run:
  assumes "table_ok (s_Hotlist s) (s_hotl s) h_nick" "s_hotl s h = Some E"
  shows "hot_remove (h_nick E) s =
    s\<lparr>s_Hotlist := fst (hash_remove (s_Hotlist s) (h_nick E)), s_hotl := (s_hotl s)(h := None)\<rparr>"
proof -
  have "snd (hash_remove (s_Hotlist s) (h_nick E)) = Some h"
    using table_ok_named [OF assms] by (simp add: hash_remove_result)
  then show ?thesis
    by (cases "hash_remove (s_Hotlist s) (h_nick E)") (simp add: hot_remove_def free_hotlist_def)
qed

lemma hot_stop_waiting:
  assumes ok: "hot_upto X s" and X: "con \<in> X" and h: "s_hotl s h = Some E"
  shows "hot_upto X (stop_waiting con h s)"
    and "waits (stop_waiting con h s) g d \<longleftrightarrow> waits s g d \<and> (g, d) \<noteq> (h, con)"
    and "s_conns (stop_waiting con h s) = s_conns s"
proof -
  note H = hot_uptoD [OF ok]
  let ?us = "list_delete (h_users E) con" and ?E = "E\<lparr>h_users := list_delete (h_users E) con\<rparr>"
  let ?s = "upd_hot h (\<lambda>H. H\<lparr>h_users := list_delete (h_users H) con\<rparr>) s"
  have us: "distinct ?us" "set ?us = set (h_users E) - {con}" using H(3) [OF h] by simp_all
  have T: "table_ok (s_Hotlist ?s) (s_hotl ?s) h_nick"
    unfolding upd_hot_frame by (rule table_ok_upd [OF H(1)]) simp
  have E: "s_hotl ?s h = Some ?E" using h by simp
  have run: "stop_waiting con h s = (if ?us = [] then
      ?s\<lparr>s_Hotlist := fst (hash_remove (s_Hotlist s) (h_nick E)), s_hotl := (s_hotl s)(h := None)\<rparr> else ?s)"
    using hot_remove_run [OF T E] h by (simp add: stop_waiting_def Let_def)
  show c: "s_conns (stop_waiting con h s) = s_conns s" by (simp add: run)
  show w: "waits (stop_waiting con h s) g d \<longleftrightarrow> waits s g d \<and> (g, d) \<noteq> (h, con)" for g d
    using us(2) h unfolding run by (cases "?us = []") (auto simp: waits_def)
  show "hot_upto X (stop_waiting con h s)"
  proof (rule hot_uptoI)
    show "table_ok (s_Hotlist (stop_waiting con h s)) (s_hotl (stop_waiting con h s)) h_nick"
    proof (cases "?us = []")
      case True
      have "hash_lookup (s_Hotlist s) (h_nick E) = Some h" by (rule table_ok_named [OF H(1) h])
      then show ?thesis using True table_ok_remove [OF H(1)] unfolding run by simp
    qed (use T in \<open>simp add: run\<close>)
    show "g < s_next_hot (stop_waiting con h s) \<and> distinct (h_users F) \<and> h_users F \<noteq> []"
      if "s_hotl (stop_waiting con h s) g = Some F" for g F
      using that H(2-4) us(1) h unfolding run by (auto split: if_splits)
    show "distinct (c_hotlist K)" if "s_conns (stop_waiting con h s) d = Some K" for d K
      using that H(5) unfolding c by blast
    show "lists (stop_waiting con h s) d g \<longleftrightarrow> waits (stop_waiting con h s) g d" if "d \<notin> X" for d g
      using H(6) [OF that, of g] X that unfolding w by (auto simp: lists_def c)
  qed
qed

text \<open>Once its list says what it waits for, nothing is excused.\<close>

lemma hot_upto_drop:
  assumes ok: "hot_upto {con} s" and "\<And>h. lists s con h \<longleftrightarrow> waits s h con"
  shows "hot_ok s"
proof (rule hot_uptoI)
  show "lists s d h \<longleftrightarrow> waits s h d" for d h
    using hot_uptoD(6) [OF ok, of d h] assms(2) [of h] by (cases "d = con") auto
qed (use hot_uptoD [OF ok] in blast)+

lemma hot_own_list:
  assumes ok: "hot_ok s" and f: "\<And>K. distinct (c_hotlist K) \<Longrightarrow> distinct (c_hotlist (f K))"
  shows "hot_upto {con} (upd_conn con f s)"
proof (rule hot_uptoI)
  let ?t = "upd_conn con f s"
  note H = hot_uptoD [OF ok]
  show "table_ok (s_Hotlist ?t) (s_hotl ?t) h_nick" using H(1) by simp
  show "h < s_next_hot ?t \<and> distinct (h_users E) \<and> h_users E \<noteq> []" if "s_hotl ?t h = Some E" for h E
    using that H(2-4) by simp
  show "distinct (c_hotlist K)" if "s_conns ?t d = Some K" for d K
    using that H(5) f by (auto split: if_splits)
  show "lists ?t d h \<longleftrightarrow> waits ?t h d" if "d \<notin> {con}" for d h
    using H(6) [of d h] that by (simp add: lists_def waits_def)
qed

lemma hot_unlist:
  assumes ok: "hot_ok s" and con: "con \<in> dom (s_conns s)" and h: "s_hotl s h = Some E"
  shows "hot_ok (stop_waiting con h (upd_conn con (\<lambda>C. C\<lparr>c_hotlist := list_delete (c_hotlist C) h\<rparr>) s))"
proof (rule hot_upto_drop)
  let ?s = "upd_conn con (\<lambda>C. C\<lparr>c_hotlist := list_delete (c_hotlist C) h\<rparr>) s"
  have up: "hot_upto {con} ?s" by (rule hot_own_list [OF ok]) simp
  have h': "s_hotl ?s h = Some E" using h by simp
  note S = hot_stop_waiting [OF up _ h', of con, simplified]
  show "hot_upto {con} (stop_waiting con h ?s)" by (rule S(1))
  obtain K where K: "s_conns s con = Some K" using con by blast
  have "lists (stop_waiting con h ?s) con g \<longleftrightarrow> lists s con g \<and> g \<noteq> h" for g
    using hot_uptoD(5) [OF ok K] K by (auto simp: lists_def S(3))
  moreover have "waits ?s = waits s" by (simp add: waits_def fun_eq_iff)
  ultimately show "lists (stop_waiting con h ?s) con g \<longleftrightarrow> waits (stop_waiting con h ?s) g con" for g
    using hot_uptoD(6) [OF ok, of con g] by (simp add: S(2))
qed

text \<open>C25: The hotlist commands keep the two directions consistent: a connection is among the waiters of an
  entry exactly if the entry is on its own list, no entry is without waiters, and every entry is found
  under its name.\<close>

theorem hotlists_consistent:
  assumes ok: "hot_ok s" and con: "con \<in> dom (s_conns s)"
    and t: "t \<in> {add_hotlist con tag pkt s, remove_hotlist con tag pkt s}"
  shows "hot_ok t"
proof -
  obtain K where K: "s_conns s con = Some K" using con by blast
  have "hot_ok (add_hotlist con tag pkt s)"
  proof (cases "hash_lookup (s_Hotlist s) pkt")
    case None
    have "hot_ok (join_hotlist con (s_next_hot s) (new_hotlist pkt s))"
      using hot_new_wait [OF ok K None] by (intro hot_join) (simp add: new_hotlist_def)
    then show ?thesis using ok None by (simp add: add_hotlist_def Let_def)
  next
    case (Some h)
    obtain E where E: "s_hotl s h = Some E" by (rule table_ok_lookup [OF hot_uptoD(1) [OF ok] Some])
    have "hot_ok (join_hotlist con h s)"
      using hot_wait [OF ok K E] ok E by (intro hot_join) simp
    then show ?thesis using ok Some by (simp add: add_hotlist_def Let_def)
  qed
  moreover have "hot_ok (remove_hotlist con tag pkt s)"
  proof (cases "hash_lookup (s_Hotlist s) pkt")
    case (Some h)
    obtain E where E: "s_hotl s h = Some E" by (rule table_ok_lookup [OF hot_uptoD(1) [OF ok] Some])
    show ?thesis using hot_unlist [OF ok con E] ok Some by (simp add: remove_hotlist_def)
  qed (use ok in \<open>simp add: remove_hotlist_def\<close>)
  ultimately show ?thesis using t by blast
qed

lemma hot_ok_sample: "hot_ok sample"
  by (rule hot_uptoI) (auto simp: table_ok_def lists_def waits_def sample_simps split: if_splits)

lemma hotlists_consistent_witness:
  "hot_ok (add_hotlist 0 207 ''dave'' sample) \<and> waits (add_hotlist 0 207 ''dave'' sample) 0 0"
proof -
  have c: "0 \<in> dom (s_conns sample)" by (simp add: domIff)
  have i: "\<not> invalid_nick sample ''dave''"
    by (simp add: invalid_nick_def bad_nick_chars_def strcaseeq_def char_eval sample_cfg_def)
  have l: "hash_lookup (s_Hotlist sample) ''dave'' = None" "s_next_hot sample = 0"
    by (simp_all add: sample_def hash_lookup_init)
  have "add_hotlist 0 207 ''dave'' sample = join_hotlist 0 0 (new_hotlist ''dave'' sample)"
    using i by (simp add: add_hotlist_def l sample_parts)
  then have "waits (add_hotlist 0 207 ''dave'' sample) 0 0"
    by (auto simp: waits_def join_hotlist_def new_hotlist_def wait_for_def l Let_def split: option.split)
  then show ?thesis using hotlists_consistent [OF hot_ok_sample c] by blast
qed

end
