(* ===== verification/Links.thy ===== *)
theory Links
  imports Public
begin

text \<open>
  What the server knows about the links between other servers (\<open>src/server_login.c\<close>: \<open>link_info\<close>,
  \<open>server_quit\<close>, \<open>remove_links\<close>; \<open>src/server_connect.c\<close>: \<open>is_linked\<close>).  When a server quits, the links
  behind it are marked by a recursive search and the marked ones are removed.
\<close>

section \<open>The operations\<close>

text \<open>Both ports are set to -1, which is 65535 in their type \<open>unsigned short\<close>.\<close>

definition mark_link :: "link \<Rightarrow> link" where
  "mark_link l = l\<lparr>l_port := 65535, l_peerport := 65535\<rparr>"

definition marked :: "link \<Rightarrow> bool" where
  "marked l \<longleftrightarrow> l_port l = 65535 \<and> l_peerport l = 65535"

text \<open>Each recursive call finds one link less that is not marked.\<close>

definition fresh :: "link list \<Rightarrow> nat set" where
  "fresh ls = {j. j < length ls \<and> l_port (ls ! j) \<noteq> 65535 \<and> l_peerport (ls ! j) \<noteq> 65535}"

lemma finite_fresh [simp]: "finite (fresh ls)"
  by (simp add: fresh_def)

lemma fresh_mark: "i < length ls \<Longrightarrow> fresh (ls[i := mark_link l]) = fresh ls - {i}"
  by (auto simp: fresh_def nth_list_update mark_link_def split: if_splits)

text \<open>The loop of \<open>mark_links\<close> from the \<open>i\<close>th link on.\<close>

function mark_from :: "string \<Rightarrow> nat \<Rightarrow> link list \<Rightarrow> link list" where
  "mark_from host i ls =
     (if length ls \<le> i then ls
      else
        let link = ls ! i in
        if l_port link \<noteq> 65535 \<and> l_peerport link \<noteq> 65535 \<and> strcaseeq host (l_server link)
        then mark_from host (Suc i) (mark_from (l_peer link) 0 (ls[i := mark_link link]))
        else mark_from host (Suc i) ls)"
  by pat_completeness auto

termination
proof (relation "measures [\<lambda>(host, i, ls). card (fresh ls), \<lambda>(host, i, ls). length ls - i]")
  have fresh: "fresh (mark_from host i ls) \<subseteq> fresh ls \<and> length (mark_from host i ls) = length ls"
    if "mark_from_dom (host, i, ls)" for host i ls
    using that
  proof (induction rule: mark_from.pinduct)
    case (1 host i ls)
    show ?case
    proof (cases "length ls \<le> i")
      case True
      then show ?thesis using 1(1) by (simp add: mark_from.psimps)
    next
      case False
      let ?l = "ls ! i" and ?ls = "ls[i := mark_link (ls ! i)]"
      show ?thesis
      proof (cases "l_port ?l \<noteq> 65535 \<and> l_peerport ?l \<noteq> 65535 \<and> strcaseeq host (l_server ?l)")
        case True
        then have run: "mark_from host i ls = mark_from host (Suc i) (mark_from (l_peer ?l) 0 ?ls)"
          using 1(1) False by (simp add: mark_from.psimps Let_def)
        have "fresh (mark_from (l_peer ?l) 0 ?ls) \<subseteq> fresh ls"
          using 1(2) [OF False refl True] fresh_mark [of i ls] False by auto
        then show ?thesis
          unfolding run using 1(2) [OF False refl True] 1(3) [OF False refl True] by auto
      next
        case no: False
        then have "mark_from host i ls = mark_from host (Suc i) ls"
          using 1(1) False by (auto simp add: mark_from.psimps Let_def)
        then show ?thesis using 1(4) [OF False refl no] by simp
      qed
    qed
  qed
  fix host i and ls :: "link list" and l
  assume i: "\<not> length ls \<le> i" and l: "l = ls ! i"
    and c: "l_port l \<noteq> 65535 \<and> l_peerport l \<noteq> 65535 \<and> strcaseeq host (l_server l)"
  have "i \<in> fresh ls" using i l c by (simp add: fresh_def)
  then have less: "card (fresh (ls[i := mark_link l])) < card (fresh ls)"
    using i card_Diff1_less [of "fresh ls" i] by (simp add: fresh_mark)
  then show "((l_peer l, 0, ls[i := mark_link l]), host, i, ls)
      \<in> measures [\<lambda>(host, i, ls). card (fresh ls), \<lambda>(host, i, ls). length ls - i]" by simp
  assume "mark_from_dom (l_peer l, 0, ls[i := mark_link l])"
  then have "card (fresh (mark_from (l_peer l) 0 (ls[i := mark_link l]))) \<le> card (fresh (ls[i := mark_link l]))"
    using fresh [of "l_peer l" 0] by (simp add: card_mono)
  then show "((host, Suc i, mark_from (l_peer l) 0 (ls[i := mark_link l])), host, i, ls)
      \<in> measures [\<lambda>(host, i, ls). card (fresh ls), \<lambda>(host, i, ls). length ls - i]"
    using less by simp
qed simp_all

declare mark_from.simps [simp del]

definition mark_links :: "string \<Rightarrow> link list \<Rightarrow> link list" where
  "mark_links host ls = mark_from host 0 ls"

definition remove_links :: "string \<Rightarrow> srv \<Rightarrow> srv" where
  "remove_links host s = s\<lparr>s_Server_Links := filter (\<lambda>l. \<not> marked l) (mark_links host (s_Server_Links s))\<rparr>"

text \<open>A port that is out of range is reported and becomes 0.\<close>

definition link_port :: "cid \<Rightarrow> string \<Rightarrow> srv \<Rightarrow> nat \<times> srv" where
  "link_port con t s =
     (if atoi t < 0 \<or> 65535 < atoi t
      then (0, send_cmd con MSG_SERVER_NOSUCH (''Invalid port '' @ int_dec (atoi t)) s)
      else (nat (atoi t), s))"

definition link_hops :: "cid \<Rightarrow> string \<Rightarrow> srv \<Rightarrow> int \<times> srv" where
  "link_hops con t s =
     (if atoi t < 0
      then (1, send_cmd con MSG_SERVER_NOSUCH (''Invalid hop count '' @ int_dec (atoi t)) s)
      else (atoi t, s))"

definition link_info :: "cid \<Rightarrow> nat \<Rightarrow> string \<Rightarrow> srv \<Rightarrow> srv" where
  "link_info con tag pkt s =
     (if \<not> ISSERVER con s then s
      else
        let av = get_args 5 (Some pkt) in
        if length av \<noteq> 5
        then send_cmd con MSG_SERVER_NOSUCH (''Wrong number of parameters for command '' @ nat_dec tag) s
        else
          let (port, s) = link_port con (av ! 1) s;
              (peerport, s) = link_port con (av ! 3) s;
              (hops, s) = link_hops con (av ! 4) s;
              l = \<lparr>l_server = av ! 0, l_peer = av ! 2, l_port = port, l_peerport = peerport, l_hops = hops\<rparr>;
              s = s\<lparr>s_Server_Links := s_Server_Links s @ [l]\<rparr>;
              s = pass_message_args (Some con) tag (l_server l @ '' '' @ nat_dec (l_port l) @ '' '' @
                    l_peer l @ '' '' @ nat_dec (l_peerport l) @ '' '' @ int_dec (wrap32 (l_hops l + 1))) s
          in notify_mods SERVERLOG_MODE (''Server '' @ l_peer l @ '' has joined'') s)"

text \<open>The first link between the two servers goes, and the links behind it.\<close>

fun find_link :: "string \<Rightarrow> string \<Rightarrow> link list \<Rightarrow> nat option" where
  "find_link server peer [] = None"
| "find_link server peer (l # ls) =
     (if strcaseeq (l_server l) server \<and> strcaseeq (l_peer l) peer then Some 0
      else map_option Suc (find_link server peer ls))"

definition drop_link :: "string \<Rightarrow> string \<Rightarrow> srv \<Rightarrow> srv" where
  "drop_link server peer s =
     (case find_link server peer (s_Server_Links s) of
        None \<Rightarrow> s
      | Some i \<Rightarrow>
          let l = s_Server_Links s ! i
          in remove_links (l_peer l) (s\<lparr>s_Server_Links := (s_Server_Links s)[i := mark_link l]\<rparr>))"

definition server_quit :: "cid \<Rightarrow> nat \<Rightarrow> string \<Rightarrow> srv \<Rightarrow> srv" where
  "server_quit con tag pkt s =
     (if \<not> ISSERVER con s then s
      else if pkt = [] \<or> hd pkt \<noteq> CHR '':'' then send_cmd con MSG_SERVER_NOSUCH ''Invalid server quit message'' s
      else
        let av = get_args 2 (Some (tl pkt)) in
        if length av \<noteq> 2
        then send_cmd con MSG_SERVER_NOSUCH ''Invalid number of parameters for server quit'' s
        else
          let s = drop_link (av ! 0) (av ! 1) s;
              s = notify_mods SERVERLOG_MODE (''Server '' @ av ! 1 @ '' has quit'') s
          in pass_message_args (Some con) tag ('':'' @ av ! 0 @ '' '' @ av ! 1) s)"

definition link_collision :: "cid \<Rightarrow> string \<Rightarrow> nat \<Rightarrow> string \<Rightarrow> nat \<Rightarrow> srv \<Rightarrow> srv" where
  "link_collision con server port peer peerport s =
     (let text = ''already linked ('' @ server @ '':'' @ nat_dec port @ '' -> '' @ peer @ '':'' @ nat_dec peerport @ '')''
      in if ISUSER con s then send_cmd con MSG_SERVER_NOSUCH text s
         else send_cmd con MSG_SERVER_ERROR text (upd_conn con (\<lambda>C. C\<lparr>c_destroy := True\<rparr>) s))"

text \<open>The return value 1 is \<open>True\<close>.\<close>

definition is_linked :: "cid \<Rightarrow> string \<Rightarrow> srv \<Rightarrow> bool \<times> srv" where
  "is_linked con host s =
     (case find (\<lambda>c. strcaseeq (c_host (cnx s c)) host) (s_Servers s) of
        Some serv \<Rightarrow>
          (True, link_collision con (Server_Name (s_cfg s)) (c_local_port (cnx s serv)) (c_host (cnx s serv))
                   (c_port (cnx s serv)) s)
      | None \<Rightarrow>
          (case find (\<lambda>l. strcaseeq (l_server l) host \<or> strcaseeq (l_peer l) host) (s_Server_Links s) of
             Some l \<Rightarrow> (True, link_collision con (l_server l) (l_port l) (l_peer l) (l_peerport l) s)
           | None \<Rightarrow> (False, s)))"

lemmas [handler_defs] = link_info_def server_quit_def

section \<open>The invariant of the members is kept\<close>

lemma same_core_remove_links [simp]: "same_core (remove_links h s) r = same_core s r"
  by (simp add: remove_links_def same_core_def)

lemma same_core_links [simp]: "same_core (s\<lparr>s_Server_Links := ls\<rparr>) r = same_core s r"
  by (simp add: same_core_def)

lemma same_core_drop_link [simp]: "same_core (drop_link a b s) r = same_core s r"
  by (simp add: drop_link_def Let_def split: option.split)

lemma same_core_link_parts:
  "same_core (snd (link_port con t s)) r = same_core s r" "same_core (snd (link_hops con t s)) r = same_core s r"
  by (simp_all add: link_port_def link_hops_def)

lemma wf_links: "wf s \<Longrightarrow> wf (link_info con tag pkt s)" "wf s \<Longrightarrow> wf (server_quit con tag pkt s)"
  by (rule iffD2 [OF same_core_wf [of _ s]];
      simp add: link_info_def server_quit_def Let_def case_prod_beta same_core_link_parts)+

lemma wf_is_linked: "wf s \<Longrightarrow> wf (snd (is_linked con host s))"
  by (simp add: is_linked_def link_collision_def Let_def wf_upd_conn split: option.split)

section \<open>Exactly the links behind a server are removed\<close>

text \<open>The links behind a host, given the two ends of every link.\<close>

inductive behind :: "(string \<times> string) list \<Rightarrow> string \<Rightarrow> string \<times> string \<Rightarrow> bool" for es where
  direct: "(a, b) \<in> set es \<Longrightarrow> strcaseeq host a \<Longrightarrow> behind es host (a, b)"
| further: "(a, b) \<in> set es \<Longrightarrow> strcaseeq host a \<Longrightarrow> behind es b e \<Longrightarrow> behind es host e"

text \<open>Marking keeps the ends of a link.\<close>

definition ends :: "link \<Rightarrow> string \<times> string" where
  "ends l = (l_server l, l_peer l)"

lemma ends_mark [simp]: "ends (mark_link l) = ends l" "l_server (mark_link l) = l_server l"
  "l_peer (mark_link l) = l_peer l" "marked (mark_link l)" "mark_link (mark_link l) = mark_link l"
  by (simp_all add: ends_def mark_link_def marked_def)

text \<open>One list is the other with some links marked.\<close>

definition more_marked :: "link list \<Rightarrow> link list \<Rightarrow> bool" where
  "more_marked ls ms \<longleftrightarrow> list_all2 (\<lambda>l m. m = l \<or> m = mark_link l) ls ms"

lemma more_marked_refl [simp]: "more_marked ls ls"
  by (simp add: more_marked_def list_all2_refl)

lemma more_marked_nth:
  assumes "more_marked ls ms"
  shows "length ms = length ls" "j < length ls \<Longrightarrow> ms ! j = ls ! j \<or> ms ! j = mark_link (ls ! j)"
  using assms by (auto simp: more_marked_def list_all2_conv_all_nth)

lemma more_marked_trans:
  assumes "more_marked ls ms" "more_marked ms ns"
  shows "more_marked ls ns"
proof -
  have "ns ! j = ls ! j \<or> ns ! j = mark_link (ls ! j)" if "j < length ls" for j
    using more_marked_nth(2) [OF assms(1) that] more_marked_nth(2) [OF assms(2), of j] that
      more_marked_nth(1) [OF assms(1)] by auto
  then show ?thesis
    using more_marked_nth(1) [OF assms(1)] more_marked_nth(1) [OF assms(2)]
    by (simp add: more_marked_def list_all2_conv_all_nth)
qed

lemma more_marked_update: "i < length ls \<Longrightarrow> more_marked ls (ls[i := mark_link (ls ! i)])"
  by (auto simp: more_marked_def list_all2_conv_all_nth nth_list_update)

lemma more_marked_mark_from: "more_marked ls (mark_from host i ls)"
proof (induction host i ls rule: mark_from.induct)
  case (1 host i ls)
  show ?case
  proof (cases "length ls \<le> i")
    case False
    then show ?thesis
      using 1 more_marked_update [of i ls]
      by (subst mark_from.simps) (auto simp: Let_def intro: more_marked_trans)
  qed (simp add: mark_from.simps)
qed

lemma more_marked_ends: "more_marked ls ms \<Longrightarrow> map ends ms = map ends ls"
  using more_marked_nth [of ls ms] by (intro nth_equalityI) fastforce+

lemma more_marked_marked: "more_marked ls ms \<Longrightarrow> j < length ls \<Longrightarrow> marked (ls ! j) \<Longrightarrow> marked (ms ! j)"
  using more_marked_nth(2) [of ls ms j] by auto

text \<open>The search takes a link for marked already when one of its ports is 65535.\<close>

definition ports_ok :: "link list \<Rightarrow> bool" where
  "ports_ok ls \<longleftrightarrow> (\<forall>l \<in> set ls. marked l \<or> l_port l \<noteq> 65535 \<and> l_peerport l \<noteq> 65535)"

lemma ports_ok_more: "ports_ok ls \<Longrightarrow> more_marked ls ms \<Longrightarrow> ports_ok ms"
  using more_marked_nth [of ls ms] unfolding ports_ok_def all_set_conv_all_nth by (metis ends_mark(4))

lemma mark_from_complete:
  "ports_ok ls \<Longrightarrow>
   (\<forall>j < length ls. i \<le> j \<and> strcaseeq host (l_server (ls ! j)) \<longrightarrow> marked (mark_from host i ls ! j)) \<and>
   (\<forall>j < length ls. \<forall>k < length ls. \<not> marked (ls ! j) \<and> marked (mark_from host i ls ! j) \<and>
      strcaseeq (l_peer (ls ! j)) (l_server (ls ! k)) \<longrightarrow> marked (mark_from host i ls ! k))"
proof (induction host i ls rule: mark_from.induct)
  case (1 host i ls)
  show ?case
  proof (cases "length ls \<le> i")
    case True
    then have "mark_from host i ls = ls" by (simp add: mark_from.simps)
    then show ?thesis using True by auto
  next
    case i: False
    let ?l = "ls ! i"
    let ?hit = "l_port ?l \<noteq> 65535 \<and> l_peerport ?l \<noteq> 65535 \<and> strcaseeq host (l_server ?l)"
    show ?thesis
    proof (cases ?hit)
      case no: False
      have run: "mark_from host i ls = mark_from host (Suc i) ls"
        using i no by (subst mark_from.simps) (auto simp: Let_def)
      have at: "marked (mark_from host (Suc i) ls ! i)" if "strcaseeq host (l_server ?l)"
      proof -
        have "marked ?l" using "1.prems" no that i by (auto simp: ports_ok_def)
        then show ?thesis using more_marked_marked [OF more_marked_mark_from] i by simp
      qed
      show ?thesis
        using 1(3) [OF i refl no "1.prems"] at unfolding run by (metis le_antisym not_less_eq_eq)
    next
      case hit: True
      define l1 where "l1 = ls[i := mark_link ?l]"
      define m1 where "m1 = mark_from (l_peer ?l) 0 l1"
      define m where "m = mark_from host (Suc i) m1"
      have run: "mark_from host i ls = m"
        using i hit by (subst mark_from.simps) (simp add: Let_def m_def m1_def l1_def)
      have mm: "more_marked ls l1" "more_marked l1 m1" "more_marked m1 m"
        using more_marked_update [of i ls] i by (simp_all add: l1_def m1_def m_def more_marked_mark_from)
      have len: "length l1 = length ls" "length m1 = length ls"
        using more_marked_nth(1) [OF mm(1)] more_marked_nth(1) [OF mm(2)] by simp_all
      have ok1: "ports_ok l1" by (rule ports_ok_more [OF "1.prems" mm(1)])
      note I = 1(1) [OF i refl hit ok1 [unfolded l1_def], folded l1_def, folded m1_def, unfolded len]
      note O = 1(2) [OF i refl hit, folded l1_def, folded m1_def, folded m_def, OF ports_ok_more [OF ok1 mm(2)], unfolded len]
      have up: "marked (m1 ! j) \<Longrightarrow> marked (m ! j)" "marked (l1 ! j) \<Longrightarrow> marked (m1 ! j)" if "j < length ls" for j
        using more_marked_marked [OF mm(3)] more_marked_marked [OF mm(2)] that len by simp_all
      have same: "l_server (l1 ! j) = l_server (ls ! j)" "l_peer (l1 ! j) = l_peer (ls ! j)"
        "l_server (m1 ! j) = l_server (ls ! j)" "l_peer (m1 ! j) = l_peer (ls ! j)" if j: "j < length ls" for j
        using more_marked_nth(2) [OF mm(1) j] more_marked_nth(2) [OF mm(2), of j] j len by auto
      have first: "marked (m ! j)" if j: "j < length ls" "i \<le> j" "strcaseeq host (l_server (ls ! j))" for j
      proof (cases "j = i")
        case True
        then have "marked (l1 ! j)" using i by (simp add: l1_def)
        then show ?thesis using up [OF j(1)] by blast
      next
        case False
        then show ?thesis using O j same [OF j(1)] by simp
      qed
      have second: "marked (m ! k)"
        if j: "j < length ls" "k < length ls" "\<not> marked (ls ! j)" "marked (m ! j)"
          "strcaseeq (l_peer (ls ! j)) (l_server (ls ! k))" for j k
      proof -
        consider "j = i" | "j \<noteq> i" "marked (m1 ! j)" | "\<not> marked (m1 ! j)" by blast
        then show ?thesis
        proof cases
          case 1
          then have "marked (m1 ! k)" using I j(2,5) same [OF j(2)] by auto
          then show ?thesis by (rule up(1) [OF j(2)])
        next
          case 2
          then have "\<not> marked (l1 ! j)" using j(3) by (simp add: l1_def)
          then have "marked (m1 ! k)" using I 2 j same [OF j(1)] same [OF j(2)] by metis
          then show ?thesis by (rule up(1) [OF j(2)])
        next
          case 3
          then show ?thesis using O j same [OF j(1)] same [OF j(2)] by metis
        qed
      qed
      show ?thesis using first second unfolding run by blast
    qed
  qed
qed

lemma mark_from_sound:
  "j < length ls \<Longrightarrow> \<not> marked (ls ! j) \<Longrightarrow> marked (mark_from host i ls ! j) \<Longrightarrow>
   behind (map ends ls) host (ends (ls ! j))"
proof (induction host i ls arbitrary: j rule: mark_from.induct)
  case (1 host i ls)
  show ?case
  proof (cases "length ls \<le> i")
    case True
    then show ?thesis using "1.prems" by (simp add: mark_from.simps)
  next
    case i: False
    let ?l = "ls ! i"
    let ?hit = "l_port ?l \<noteq> 65535 \<and> l_peerport ?l \<noteq> 65535 \<and> strcaseeq host (l_server ?l)"
    show ?thesis
    proof (cases ?hit)
      case no: False
      have "mark_from host i ls = mark_from host (Suc i) ls"
        using i no by (subst mark_from.simps) (auto simp: Let_def)
      then show ?thesis using 1(3) [OF i refl no, of j] "1.prems" by simp
    next
      case hit: True
      define l1 where "l1 = ls[i := mark_link ?l]"
      define m1 where "m1 = mark_from (l_peer ?l) 0 l1"
      have run: "mark_from host i ls = mark_from host (Suc i) m1"
        using i hit by (subst mark_from.simps) (simp add: Let_def m1_def l1_def)
      have mm: "more_marked ls l1" "more_marked l1 m1"
        using more_marked_update [of i ls] i by (simp_all add: l1_def m1_def more_marked_mark_from)
      have len: "length l1 = length ls" "length m1 = length ls"
        using more_marked_nth(1) [OF mm(1)] more_marked_nth(1) [OF mm(2)] by simp_all
      have es: "map ends l1 = map ends ls" "map ends m1 = map ends ls"
        using more_marked_ends [OF mm(1)] more_marked_ends [OF mm(2)] by simp_all
      have e: "ends (l1 ! j) = ends (ls ! j)" "ends (m1 ! j) = ends (ls ! j)"
        using arg_cong [OF es(1), of "\<lambda>xs. xs ! j"] arg_cong [OF es(2), of "\<lambda>xs. xs ! j"] "1.prems"(1) len by simp_all
      have here: "(l_server ?l, l_peer ?l) \<in> set (map ends ls)"
        using i nth_mem [of i ls] by (force simp: ends_def)
      consider "j = i" | "j \<noteq> i" "marked (m1 ! j)" | "\<not> marked (m1 ! j)" by blast
      then show ?thesis
      proof cases
        case 1
        moreover have "ends ?l = (l_server ?l, l_peer ?l)" by (simp add: ends_def)
        ultimately show ?thesis using behind.direct [OF here] hit by simp
      next
        case 2
        then have "\<not> marked (l1 ! j)" using "1.prems"(2) by (simp add: l1_def)
        then have "behind (map ends l1) (l_peer ?l) (ends (l1 ! j))"
          using 1(1) [OF i refl hit, folded l1_def, folded m1_def, of j] 2 "1.prems"(1) len by simp
        then show ?thesis using behind.further [OF here] hit by (simp add: es e)
      next
        case 3
        then show ?thesis
          using 1(2) [OF i refl hit, folded l1_def, folded m1_def, of j] "1.prems" len run by (simp add: es e)
      qed
    qed
  qed
qed

lemma mark_links_run:
  assumes ok: "\<forall>l \<in> set ls. l_port l \<noteq> 65535 \<and> l_peerport l \<noteq> 65535"
  shows "mark_links host ls = map (\<lambda>l. if behind (map ends ls) host (ends l) then mark_link l else l) ls"
proof (rule nth_equalityI)
  let ?ms = "mark_from host 0 ls"
  have po: "ports_ok ls" and un: "\<not> marked (ls ! j)" if "j < length ls" for j
    using ok that by (auto simp: ports_ok_def marked_def)
  note mm = more_marked_mark_from [of ls host 0]
  show "length (mark_links host ls) = length (map (\<lambda>l. if behind (map ends ls) host (ends l) then mark_link l else l) ls)"
    using more_marked_nth(1) [OF mm] by (simp add: mark_links_def)
  fix j assume "j < length (mark_links host ls)"
  then have j: "j < length ls" using more_marked_nth(1) [OF mm] by (simp add: mark_links_def)
  have C1: "marked (?ms ! k)" if "k < length ls" "strcaseeq host (l_server (ls ! k))" for k
    using mark_from_complete [OF po [OF j], of 0 host] that by blast
  have C2: "marked (?ms ! k)"
    if "i < length ls" "k < length ls" "marked (?ms ! i)" "strcaseeq (l_peer (ls ! i)) (l_server (ls ! k))" for i k
    using mark_from_complete [OF po [OF j], of 0 host] un [OF that(1)] that by blast
  have all: "behind (map ends ls) h e \<Longrightarrow> (\<And>k. k < length ls \<Longrightarrow> strcaseeq h (l_server (ls ! k)) \<Longrightarrow> marked (?ms ! k)) \<Longrightarrow>
      \<forall>k < length ls. ends (ls ! k) = e \<longrightarrow> marked (?ms ! k)" for h e
  proof (induction rule: behind.induct)
    case (direct a b h)
    then show ?case by (auto simp: ends_def)
  next
    case (further a b h e)
    obtain i where i: "i < length ls" "ends (ls ! i) = (a, b)"
      using further.hyps(1) by (auto simp: in_set_conv_nth)
    then have "marked (?ms ! i)" using further.prems further.hyps(2) by (auto simp: ends_def)
    then have "marked (?ms ! k)" if "k < length ls" "strcaseeq b (l_server (ls ! k))" for k
      using C2 [OF i(1) that(1)] i(2) that(2) by (simp add: ends_def)
    then show ?case by (rule further.IH)
  qed
  have "behind (map ends ls) host (ends (ls ! j)) \<longleftrightarrow> marked (?ms ! j)"
  proof
    assume "behind (map ends ls) host (ends (ls ! j))"
    then show "marked (?ms ! j)" using all [of host] C1 j by blast
  qed (rule mark_from_sound [OF j un [OF j]])
  then show "mark_links host ls ! j = map (\<lambda>l. if behind (map ends ls) host (ends l) then mark_link l else l) ls ! j"
    using more_marked_nth(2) [OF mm j] un [OF j] j by (auto simp: mark_links_def)
qed


definition sample_link :: "string \<Rightarrow> string \<Rightarrow> nat \<Rightarrow> link" where
  "sample_link a b port = \<lparr>l_server = a, l_peer = b, l_port = port, l_peerport = 8888, l_hops = 1\<rparr>"

definition sample_links :: "nat \<Rightarrow> srv" where
  "sample_links port = sample\<lparr>s_Server_Links :=
     [sample_link ''b'' ''c'' port, sample_link ''peer'' ''b'' 8888, sample_link ''x'' ''y'' 8888]\<rparr>"


text \<open>A link that really uses the port 65535, which \<open>link_info\<close> accepts, looks like a marked one to the
  search: the link and what is behind it stay when their server quits.\<close>

theorem link_of_port_65535_stays:
  "s_Server_Links (remove_links ''b'' (sample_links 65535)) = s_Server_Links (sample_links 65535)"
proof -
  have "mark_from ''b'' 3 ls = ls" "mark_from ''b'' 2 ls = ls" "mark_from ''b'' (Suc 0) ls = ls" "mark_from ''b'' 0 ls = ls"
    if ls: "ls = s_Server_Links (sample_links 65535)" for ls
  proof -
    have n: "length ls = 3" "ls ! 0 = sample_link ''b'' ''c'' 65535" "ls ! 1 = sample_link ''peer'' ''b'' 8888"
      "ls ! 2 = sample_link ''x'' ''y'' 8888" by (simp_all add: ls sample_links_def)
    show 3: "mark_from ''b'' 3 ls = ls" using n(1) by (simp add: mark_from.simps)
    show 2: "mark_from ''b'' 2 ls = ls"
      using n 3 by (subst mark_from.simps) (simp add: sample_link_def strcaseeq_def char_eval Let_def)
    show 1: "mark_from ''b'' (Suc 0) ls = ls"
      using n 2 by (subst mark_from.simps) (simp add: sample_link_def strcaseeq_def char_eval Let_def numeral_2_eq_2)
    show "mark_from ''b'' 0 ls = ls" using n 1 by (subst mark_from.simps) (simp add: sample_link_def Let_def)
  qed
  then show ?thesis by (simp add: remove_links_def mark_links_def sample_links_def sample_link_def marked_def)
qed

end
