(* ===== verification/Searches.thy ===== *)
theory Searches
  imports Public
begin

text \<open>
  Searches that run on several servers (\<open>src/search.c\<close>: the list \<open>Remote_Search\<close> and the handlers of the
  answers).  An entry counts the servers that have reported the end of their results.
\<close>

section \<open>The operations\<close>

definition upd_searches :: "(dsearch list \<Rightarrow> dsearch list) \<Rightarrow> srv \<Rightarrow> srv" where
  "upd_searches f s = s\<lparr>s_misc := (s_misc s)\<lparr>m_searches := f (m_searches (s_misc s))\<rparr>\<rparr>"

abbreviation searches :: "srv \<Rightarrow> dsearch list" where "searches s \<equiv> m_searches (s_misc s)"

text \<open>The last message of a search goes to the user, or to the server that asked.\<close>

definition end_search :: "dsearch \<Rightarrow> srv \<Rightarrow> srv" where
  "end_search d s =
     (if ISUSER (ds_con d) s then send_cmd (ds_con d) MSG_SERVER_SEARCH_END [] s
      else send_cmd (ds_con d) MSG_SERVER_REMOTE_SEARCH_END (ds_id d) s)"

text \<open>Searches that have timed out are dropped on the way to the one that is looked for.\<close>

fun find_in :: "string \<Rightarrow> dsearch list \<Rightarrow> srv \<Rightarrow> dsearch option \<times> dsearch list \<times> srv" where
  "find_in sid [] s = (None, [], s)"
| "find_in sid (d # ds) s =
     (if ds_id d = sid then (Some d, d # ds, s)
      else if ds_timestamp d + Search_Timeout (s_cfg s) < s_time s then find_in sid ds (end_search d s)
      else (case find_in sid ds s of (r, ds', s') \<Rightarrow> (r, d # ds', s')))"

definition find_search :: "string \<Rightarrow> srv \<Rightarrow> dsearch option \<times> srv" where
  "find_search sid s = (case find_in sid (searches s) s of (r, ds, s) \<Rightarrow> (r, upd_searches (\<lambda>_. ds) s))"

definition remote_search_result :: "cid \<Rightarrow> nat \<Rightarrow> string \<Rightarrow> srv \<Rightarrow> srv" where
  "remote_search_result con tag pkt s =
     (if \<not> ISSERVER con s then s
      else
        let av = get_args 8 (Some pkt) in
        if length av \<noteq> 8 then s
        else case find_search (av ! 0) s of
          (None, s) \<Rightarrow> s
        | (Some d, s) \<Rightarrow>
            let q = [dquote] @ av ! 2 @ [dquote];
                data = '' '' @ av ! 3 @ '' '' @ av ! 4 @ '' '' @ av ! 5 @ '' '' @ av ! 6 @ '' '' @ av ! 7 in
            if ISUSER (ds_con d) s then
              (case hash_lookup (s_Users s) (av ! 1) of
                 None \<Rightarrow> s
               | Some user \<Rightarrow>
                   send_cmd (ds_con d) MSG_SERVER_SEARCH_RESULT (q @ data @ '' '' @ u_nick (usr s user) @ '' '' @
                     nat_dec (unat (u_ip (usr s user))) @ '' '' @ nat_dec (u_speed (usr s user))) s)
            else send_cmd (ds_con d) tag (av ! 0 @ '' '' @ av ! 1 @ '' '' @ q @ data) s)"

text \<open>The entry with this id is the first one; ids are compared as pointers are in C.\<close>

definition bump :: "dsearch \<Rightarrow> dsearch" where
  "bump d = d\<lparr>ds_count := ds_count d + 1\<rparr>"

fun upd_first :: "('a \<Rightarrow> bool) \<Rightarrow> ('a \<Rightarrow> 'a) \<Rightarrow> 'a list \<Rightarrow> 'a list" where
  "upd_first P f [] = []"
| "upd_first P f (x # xs) = (if P x then f x # xs else x # upd_first P f xs)"

fun drop_first :: "('a \<Rightarrow> bool) \<Rightarrow> 'a list \<Rightarrow> 'a list" where
  "drop_first P [] = []"
| "drop_first P (x # xs) = (if P x then xs else x # drop_first P xs)"

definition remote_search_end :: "cid \<Rightarrow> nat \<Rightarrow> string \<Rightarrow> srv \<Rightarrow> srv" where
  "remote_search_end con tag pkt s =
     (case find_search pkt s of
        (None, s) \<Rightarrow> s
      | (Some d, s) \<Rightarrow>
          if ds_count d + 1 = ds_numServers d then
            upd_searches (drop_first (\<lambda>e. ds_id e = pkt))
              (if ISUSER (ds_con d) s then send_cmd (ds_con d) MSG_SERVER_SEARCH_END [] s
               else send_cmd (ds_con d) tag (ds_id d) s)
          else upd_searches (upd_first (\<lambda>e. ds_id e = pkt) bump) s)"

text \<open>A connection ends: its own searches go, and the others need not wait for a server that is gone.\<close>

fun cancel_in :: "bool \<Rightarrow> cid \<Rightarrow> dsearch list \<Rightarrow> srv \<Rightarrow> dsearch list \<times> srv" where
  "cancel_in isServer con [] s = ([], s)"
| "cancel_in isServer con (d # ds) s =
     (let d = (if isServer then d\<lparr>ds_numServers := ds_numServers d - 1\<rparr> else d) in
      if ds_con d = con \<or> ds_numServers d \<le> ds_count d then
        cancel_in isServer con ds (if ds_con d \<noteq> con then end_search d s else s)
      else (case cancel_in isServer con ds s of (ds', s') \<Rightarrow> (d # ds', s')))"

definition cancel_search :: "cid \<Rightarrow> srv \<Rightarrow> srv" where
  "cancel_search con s =
     (case cancel_in (ISSERVER con s) con (searches s) s of (ds, s) \<Rightarrow> upd_searches (\<lambda>_. ds) s)"

text \<open>
  A reference to a shared file is given up (\<open>free_datum\<close>); the record goes with the last one.  When a user
  leaves, the table of the files he shares is freed.
\<close>

definition upd_misc :: "(misc \<Rightarrow> misc) \<Rightarrow> srv \<Rightarrow> srv" where
  "upd_misc f s = s\<lparr>s_misc := f (s_misc s)\<rparr>"

definition free_datum :: "fid \<Rightarrow> (fid \<rightharpoonup> datum) \<Rightarrow> (fid \<rightharpoonup> datum)" where
  "free_datum f D =
     (case D f of
        None \<Rightarrow> D
      | Some d \<Rightarrow>
          D(f := (if d_refcount d - 1 = 0 then None
                  else Some (d\<lparr>d_size := -1, d_user := None, d_refcount := d_refcount d - 1\<rparr>))))"

definition free_files :: "cid \<Rightarrow> srv \<Rightarrow> srv" where
  "free_files con s =
     (case c_files (cnx s con) of
        None \<Rightarrow> s
      | Some h \<Rightarrow> upd_misc (\<lambda>m. m\<lparr>m_datums := fold free_datum (free_hash h) (m_datums m)\<rparr>) s)"

lemmas [handler_defs] = remote_search_result_def remote_search_end_def

section \<open>The invariant of the members is kept\<close>

lemma same_core_searches [simp]:
  "same_core (upd_searches f s) r = same_core s r" "same_core (end_search d s) r = same_core s r"
  by (simp_all add: upd_searches_def end_search_def same_core_def)

lemma upd_searches_frame [simp]:
  "s_users (upd_searches f s) = s_users s" "s_chans (upd_searches f s) = s_chans s"
  "s_conns (upd_searches f s) = s_conns s" "s_Users (upd_searches f s) = s_Users s"
  "s_hotl (upd_searches f s) = s_hotl s" "s_Hotlist (upd_searches f s) = s_Hotlist s"
  "s_next_hot (upd_searches f s) = s_next_hot s" "s_Servers (upd_searches f s) = s_Servers s"
  "s_Server_Links (upd_searches f s) = s_Server_Links s" "s_cfg (upd_searches f s) = s_cfg s"
  "s_Clients (upd_searches f s) = s_Clients s" "s_out (upd_searches f s) = s_out s"
  "ISUSER c (upd_searches f s) = ISUSER c s" "ISSERVER c (upd_searches f s) = ISSERVER c s"
  "searches (upd_searches f s) = f (searches s)" "s_time (upd_searches f s) = s_time s"
  by (simp_all add: upd_searches_def ISUSER_def ISSERVER_def)

lemma upd_misc_frame [simp]:
  "s_users (upd_misc f s) = s_users s" "s_chans (upd_misc f s) = s_chans s" "s_conns (upd_misc f s) = s_conns s"
  "s_Users (upd_misc f s) = s_Users s" "s_Channels (upd_misc f s) = s_Channels s" "s_next (upd_misc f s) = s_next s"
  "s_hotl (upd_misc f s) = s_hotl s" "s_Hotlist (upd_misc f s) = s_Hotlist s"
  "s_next_hot (upd_misc f s) = s_next_hot s" "s_Servers (upd_misc f s) = s_Servers s"
  "s_misc (upd_misc f s) = f (s_misc s)" "s_cfg (upd_misc f s) = s_cfg s" "s_time (upd_misc f s) = s_time s"
  "s_out (upd_misc f s) = s_out s" "ISUSER d (upd_misc f s) = ISUSER d s" "ISSERVER d (upd_misc f s) = ISSERVER d s"
  by (simp_all add: upd_misc_def ISUSER_def ISSERVER_def)

lemma free_files_frame [simp]:
  "s_users (free_files c s) = s_users s" "s_chans (free_files c s) = s_chans s" "s_conns (free_files c s) = s_conns s"
  "s_Users (free_files c s) = s_Users s" "s_Channels (free_files c s) = s_Channels s" "s_next (free_files c s) = s_next s"
  "s_hotl (free_files c s) = s_hotl s" "s_Hotlist (free_files c s) = s_Hotlist s"
  "s_next_hot (free_files c s) = s_next_hot s" "s_Servers (free_files c s) = s_Servers s"
  "searches (free_files c s) = searches s" "s_out (free_files c s) = s_out s" "s_Clients (free_files c s) = s_Clients s"
  "m_Num_Clients (s_misc (free_files c s)) = m_Num_Clients (s_misc s)"
  by (simp_all add: upd_misc_def free_files_def split: option.split)

lemma same_core_find_in: "find_in sid ds s = (r, ds', s') \<Longrightarrow> same_core s' s"
proof (induction sid ds s arbitrary: r ds' s' rule: find_in.induct)
  case (2 sid d ds s)
  show ?case
  proof (cases "ds_id d \<noteq> sid \<and> ds_timestamp d + Search_Timeout (s_cfg s) < s_time s")
    case True
    then have "same_core s' (end_search d s)" using "2.IH"(1) "2.prems" by simp
    then show ?thesis by (simp add: same_core_def end_search_def split: if_splits)
  next
    case False
    then show ?thesis using "2.prems" "2.IH"(2) by (auto split: if_splits prod.splits)
  qed
qed simp

lemma same_core_find_search: "find_search sid s = (r, s') \<Longrightarrow> same_core s' s"
  by (auto simp: find_search_def dest: same_core_find_in split: prod.splits)

lemma wf_search_answers:
  assumes "wf s"
  shows "wf (remote_search_result con tag pkt s)" "wf (remote_search_end con tag pkt s)"
proof -
  have w: "wf t" if "find_search i s = (r, t)" for i r t
    using same_core_wf [OF same_core_find_search [OF that]] assms by simp
  have u: "wf_upto X (upd_searches f t) = wf_upto X t" for X f t by (rule same_core_wf) simp
  show "wf (remote_search_result con tag pkt s)"
    using assms w by (auto simp: remote_search_result_def Let_def split: prod.splits option.splits)
  show "wf (remote_search_end con tag pkt s)"
    using w u by (auto simp: remote_search_end_def split: prod.splits option.splits)
qed

section \<open>Every search ends once\<close>

definition ended :: "cid \<Rightarrow> frame list \<Rightarrow> nat" where
  "ended c fs = length (filter (\<lambda>(d, t, m). d = c \<and> (t = MSG_SERVER_SEARCH_END \<or> t = MSG_SERVER_REMOTE_SEARCH_END)) fs)"

definition pending :: "cid \<Rightarrow> dsearch list \<Rightarrow> nat" where
  "pending c ds = length (filter (\<lambda>d. ds_con d = c) ds)"

lemma ended_send [simp]:
  "ended c (s_out (send_cmd d t m s)) = ended c (s_out s) +
     (if d = c \<and> (t = MSG_SERVER_SEARCH_END \<or> t = MSG_SERVER_REMOTE_SEARCH_END) then 1 else 0)"
  by (simp add: ended_def send_cmd_def queue_data_def)

lemma ended_end_search [simp]:
  "ended c (s_out (end_search d s)) = ended c (s_out s) + (if ds_con d = c then 1 else 0)"
  by (simp add: end_search_def)

lemma pending_simps [simp]:
  "pending c [] = 0" "pending c (d # ds) = (if ds_con d = c then 1 else 0) + pending c ds"
  by (simp_all add: pending_def)

lemma end_search_frame [simp]:
  "searches (end_search d s) = searches s" "s_cfg (end_search d s) = s_cfg s" "s_time (end_search d s) = s_time s"
  "ISUSER c (end_search d s) = ISUSER c s"
  by (simp_all add: end_search_def)

lemma find_in_ends:
  "find_in sid ds s = (r, ds', s') \<Longrightarrow> ended c (s_out s') + pending c ds' = ended c (s_out s) + pending c ds"
proof (induction sid ds s arbitrary: r ds' s' rule: find_in.induct)
  case (2 sid d ds s)
  then show ?case by (auto split: if_splits prod.splits)
qed simp

text \<open>The entry that is found is the first one with its id in the list that is kept.\<close>

lemma find_in_first:
  "find_in sid ds s = (Some d, ds', s') \<Longrightarrow>
   pending c (drop_first (\<lambda>e. ds_id e = sid) ds') + (if ds_con d = c then 1 else 0) = pending c ds'"
proof (induction sid ds s arbitrary: ds' s' rule: find_in.induct)
  case (2 sid e ds s)
  consider "ds_id e = sid" | "ds_id e \<noteq> sid" "ds_timestamp e + Search_Timeout (s_cfg s) < s_time s"
    | "ds_id e \<noteq> sid" "\<not> ds_timestamp e + Search_Timeout (s_cfg s) < s_time s" by blast
  then show ?case
  proof cases
    case 1
    then show ?thesis using "2.prems" by auto
  next
    case 2
    then show ?thesis using "2.prems" "2.IH"(1) by simp
  next
    case 3
    then obtain es where "find_in sid ds s = (Some d, es, s')" "ds' = e # es"
      using "2.prems" by (auto split: prod.splits)
    then show ?thesis using "2.IH"(2) [OF 3(1,2)] 3(1) by simp
  qed
qed simp

lemma pending_bump [simp]: "pending c (upd_first P bump ds) = pending c ds"
  by (induction ds) (simp_all add: bump_def)

lemma cancel_in_ends:
  "cancel_in sv con ds s = (ds', s') \<Longrightarrow>
   (c \<noteq> con \<longrightarrow> ended c (s_out s') + pending c ds' = ended c (s_out s) + pending c ds) \<and>
   ended con (s_out s') = ended con (s_out s) \<and> pending con ds' = 0"
proof (induction sv con ds s arbitrary: ds' s' rule: cancel_in.induct)
  case (2 sv con d ds s)
  let ?d = "if sv then d\<lparr>ds_numServers := ds_numServers d - 1\<rparr> else d"
  have con: "ds_con ?d = ds_con d" by simp
  show ?case
  proof (cases "ds_con ?d = con \<or> ds_numServers ?d \<le> ds_count ?d")
    case True
    let ?s = "if ds_con ?d \<noteq> con then end_search ?d s else s"
    have "cancel_in sv con ds ?s = (ds', s')" using "2.prems" True by (simp add: Let_def)
    from "2.IH"(1) [OF refl True this] show ?thesis by (auto simp: con)
  next
    case False
    then obtain es where es: "cancel_in sv con ds s = (es, s')" "ds' = ?d # es"
      using "2.prems" by (auto simp: Let_def split: prod.splits)
    from "2.IH"(2) [OF refl False es(1)] show ?thesis using False unfolding es(2) by (simp add: con)
  qed
qed simp

definition waiting :: "cid \<Rightarrow> srv \<Rightarrow> nat" where
  "waiting c s = ended c (s_out s) + pending c (searches s)"

lemma find_search_waiting: "find_search i s = (r, t) \<Longrightarrow> waiting c t = waiting c s"
  using find_in_ends [of i "searches s" s] by (auto simp: find_search_def waiting_def split: prod.splits)

lemma find_search_first:
  "find_search i s = (Some d, t) \<Longrightarrow>
   pending c (drop_first (\<lambda>e. ds_id e = i) (searches t)) + (if ds_con d = c then 1 else 0) = pending c (searches t)"
  using find_in_first [of i "searches s" s d _ _ c] by (auto simp: find_search_def split: prod.splits)

lemma waiting_search_end: "waiting c (remote_search_end con MSG_SERVER_REMOTE_SEARCH_END pkt s) = waiting c s"
proof (cases "find_search pkt s")
  case (Pair r t)
  show ?thesis
  proof (cases r)
    case None
    then show ?thesis using find_search_waiting [OF Pair] by (simp add: remote_search_end_def Pair)
  next
    case (Some d)
    note F = find_search_first [of pkt s d t c] find_search_waiting [OF Pair, of c]
    show ?thesis
      using F Pair Some by (auto simp: remote_search_end_def waiting_def)
  qed
qed

lemma waiting_cancel:
  "c \<noteq> con \<longrightarrow> waiting c (cancel_search con s) = waiting c s"
  "ended con (s_out (cancel_search con s)) = ended con (s_out s)"
  "pending con (searches (cancel_search con s)) = 0"
  using cancel_in_ends [of "ISSERVER con s" con "searches s" s]
  by (auto simp: cancel_search_def waiting_def split: prod.splits)


definition sample_search :: srv where
  "sample_search = upd_searches (\<lambda>_. [\<lparr>ds_con = 1, ds_nick = ''bob'', ds_id = ''AB'', ds_count = 0,
     ds_numServers = 1, ds_timestamp = 1000\<rparr>]) sample"


end
