(* ===== verification/Connections.thy ===== *)
theory Connections
  imports Hotlists Links Searches Leave
begin

text \<open>
  The end of a connection (\<open>src/remove_connection.c\<close>).  Sockets and buffers are freed with it; \<open>free_server_name\<close>, which compares the address of the host name with those in
  the cache of server names, never finds it there, since \<open>con->host\<close> is a copy of its own.
\<close>

section \<open>The operations\<close>

definition remove_user :: "cid \<Rightarrow> srv \<Rightarrow> srv" where
  "remove_user con s =
     (let s = users_remove (u_nick (usr s (c_user (cnx s con)))) s;
          s = fold (stop_waiting con) (c_hotlist (cnx s con)) s;
          s = free_files con s
      in upd_conn con (\<lambda>C. C\<lparr>c_hotlist := [], c_ignore := [], c_files := None\<rparr>) s)"

definition server_split :: "cid \<Rightarrow> uid \<Rightarrow> srv \<Rightarrow> srv" where
  "server_split con user s =
     (if user_con s user = con
      then users_remove (u_nick (usr s user)) (pass_message_args (Some con) MSG_CLIENT_QUIT (u_nick (usr s user)) s)
      else s)"

definition remove_server :: "cid \<Rightarrow> srv \<Rightarrow> srv" where
  "remove_server con s =
     (let host = c_host (cnx s con);
          s = notify_mods SERVERLOG_MODE (''Server '' @ host @ '' has quit'') s;
          s = pass_message_args (Some con) MSG_SERVER_QUIT ('':'' @ Server_Name (s_cfg s) @ '' '' @ host) s;
          s = remove_links host s;
          s = s\<lparr>s_Servers := list_delete (s_Servers s) con\<rparr>
      in hash_foreach (s_Users s) (server_split con) s)"

definition drop_connection :: "cid \<Rightarrow> srv \<Rightarrow> srv" where
  "drop_connection con s =
     s\<lparr>s_conns := (s_conns s)(con := None),
       s_Clients := map (\<lambda>c. if c = Some con then None else c) (s_Clients s),
       s_misc := (s_misc s)\<lparr>m_Num_Clients := m_Num_Clients (s_misc s) - 1\<rparr>\<rparr>"

definition remove_connection :: "cid \<Rightarrow> srv \<Rightarrow> srv" where
  "remove_connection con s =
     (let s = cancel_search con s
      in drop_connection con
           (if ISUSER con s then remove_user con s else if ISSERVER con s then remove_server con s else s))"

section \<open>What the end of a user leaves alone\<close>

definition same_hots :: "srv \<Rightarrow> srv \<Rightarrow> bool" where
  "same_hots s t \<longleftrightarrow> s_hotl s = s_hotl t \<and> s_Hotlist s = s_Hotlist t \<and> s_next_hot s = s_next_hot t \<and>
     s_conns s = s_conns t \<and> s_Servers s = s_Servers t \<and> s_misc s = s_misc t \<and> s_Clients s = s_Clients t"

lemma same_hots_refl [simp]: "same_hots s s"
  by (simp add: same_hots_def)

lemma same_hots_trans: "same_hots s t \<Longrightarrow> same_hots t r \<Longrightarrow> same_hots s r"
  by (simp add: same_hots_def)

lemma same_hots_step [simp]:
  "same_hots (emit fs s) r = same_hots s r" "same_hots (pass_message_args x t m s) r = same_hots s r"
  "same_hots (upd_user u f s) r = same_hots s r" "same_hots (upd_chan c g s) r = same_hots s r"
  "same_hots (upd_db d h s) r = same_hots s r" "same_hots (s\<lparr>s_chans := x1\<rparr>) r = same_hots s r"
  "same_hots (s\<lparr>s_Channels := x2\<rparr>) r = same_hots s r" "same_hots (s\<lparr>s_Users := x3\<rparr>) r = same_hots s r"
  "same_hots (s\<lparr>s_users := x4\<rparr>) r = same_hots s r"
  "same_hots (s\<lparr>s_Num_Files := a, s_Num_Gigs := b\<rparr>) r = same_hots s r"
  "same_hots (s\<lparr>s_Num_Files := a, s_Num_Gigs := b, s_Local_Files := c'\<rparr>) r = same_hots s r"
  by (simp_all add: same_hots_def)

lemma same_hots_fold: "(\<And>x s. same_hots (f x s) s) \<Longrightarrow> same_hots (fold f xs s) s"
proof (induction xs arbitrary: s)
  case (Cons x xs)
  then show ?case using same_hots_trans by (simp, blast)
qed simp

lemma same_hots_free_channel: "same_hots (free_channel c s) s"
proof -
  have "same_hots (fold (uninvite c) us s) s" for us by (rule same_hots_fold) (simp add: uninvite_def)
  then show ?thesis by (simp add: free_channel_def Let_def)
qed

lemma same_hots_part_channel: "same_hots (part_channel c u s) s"
proof -
  have "same_hots (channels_remove n t) t" for n t
    using same_hots_trans [OF same_hots_free_channel] by (auto simp: channels_remove_def split: prod.split option.split)
  then have "same_hots (channels_remove n (upd_chan c f s)) s" for n f
    using same_hots_trans [of _ "upd_chan c f s" s] by simp
  then show ?thesis by (simp add: part_channel_def Let_def)
qed

lemma same_hots_free_user: "same_hots (free_user u s) s"
proof -
  define a where "a = announce_quit u s"
  have 1: "same_hots a s" by (simp add: a_def announce_quit_def)
  have 2: "same_hots (leave_all u a) a"
    unfolding leave_all_def by (rule same_hots_fold) (rule same_hots_part_channel)
  have 3: "same_hots (drop_invites u t) t" for t
    unfolding drop_invites_def by (rule same_hots_fold) (simp add: drop_invite_def)
  have "same_hots (free_user u s) (drop_invites u (leave_all u a))"
    by (simp add: free_user_def a_def delete_user_def stamp_last_seen_def announce_signoff_def drop_shares_def
        split: option.split)
  then show ?thesis using 1 2 3 same_hots_trans by blast
qed

lemma same_hots_users_remove: "same_hots (users_remove n s) s"
  using same_hots_trans [OF same_hots_free_user] by (auto simp: users_remove_def split: prod.split option.split)

lemma same_hots_hot: "same_hots s t \<Longrightarrow> hot_upto X s = hot_upto X t"
  by (rule hot_upto_cong) (simp_all add: same_hots_def)

section \<open>Nothing refers to a connection that is gone\<close>

text \<open>Users are behind connections that have logged in, and only users have hotlists.\<close>

definition conns_ok :: "srv \<Rightarrow> bool" where
  "conns_ok s \<longleftrightarrow>
     (\<forall>u U. s_users s u = Some U \<longrightarrow> \<not> ISUNKNOWN (u_con U) s) \<and>
     (\<forall>d K. s_conns s d = Some K \<and> c_class K \<noteq> CLASS_USER \<longrightarrow> c_hotlist K = [])"

lemma class_cases: "ISUNKNOWN d s \<or> ISUSER d s \<or> ISSERVER d s"
  by (cases "c_class (cnx s d)") (simp_all add: ISUNKNOWN_def ISUSER_def ISSERVER_def)

lemma wf_drop_connection:
  assumes w: "wf_upto X s" and no: "\<And>u U. s_users s u = Some U \<Longrightarrow> u_con U \<noteq> con"
  shows "wf_upto X (drop_connection con s)"
proof (rule wf_uptoI)
  let ?t = "drop_connection con s"
  show "links_ok X ?t" "chan_table_ok ?t" "user_table_ok X ?t"
    using w by (simp_all add: wf_defs drop_connection_def)
  note CO = conn_okD [OF wf_uptoD(4) [OF w]]
  show "conn_ok X ?t"
  proof (rule conn_okI)
    show "\<exists>U. s_users ?t (c_user K) = Some U \<and> u_con U = d \<and> u_local U"
      if "s_conns ?t d = Some K" "c_class K = CLASS_USER" "(c_user K, e) \<notin> X" for d K e
      using that CO(1) [of d K e] by (auto simp: drop_connection_def split: if_splits)
    show "u_con U \<in> dom (s_conns ?t) \<and> (ISUSER (u_con U) ?t \<longrightarrow> c_user (cnx ?t (u_con U)) = u)"
      if u: "s_users ?t u = Some U" for u U
      using CO(2,3) [of u U] no [of u U] u by (auto simp: drop_connection_def ISUSER_def)
  qed
qed

text \<open>A hotlist is left by all its entries.\<close>

lemma hot_fold_stop:
  assumes "hot_upto X s" "con \<in> X" "distinct hs" "\<And>h. h \<in> set hs \<Longrightarrow> waits s h con"
  shows "hot_upto X (fold (stop_waiting con) hs s)"
    and "waits (fold (stop_waiting con) hs s) g d \<longleftrightarrow> waits s g d \<and> (d \<noteq> con \<or> g \<notin> set hs)"
    and "s_conns (fold (stop_waiting con) hs s) = s_conns s"
  using assms(1,3,4)
proof (induction hs arbitrary: s)
  case (Cons h hs)
  { case 1
    then obtain E where E: "s_hotl s h = Some E" by (auto simp: waits_def)
    note S = hot_stop_waiting [OF 1(1) assms(2) E]
    show ?case using 1 S by (auto intro!: Cons.IH(1)) }
  { case 2
    then obtain E where E: "s_hotl s h = Some E" by (auto simp: waits_def)
    note S = hot_stop_waiting [OF 2(1) assms(2) E]
    have "waits (fold (stop_waiting con) hs (stop_waiting con h s)) g d \<longleftrightarrow>
        waits (stop_waiting con h s) g d \<and> (d \<noteq> con \<or> g \<notin> set hs)"
      by (rule Cons.IH(2)) (use 2 S in auto)
    then show ?case by (auto simp: S(2)) }
  { case 3
    then obtain E where E: "s_hotl s h = Some E" by (auto simp: waits_def)
    note S = hot_stop_waiting [OF 3(1) assms(2) E]
    have "s_conns (fold (stop_waiting con) hs (stop_waiting con h s)) = s_conns (stop_waiting con h s)"
      by (rule Cons.IH(3)) (use 3 S in auto)
    then show ?case by (simp add: S(3)) }
qed simp_all

lemma stop_waiting_frame [simp]:
  "s_users (stop_waiting con h s) = s_users s" "s_misc (stop_waiting con h s) = s_misc s"
  "s_Servers (stop_waiting con h s) = s_Servers s" "s_conns (stop_waiting con h s) = s_conns s"
  "s_Clients (stop_waiting con h s) = s_Clients s"
  by (simp_all add: stop_waiting_def Let_def hot_remove_def free_hotlist_def split: prod.split option.split)

lemma fold_stop_frame [simp]:
  "s_users (fold (stop_waiting con) hs s) = s_users s" "s_misc (fold (stop_waiting con) hs s) = s_misc s"
  "s_Servers (fold (stop_waiting con) hs s) = s_Servers s" "s_conns (fold (stop_waiting con) hs s) = s_conns s"
  "s_Clients (fold (stop_waiting con) hs s) = s_Clients s"
  "wf_upto X (fold (stop_waiting con) hs s) = wf_upto X s"
  by (induction hs arbitrary: s) simp_all

lemma users_remove_core:
  assumes "hash_lookup (s_Users s) n = Some u" "v \<noteq> u"
  shows "map_option user_core (s_users (users_remove n s) v) = map_option user_core (s_users s v)"
proof -
  have "snd (hash_remove (s_Users s) n) = Some u" using assms(1) by (simp add: hash_remove_result)
  then obtain h where run: "users_remove n s = free_user u (s\<lparr>s_Users := h\<rparr>)"
    by (cases "hash_remove (s_Users s) n") (simp add: users_remove_def)
  let ?a = "announce_quit u (s\<lparr>s_Users := h\<rparr>)"
  have "s_users ?a = s_users s" by (simp add: announce_quit_def)
  then have "map_option user_core (s_users (leave_all u ?a) v) = map_option user_core (s_users s v)"
    using same_users_leave_all [of ?a u] by (simp add: same_users_def)
  then show ?thesis using assms(2) by (simp add: run free_user_def delete_user_def drop_invites_def)
qed

lemma users_remove_con:
  assumes "hash_lookup (s_Users s) n = Some u" "s_users (users_remove n s) v = Some V"
  shows "v \<noteq> u" "\<exists>W. s_users s v = Some W \<and> u_con W = u_con V \<and> u_nick W = u_nick V"
proof -
  show v: "v \<noteq> u" using users_remove_users [OF assms(1), of u] assms(2) by auto
  have "map_option user_core (s_users s v) = Some (user_core V)"
    using users_remove_core [OF assms(1) v] assms(2) by simp
  then obtain W where W: "s_users s v = Some W" "user_core W = user_core V" by auto
  then have "u_con W = u_con V" "u_nick W = u_nick V" by (metis user_core_sel(3), metis user_core_sel(2))
  then show "\<exists>W. s_users s v = Some W \<and> u_con W = u_con V \<and> u_nick W = u_nick V" using W(1) by blast
qed

lemma wf_user_named: "wf s \<Longrightarrow> s_users s u = Some U \<Longrightarrow> hash_lookup (s_Users s) (u_nick U) = Some u"
  using user_table_okD(2) [OF wf_uptoD(3), of "{}" s u 0 U] by (simp add: hash_lookup_stack)

subsection \<open>A user\<close>

lemma remove_user_effect:
  assumes w: "wf s" and h: "hot_ok s" and con: "s_conns s con = Some K" "c_class K = CLASS_USER"
  shows "wf_upto ({c_user K} \<times> UNIV) (remove_user con s)" "s_users (remove_user con s) (c_user K) = None"
    "hot_ok (remove_user con s)" "\<not> waits (remove_user con s) g con"
    "s_conns (remove_user con s) = (s_conns s)(con \<mapsto> K\<lparr>c_hotlist := [], c_ignore := [], c_files := None\<rparr>)"
    "searches (remove_user con s) = searches s" "s_Servers (remove_user con s) = s_Servers s"
    "s_users (remove_user con s) v = Some V \<Longrightarrow> \<exists>W. s_users s v = Some W \<and> u_con W = u_con V \<and> v \<noteq> c_user K"
proof -
  let ?u = "c_user K" and ?f = "\<lambda>C. C\<lparr>c_hotlist := [], c_ignore := [], c_files := None\<rparr>"
  obtain U where U: "s_users s ?u = Some U"
    using conn_okD(1) [OF wf_uptoD(4) [OF w] con, of 0] by auto
  define r where "r = users_remove (u_nick U) s"
  have l: "hash_lookup (s_Users s) (u_nick U) = Some ?u" by (rule wf_user_named [OF w U])
  have sh: "same_hots r s" unfolding r_def by (rule same_hots_users_remove)
  then have c: "s_conns r = s_conns s" by (simp add: same_hots_def)
  define t0 where "t0 = fold (stop_waiting con) (c_hotlist K) r"
  define t where "t = free_files con t0"
  have run: "remove_user con s = upd_conn con ?f t"
    using con U c by (simp add: remove_user_def Let_def r_def t0_def t_def)
  have hr: "hot_ok r" using same_hots_hot [OF sh] h by simp
  have hr': "hot_upto {con} r" by (rule hot_uptoI) (use hot_uptoD [OF hr] in auto)
  have K: "distinct (c_hotlist K)" "waits r g con" if "g \<in> set (c_hotlist K)" for g
    using hot_uptoD(5) [OF h con(1)] hot_uptoD(6) [OF hr, of con g] that con c by (auto simp: lists_def)
  have Kd: "distinct (c_hotlist K)" by (rule hot_uptoD(5) [OF h con(1)])
  have F0: "hot_upto {con} t0" "waits t0 g d \<longleftrightarrow> waits r g d \<and> (d \<noteq> con \<or> g \<notin> set (c_hotlist K))" "s_conns t0 = s_conns r" for g d
    unfolding t0_def using hot_fold_stop [OF hr' insertI1 Kd] K(2) by blast+
  then have F: "hot_upto {con} t" "waits t g d \<longleftrightarrow> waits r g d \<and> (d \<noteq> con \<or> g \<notin> set (c_hotlist K))" "s_conns t = s_conns r" for g d
    using hot_upto_cong [of t t0 "{con}"] by (simp_all add: t_def waits_def)
  have lw: "lists r con g \<longleftrightarrow> g \<in> set (c_hotlist K)" for g using con c by (simp add: lists_def)
  have nw: "\<not> waits t g con" for g
    using hot_uptoD(6) [OF hr, of con g] by (simp add: F(2) lw)
  show "\<not> waits (remove_user con s) g con" using nw by (simp add: run waits_def)
  show "hot_ok (remove_user con s)"
  proof (rule hot_upto_drop)
    show "lists (remove_user con s) con g \<longleftrightarrow> waits (remove_user con s) g con" for g
      using nw [of g] con by (simp add: run lists_def waits_def F(3) c)
    show "hot_upto {con} (remove_user con s)"
    proof (rule hot_uptoI)
      note T = hot_uptoD [OF F(1)]
      show "table_ok (s_Hotlist (remove_user con s)) (s_hotl (remove_user con s)) h_nick" using T(1) by (simp add: run)
      show "g < s_next_hot (remove_user con s) \<and> distinct (h_users E) \<and> h_users E \<noteq> []"
        if "s_hotl (remove_user con s) g = Some E" for g E
        using that T(2-4) by (simp add: run)
      show "distinct (c_hotlist C)" if "s_conns (remove_user con s) d = Some C" for d C
        using that T(5) by (auto simp: run split: if_splits)
      show "lists (remove_user con s) d g \<longleftrightarrow> waits (remove_user con s) g d" if "d \<notin> {con}" for d g
        using T(6) [OF that, of g] that by (simp add: run lists_def waits_def)
    qed
  qed
  have tu: "s_users t = s_users r" "searches t = searches r" "s_Servers t = s_Servers r" "s_conns t = s_conns s"
    by (simp_all add: t_def t0_def c)
  have "wf_upto ({?u} \<times> UNIV) r" unfolding r_def by (rule wf_upto_users_remove [OF w l])
  then have "wf_upto ({?u} \<times> UNIV) t0" by (simp add: t0_def)
  then have "wf_upto ({?u} \<times> UNIV) t" using wf_cong [of t t0] by (simp add: t_def)
  then show "wf_upto ({?u} \<times> UNIV) (remove_user con s)" unfolding run by (rule wf_upd_conn) simp_all
  show "s_users (remove_user con s) ?u = None"
    using users_remove_users [OF l, of ?u] by (simp add: run tu r_def)
  show "s_conns (remove_user con s) = (s_conns s)(con \<mapsto> ?f K)" using con by (simp add: run tu)
  show "searches (remove_user con s) = searches s" "s_Servers (remove_user con s) = s_Servers s"
    using sh by (simp_all add: run tu same_hots_def)
  show "\<exists>W. s_users s v = Some W \<and> u_con W = u_con V \<and> v \<noteq> ?u" if "s_users (remove_user con s) v = Some V"
    using users_remove_con [OF l, of v V] that by (auto simp: run tu r_def)
qed

subsection \<open>A server\<close>

lemma user_table: "wf s \<Longrightarrow> table_ok (s_Users s) (s_users s) u_nick"
  using user_table_okD [OF wf_uptoD(3)] by (intro table_okI) auto

lemma server_split_fold:
  assumes "wf s" "distinct us" "set us \<subseteq> dom (s_users s)" "ISSERVER con s"
  shows "wf (fold (server_split con) us s)" "same_hots (fold (server_split con) us s) s"
    "s_users (fold (server_split con) us s) v = Some V \<Longrightarrow>
       \<exists>W. s_users s v = Some W \<and> u_con W = u_con V \<and> \<not> (v \<in> set us \<and> u_con V = con)"
  using assms
proof (induction us arbitrary: s)
  case (Cons u us)
  have step: "wf (server_split con u s) \<and> same_hots (server_split con u s) s \<and> set us \<subseteq> dom (s_users (server_split con u s)) \<and>
      (\<forall>v V. s_users (server_split con u s) v = Some V \<longrightarrow> (\<exists>W. s_users s v = Some W \<and> u_con W = u_con V \<and> \<not> (v = u \<and> u_con V = con)))"
    if A: "wf s" "distinct (u # us)" "set (u # us) \<subseteq> dom (s_users s)" "ISSERVER con s" for s
  proof -
    obtain U where U: "s_users s u = Some U" using A(3) by auto
    show ?thesis
    proof (cases "u_con U = con")
      case False
      then have "(server_split con u s) = s" using U by (simp add: server_split_def)
      then show ?thesis using A False U by auto
    next
      case True
      let ?p = "pass_message_args (Some con) MSG_CLIENT_QUIT (u_nick U) s"
      have run: "(server_split con u s) = users_remove (u_nick U) ?p" using True U by (simp add: server_split_def)
      have l: "hash_lookup (s_Users ?p) (u_nick U) = Some u" using wf_user_named [OF A(1) U] by simp
      have nc: "c_user C \<noteq> u" if "s_conns ?p d = Some C" "c_class C = CLASS_USER" for d C
      proof
        assume "c_user C = u"
        then have "d = con" using conn_okD(1) [OF wf_uptoD(4) [OF A(1)], of d C 0] that U True by auto
        then show False using that A(4) by (simp add: ISSERVER_def)
      qed
      have 1: "wf (server_split con u s)" unfolding run by (rule wf_users_remove [OF _ l nc]) (use A(1) in simp_all)
      have 2: "same_hots (server_split con u s) s"
        unfolding run using same_hots_trans [OF same_hots_users_remove] by simp
      have 3: "set us \<subseteq> dom (s_users (server_split con u s))"
      proof
        fix v assume v: "v \<in> set us"
        then have "v \<noteq> u" "s_users s v \<noteq> None" using A(2,3) by auto
        then have "s_users (server_split con u s) v \<noteq> None" using users_remove_users [OF l, of v] by (simp add: run)
        then show "v \<in> dom (s_users (server_split con u s))" by blast
      qed
      have 4: "\<exists>W. s_users s v = Some W \<and> u_con W = u_con V \<and> v \<noteq> u" if "s_users (server_split con u s) v = Some V" for v V
        using users_remove_con [OF l, of v V] that by (auto simp: run)
      show ?thesis using 1 2 3 4 by blast
    qed
  qed
  have sv: "ISSERVER con (server_split con u s)" if "same_hots (server_split con u s) s" "ISSERVER con s" for s using that by (simp add: same_hots_def ISSERVER_def)
  have go: "wf (server_split con u s)" "same_hots (server_split con u s) s" "distinct us" "set us \<subseteq> dom (s_users (server_split con u s))" "ISSERVER con (server_split con u s)"
    if A: "wf s" "distinct (u # us)" "set (u # us) \<subseteq> dom (s_users s)" "ISSERVER con s" for s
    using step [OF A] sv A(2,4) by auto
  { case 1 show ?case using Cons.IH(1) [OF go(1,3,4,5) [OF 1]] by simp }
  { case 2 show ?case using same_hots_trans [OF Cons.IH(2) [OF go(1,3,4,5) [OF 2]] go(2) [OF 2]] by simp }
  { case 3
    have "s_users (fold (server_split con) us (server_split con u s)) v = Some V" using 3(1) by simp
    from Cons.IH(3) [OF this go(1,3,4,5) [OF 3(2-5)]]
    obtain W where W: "s_users (server_split con u s) v = Some W" "u_con W = u_con V" "\<not> (v \<in> set us \<and> u_con V = con)" by blast
    then obtain X where "s_users s v = Some X" "u_con X = u_con W" "\<not> (v = u \<and> u_con W = con)"
      using step [OF 3(2-5)] by blast
    then show ?case using W by auto }
qed auto

subsection \<open>Any connection\<close>

lemma emit_emit [simp]: "emit gs (emit fs s) = emit (fs @ gs) s"
  by (simp add: emit_def)

lemma end_search_emit: "\<exists>fs. end_search d s = emit fs s"
  by (auto simp: end_search_def send_cmd_def queue_data_def)

lemma emit_if_not: "\<exists>fs. t = emit fs s \<Longrightarrow> \<exists>fs. (if b then t else s) = emit fs s"
proof (cases b)
  case False
  have "s = emit [] s" by (simp add: emit_def)
  then show ?thesis using False by (metis (full_types))
qed simp

lemma cancel_in_emit: "cancel_in sv con ds s = (ds', t) \<Longrightarrow> \<exists>fs. t = emit fs s"
proof (induction sv con ds s arbitrary: ds' t rule: cancel_in.induct)
  case (1 sv con s)
  have "t = emit [] s" using 1 by (simp add: emit_def)
  then show ?case by blast
next
  case (2 sv con d ds s)
  let ?d = "if sv then d\<lparr>ds_numServers := ds_numServers d - 1\<rparr> else d"
  show ?case
  proof (cases "ds_con ?d = con \<or> ds_numServers ?d \<le> ds_count ?d")
    case True
    let ?s = "if ds_con ?d \<noteq> con then end_search ?d s else s"
    have "cancel_in sv con ds ?s = (ds', t)" using "2.prems" True by (simp add: Let_def)
    from "2.IH"(1) [OF refl True this] obtain fs where t: "t = emit fs ?s" by blast
    obtain gs where g: "?s = emit gs s" using emit_if_not [OF end_search_emit] by blast
    have "t = emit (gs @ fs) s" unfolding t g by (rule emit_emit)
    then show ?thesis by blast
  next
    case False
    then obtain r where r: "cancel_in sv con ds s = (r, t)" using "2.prems" by (auto simp: Let_def split: prod.splits)
    show ?thesis by (rule "2.IH"(2) [OF refl False r])
  qed
qed

lemma cancel_search_run: "\<exists>fs ds. cancel_search con s = upd_searches (\<lambda>_. ds) (emit fs s)"
proof -
  obtain ds t where r: "cancel_in (ISSERVER con s) con (searches s) s = (ds, t)" by (cases "cancel_in (ISSERVER con s) con (searches s) s")
  obtain fs where "t = emit fs s" using cancel_in_emit [OF r] by blast
  then have "cancel_search con s = upd_searches (\<lambda>_. ds) (emit fs s)" by (simp add: cancel_search_def r)
  then show ?thesis by blast
qed

lemma cancel_frame:
  "s_hotl (cancel_search con s) = s_hotl s" "s_Hotlist (cancel_search con s) = s_Hotlist s"
  "s_next_hot (cancel_search con s) = s_next_hot s" "s_conns (cancel_search con s) = s_conns s"
  "s_users (cancel_search con s) = s_users s" "same_core (cancel_search con s) s"
  "s_Servers (cancel_search con s) = s_Servers s"
  using cancel_search_run [of con s] by auto

lemma list_delete_subset: "set (list_delete xs d) \<subseteq> set xs"
  by (induction xs) auto

lemma hot_drop_connection:
  assumes h: "hot_ok r" and con: "s_conns r con = Some K" "c_hotlist K = []"
  shows "hot_ok (drop_connection con r)"
proof (rule hot_uptoI)
  let ?t = "drop_connection con r"
  note H = hot_uptoD [OF h]
  show "table_ok (s_Hotlist ?t) (s_hotl ?t) h_nick" using H(1) by (simp add: drop_connection_def)
  show "g < s_next_hot ?t \<and> distinct (h_users E) \<and> h_users E \<noteq> []" if "s_hotl ?t g = Some E" for g E
    using that H(2-4) by (simp add: drop_connection_def)
  show "distinct (c_hotlist C)" if "s_conns ?t d = Some C" for d C
    using that H(5) by (auto simp: drop_connection_def split: if_splits)
  show "lists ?t d g \<longleftrightarrow> waits ?t g d" for d g
    using H(6) [of d g] con by (cases "d = con") (simp_all add: drop_connection_def lists_def waits_def)
qed

text \<open>The state before the last step, for each class.\<close>

definition cleared :: "cid \<Rightarrow> srv \<Rightarrow> srv \<Rightarrow> bool" where
  "cleared con s r \<longleftrightarrow>
     wf (drop_connection con r) \<and> hot_ok r \<and>
     (\<exists>K. s_conns r = (s_conns s)(con \<mapsto> K) \<and> c_hotlist K = []) \<and>
     (\<forall>v V. s_users r v = Some V \<longrightarrow> u_con V \<noteq> con \<and> (\<exists>W. s_users s v = Some W \<and> u_con W = u_con V)) \<and>
     (ISSERVER con s \<longrightarrow> con \<notin> set (s_Servers r))"

lemma cleared_user:
  assumes w: "wf s" and h: "hot_ok s" and K: "s_conns s con = Some K" "c_class K = CLASS_USER"
  shows "cleared con s (remove_user con s)"
proof -
  let ?r = "remove_user con s"
  note R = remove_user_effect [OF w h K] and CO = conn_okD [OF wf_uptoD(4) [OF w]]
  have users: "u_con V \<noteq> con \<and> (\<exists>W. s_users s v = Some W \<and> u_con W = u_con V)" if V: "s_users ?r v = Some V" for v V
  proof -
    obtain W where W: "s_users s v = Some W" "u_con W = u_con V" "v \<noteq> c_user K" using R(8) [OF V] by blast
    have "u_con W \<noteq> con" using CO(3) [OF W(1)] W(3) K by (auto simp: ISUSER_def)
    then show ?thesis using W by auto
  qed
  have "wf (drop_connection con ?r)"
  proof (rule wf_user_gone [of "c_user K"])
    show "wf_upto ({c_user K} \<times> UNIV) (drop_connection con ?r)"
      by (rule wf_drop_connection [OF R(1)]) (use users in blast)
    show "s_users (drop_connection con ?r) (c_user K) = None" using R(2) by (simp add: drop_connection_def)
    show "c_user B \<noteq> c_user K" if B: "s_conns (drop_connection con ?r) d = Some B" "c_class B = CLASS_USER" for d B
    proof
      assume e: "c_user B = c_user K"
      have d: "d \<noteq> con" "s_conns s d = Some B" using B(1) by (auto simp: drop_connection_def R(5) split: if_splits)
      have "\<exists>U. s_users s (c_user B) = Some U \<and> u_con U = d" using CO(1) [OF d(2) B(2), of 0] by auto
      moreover have "\<exists>U. s_users s (c_user K) = Some U \<and> u_con U = con" using CO(1) [OF K, of 0] by auto
      ultimately show False using d(1) e by auto
    qed
  qed
  moreover have "\<not> ISSERVER con s" using K by (simp add: ISSERVER_def)
  ultimately show ?thesis using R(3) users unfolding cleared_def R(5) by auto
qed

lemma cleared_server:
  assumes w: "wf s" and h: "hot_ok s" and K: "s_conns s con = Some K" "c_class K = CLASS_SERVER" "c_hotlist K = []"
    and d: "distinct (s_Servers s)"
  shows "cleared con s (remove_server con s)"
proof -
  define p where "p = remove_links (c_host (cnx s con)) (pass_message_args (Some con) MSG_SERVER_QUIT
      ('':'' @ Server_Name (s_cfg s) @ '' '' @ c_host (cnx s con))
      (notify_mods SERVERLOG_MODE (''Server '' @ c_host (cnx s con) @ '' has quit'') s))"
  define q where "q = p\<lparr>s_Servers := list_delete (s_Servers p) con\<rparr>"
  let ?us = "free_hash (s_Users q)" and ?r = "remove_server con s"
  have qs: "same_core q s" "s_hotl q = s_hotl s" "s_Hotlist q = s_Hotlist s" "s_next_hot q = s_next_hot s"
    "s_Servers q = list_delete (s_Servers s) con"
    by (simp_all add: q_def p_def same_core_def remove_links_def)
  then have qc: "s_conns q = s_conns s" "s_users q = s_users s" "s_Users q = s_Users s" by (simp_all add: same_core_def)
  have r: "?r = fold (server_split con) ?us q"
    using qc(3) by (simp add: remove_server_def Let_def q_def p_def hash_foreach_values)
  have qw: "wf q" using same_core_wf [OF qs(1)] w by simp
  have qh: "hot_ok q" using hot_upto_cong [OF qs(2-4) qc(1)] h by simp
  note T = user_table [OF qw]
  have D: "distinct ?us" "set ?us = dom (s_users q)" by (rule table_ok_distinct [OF T]) (rule table_ok_values [OF T])
  have Dq: "set ?us \<subseteq> dom (s_users q)" using D(2) by simp
  have S: "ISSERVER con q" using K by (simp add: ISSERVER_def qc)
  note F = server_split_fold [OF qw D(1) Dq S, folded r]
  have users: "u_con V \<noteq> con \<and> (\<exists>W. s_users s v = Some W \<and> u_con W = u_con V)" if V: "s_users ?r v = Some V" for v V
    using F(3) [OF V] D(2) qc(2) by auto
  have "wf (drop_connection con ?r)" by (rule wf_drop_connection [OF F(1)]) (use users in blast)
  moreover have "hot_ok ?r" using same_hots_hot [OF F(2)] qh by simp
  moreover have "s_conns ?r = (s_conns s)(con \<mapsto> K)" "s_Servers ?r = list_delete (s_Servers s) con"
    using F(2) qs(5) K(1) by (auto simp: same_hots_def qc)
  ultimately show ?thesis using users K(3) d unfolding cleared_def by auto
qed

lemma cleared_unknown:
  assumes w: "wf s" and h: "hot_ok s" and K: "s_conns s con = Some K" "c_class K = CLASS_UNKNOWN" "c_hotlist K = []"
    and no: "\<And>v V. s_users s v = Some V \<Longrightarrow> u_con V \<noteq> con"
  shows "cleared con s s"
proof -
  have "s_conns s = (s_conns s)(con \<mapsto> K)" using K(1) by auto
  then have "\<exists>K. s_conns s = (s_conns s)(con \<mapsto> K) \<and> c_hotlist K = []" using K(3) by blast
  moreover have "wf (drop_connection con s)" by (rule wf_drop_connection [OF w no])
  ultimately show ?thesis using h K(1,2) no by (simp add: cleared_def ISSERVER_def)
qed



end
