(* ===== verification/Buffers.thy ===== *)
theory Buffers
  imports Prelude
begin

text \<open>
  Output buffers (\<open>src/buffer.c\<close>).  The data that is queued for a connection is a chain of blocks of
  memory; a \<open>write\<close> takes bytes from the first one.  The promise is that of a queue of bytes.  The chain
  is a list, \<open>datasize\<close> is the length of \<open>bf_data\<close>.  The compression of the stream to a server is done
  by zlib and is not modelled.
\<close>

section \<open>The operations\<close>

record buffer =
  bf_data :: string
  bf_max :: nat
  bf_consumed :: nat

abbreviation BUFFER_SIZE :: nat where "BUFFER_SIZE \<equiv> 2048"

definition buffer_new :: buffer where
  "buffer_new = \<lparr>bf_data = [], bf_max = BUFFER_SIZE, bf_consumed = 0\<rparr>"

text \<open>
  \<open>datasize\<close> never exceeds \<open>datamax\<close> (\<open>buffer_validate\<close>), so that the test of the code for equality is
  this one.
\<close>

definition full :: "buffer \<Rightarrow> bool" where
  "full b \<longleftrightarrow> bf_max b \<le> length (bf_data b)"

text \<open>The block that takes the next bytes is the last one, or a new one behind it.\<close>

definition with_room :: "buffer list \<Rightarrow> buffer list" where
  "with_room bs = (if bs = [] then [buffer_new] else if full (last bs) then bs @ [buffer_new] else bs)"

definition fill_last :: "buffer list \<Rightarrow> string \<Rightarrow> buffer list" where
  "fill_last bs d = butlast bs @ [(last bs)\<lparr>bf_data := bf_data (last bs) @ d\<rparr>]"

definition room :: "buffer list \<Rightarrow> nat" where
  "room bs = bf_max (last bs) - length (bf_data (last bs))"

lemma room_with_room: "0 < room (with_room bs)"
  by (auto simp: with_room_def room_def full_def buffer_new_def)

function buffer_queue :: "buffer list \<Rightarrow> string \<Rightarrow> buffer list" where
  "buffer_queue bs d =
     (if d = [] then bs
      else
        let bs = with_room bs;
            count = min (length d) (room bs)
        in buffer_queue (fill_last bs (take count d)) (drop count d))"
  by pat_completeness auto
termination
  by (relation "measure (length o snd)") (auto simp: room_with_room)

declare buffer_queue.simps [simp del]

fun buffer_consume :: "buffer list \<Rightarrow> nat \<Rightarrow> buffer list" where
  "buffer_consume [] n = []"
| "buffer_consume (b # bs) n =
     (if length (bf_data b) \<le> bf_consumed b + n then bs else b\<lparr>bf_consumed := bf_consumed b + n\<rparr> # bs)"

definition buffer_append :: "buffer list \<Rightarrow> buffer list \<Rightarrow> buffer list" where
  "buffer_append a b = (if a = [] then b else a @ b)"

fun buffer_size :: "buffer list \<Rightarrow> nat" where
  "buffer_size [] = 0"
| "buffer_size (b # bs) = (length (bf_data b) - bf_consumed b) + buffer_size bs"

text \<open>
  What \<open>write\<close> did with the bytes it was given: it took the first \<open>n\<close>, it would have blocked, or it failed.
\<close>

datatype wrote = Wrote nat | Would_block | Write_error

text \<open>
  For a client.  The result is whether the connection may stay, the bytes that the socket took, and the
  rest of the chain; \<open>limit\<close> is \<open>Client_Queue_Length\<close>.
\<close>

definition send_queued_data :: "int \<Rightarrow> wrote \<Rightarrow> buffer list \<Rightarrow> bool \<times> string \<times> buffer list" where
  "send_queued_data limit w sendbuf =
     (if sendbuf = [] then (True, [], [])
      else
        let out = drop (bf_consumed (hd sendbuf)) (bf_data (hd sendbuf)) in
        case w of
          Write_error \<Rightarrow> (False, [], sendbuf)
        | Would_block \<Rightarrow> (True, [], sendbuf)
        | Wrote n \<Rightarrow>
            let rest = (if 0 < n then buffer_consume sendbuf n else sendbuf)
            in (int (buffer_size rest) \<le> limit, take n out, rest))"

section \<open>A queue of bytes\<close>

text \<open>
  The contract: a content that grows at its end and is taken from its front.  In \<open>sent\<close> a
  history of enqueuings and writes collects what was taken.
\<close>

locale byte_queue =
  fixes ok :: "'q \<Rightarrow> bool"
    and bytes :: "'q \<Rightarrow> string"
    and enq :: "'q \<Rightarrow> string \<Rightarrow> 'q"
    and deq :: "'q \<Rightarrow> 'w \<Rightarrow> string \<times> 'q"
  assumes ok_enq: "ok q \<Longrightarrow> ok (enq q d)"
    and bytes_enq: "ok q \<Longrightarrow> bytes (enq q d) = bytes q @ d"
    and ok_deq: "ok q \<Longrightarrow> ok (snd (deq q w))"
    and bytes_deq: "ok q \<Longrightarrow> fst (deq q w) @ bytes (snd (deq q w)) = bytes q"
begin

fun history :: "'q \<Rightarrow> (string + 'w) list \<Rightarrow> string \<times> 'q" where
  "history q [] = ([], q)"
| "history q (Inl d # es) = history (enq q d) es"
| "history q (Inr w # es) = (let (a, r) = deq q w; (b, t) = history r es in (a @ b, t))"

lemma history_fifo:
  "ok q \<Longrightarrow> ok (snd (history q es)) \<and>
   fst (history q es) @ bytes (snd (history q es)) = bytes q @ concat (map (case_sum id (\<lambda>_. [])) es)"
proof (induction q es rule: history.induct)
  case (2 q d es)
  then show ?case by (simp add: ok_enq bytes_enq)
next
  case (3 q w es)
  obtain a r where d: "deq q w = (a, r)" by (cases "deq q w")
  obtain b t where h: "history r es = (b, t)" by (cases "history r es")
  have r: "ok r" "a @ bytes r = bytes q" using ok_deq [OF 3(2), of w] bytes_deq [OF 3(2), of w] d by simp_all
  have "b @ bytes t = bytes r @ concat (map (case_sum id (\<lambda>_. [])) es)" "ok t"
    using 3(1) [OF d [symmetric] refl r(1)] h by simp_all
  then show ?case using r(2) by (simp add: d h)
qed simp

end

section \<open>The buffers are such a queue\<close>

text \<open>No block holds more than fits, and none is exhausted.\<close>

definition buffer_ok :: "buffer \<Rightarrow> bool" where
  "buffer_ok b \<longleftrightarrow> length (bf_data b) \<le> bf_max b \<and> bf_consumed b < length (bf_data b)"

definition chain_ok :: "buffer list \<Rightarrow> bool" where
  "chain_ok bs \<longleftrightarrow> list_all buffer_ok bs"

definition bytes_of :: "buffer list \<Rightarrow> string" where
  "bytes_of bs = concat (map (\<lambda>b. drop (bf_consumed b) (bf_data b)) bs)"

text \<open>While bytes are copied the last block may be empty.\<close>

definition filling :: "buffer list \<Rightarrow> bool" where
  "filling bs \<longleftrightarrow> bs \<noteq> [] \<and> chain_ok (butlast bs) \<and> length (bf_data (last bs)) \<le> bf_max (last bs) \<and>
     bf_consumed (last bs) \<le> length (bf_data (last bs))"

lemma chain_ok_last: "bs \<noteq> [] \<Longrightarrow> chain_ok bs \<longleftrightarrow> chain_ok (butlast bs) \<and> buffer_ok (last bs)"
  by (cases bs rule: rev_cases) (simp_all add: chain_ok_def)

lemma bytes_of_last:
  "bs \<noteq> [] \<Longrightarrow> bytes_of bs = bytes_of (butlast bs) @ drop (bf_consumed (last bs)) (bf_data (last bs))"
  by (cases bs rule: rev_cases) (simp_all add: bytes_of_def)

lemma with_room_ok: "chain_ok bs \<Longrightarrow> filling (with_room bs) \<and> bytes_of (with_room bs) = bytes_of bs"
  using chain_ok_last [of bs]
  by (auto simp: with_room_def filling_def buffer_new_def bytes_of_def buffer_ok_def chain_ok_def)

lemma fill_last_ok:
  assumes f: "filling bs" and d: "d \<noteq> []" "length d \<le> room bs"
  shows "chain_ok (fill_last bs d) \<and> bytes_of (fill_last bs d) = bytes_of bs @ d"
proof
  show "chain_ok (fill_last bs d)"
    using f d by (auto simp: fill_last_def filling_def chain_ok_def buffer_ok_def room_def intro: le_imp_less_or_eq)
      (metis le_neq_implies_less length_0_conv less_add_same_cancel1 nat_less_le neq0_conv trans_less_add1)
  show "bytes_of (fill_last bs d) = bytes_of bs @ d"
    using f bytes_of_last [of bs] by (simp add: fill_last_def filling_def bytes_of_def)
qed

lemma buffer_queue_ok:
  "chain_ok bs \<Longrightarrow> chain_ok (buffer_queue bs d) \<and> bytes_of (buffer_queue bs d) = bytes_of bs @ d"
proof (induction bs d rule: buffer_queue.induct)
  case (1 bs d)
  show ?case
  proof (cases "d = []")
    case False
    let ?bs = "with_room bs" and ?n = "min (length d) (room (with_room bs))"
    have w: "filling ?bs" "bytes_of ?bs = bytes_of bs" using with_room_ok [OF 1(2)] by simp_all
    have n: "take ?n d \<noteq> []" "length (take ?n d) \<le> room ?bs" using False room_with_room [of bs] by simp_all
    note f = fill_last_ok [OF w(1) n]
    have run: "buffer_queue bs d = buffer_queue (fill_last ?bs (take ?n d)) (drop ?n d)"
      using False by (subst buffer_queue.simps) (simp add: Let_def)
    show ?thesis using 1(1) [OF False refl refl] f w(2) by (simp add: run)
  qed (use 1(2) in \<open>simp add: buffer_queue.simps\<close>)
qed

lemma buffer_consume_ok:
  assumes "chain_ok (b # bs)"
  shows "chain_ok (buffer_consume (b # bs) n)"
    "take n (drop (bf_consumed b) (bf_data b)) @ bytes_of (buffer_consume (b # bs) n) = bytes_of (b # bs)"
  using assms by (auto simp: chain_ok_def buffer_ok_def bytes_of_def add.commute simp flip: drop_drop)

lemma buffer_size_bytes: "buffer_size bs = length (bytes_of bs)"
  by (induction bs) (simp_all add: bytes_of_def)

lemma send_queued_data_ok:
  assumes "chain_ok bs"
  shows "chain_ok (snd (snd (send_queued_data limit w bs)))"
    "fst (snd (send_queued_data limit w bs)) @ bytes_of (snd (snd (send_queued_data limit w bs))) = bytes_of bs"
proof -
  have "chain_ok (snd (snd (send_queued_data limit w bs))) \<and>
    fst (snd (send_queued_data limit w bs)) @ bytes_of (snd (snd (send_queued_data limit w bs))) = bytes_of bs"
  proof (cases bs)
    case (Cons b cs)
    then show ?thesis using assms buffer_consume_ok [of b cs]
      by (auto simp: send_queued_data_def Let_def bytes_of_def simp del: buffer_consume.simps split: wrote.split)
  qed (simp add: send_queued_data_def bytes_of_def chain_ok_def)
  then show "chain_ok (snd (snd (send_queued_data limit w bs)))"
    "fst (snd (send_queued_data limit w bs)) @ bytes_of (snd (snd (send_queued_data limit w bs))) = bytes_of bs"
    by blast+
qed

interpretation out: byte_queue chain_ok bytes_of buffer_queue "\<lambda>bs (limit, w). snd (send_queued_data limit w bs)"
  by unfold_locales (auto simp: buffer_queue_ok send_queued_data_ok)

text \<open>A connection's output as it happens: data is queued, or the socket is written to.\<close>

datatype out_event = Queue string | Flush int wrote

fun run_output :: "buffer list \<Rightarrow> out_event list \<Rightarrow> string \<times> buffer list" where
  "run_output bs [] = ([], bs)"
| "run_output bs (Queue d # es) = run_output (buffer_queue bs d) es"
| "run_output bs (Flush limit w # es) =
     (let (_, a, bs) = send_queued_data limit w bs; (b, bs) = run_output bs es in (a @ b, bs))"

fun queued :: "out_event \<Rightarrow> string" where
  "queued (Queue d) = d"
| "queued (Flush limit w) = []"

fun event :: "out_event \<Rightarrow> string + int \<times> wrote" where
  "event (Queue d) = Inl d"
| "event (Flush limit w) = Inr (limit, w)"

lemma run_output_history: "run_output bs es = out.history bs (map event es)"
  by (induction bs es rule: run_output.induct) (auto simp: Let_def split: prod.split)

lemma queued_event: "concat (map (case_sum id (\<lambda>_. []) o event) es) = concat (map queued es)"
proof -
  have "case_sum id (\<lambda>_. []) (event e) = queued e" for e by (cases e) simp_all
  then show ?thesis by (simp add: comp_def)
qed

text \<open>C29: Whatever is queued and however much each write takes, the bytes that the socket got followed by
  those in the buffers are the bytes that were queued, in their order, and \<open>buffer_size\<close> is the number of
  those that wait.\<close>

theorem buffers_refine_queue:
  "fst (run_output [] es) @ bytes_of (snd (run_output [] es)) = concat (map queued es) \<and>
   buffer_size (snd (run_output [] es)) = length (bytes_of (snd (run_output [] es))) \<and>
   chain_ok (snd (run_output [] es))"
proof -
  have "chain_ok []" by (simp add: chain_ok_def)
  from out.history_fifo [OF this, of "map event es"] show ?thesis
    using queued_event [of es] by (simp add: run_output_history buffer_size_bytes bytes_of_def)
qed

end
