(* ===== verification/Timers.thy ===== *)
theory Timers
  imports Prelude
begin

text \<open>
  The timers (\<open>src/timer.c\<close>).  A call back is a value of the type \<open>'f\<close> and \<open>call\<close> runs it on a state; none
  of the program's call backs adds a timer.  The list is in the order of the times.
\<close>

section \<open>The operations\<close>

record 'f timer =
  t_func :: 'f
  t_next_time :: int
  t_interval :: int
  t_events :: int
  t_refnum :: nat

fun insert_timer :: "'f timer \<Rightarrow> 'f timer list \<Rightarrow> 'f timer list" where
  "insert_timer t [] = [t]"
| "insert_timer t (u # us) = (if t_next_time t < t_next_time u then t # u # us else u # insert_timer t us)"

definition schedule_timer :: "'f timer \<Rightarrow> 'f timer list \<Rightarrow> 'f timer list" where
  "schedule_timer t pending = (if t_events t = 0 then pending else insert_timer t pending)"

definition make_refnum :: "'f timer list \<Rightarrow> nat" where
  "make_refnum pending = length pending + 1"

definition add_timer :: "int \<Rightarrow> int \<Rightarrow> int \<Rightarrow> 'f \<Rightarrow> 'f timer list \<Rightarrow> 'f timer list" where
  "add_timer current_time interval events func pending =
     (if events = 0 then pending
      else schedule_timer \<lparr>t_func = func, t_next_time = current_time + interval, t_interval = interval,
             t_events = events, t_refnum = make_refnum pending\<rparr> pending)"

text \<open>A timer that has fired: one event less, unless it repeats for ever.\<close>

definition again :: "int \<Rightarrow> 'f timer \<Rightarrow> 'f timer" where
  "again current_time t =
     t\<lparr>t_events := (if t_events t = -1 then -1 else t_events t - 1), t_next_time := current_time + t_interval t\<rparr>"

partial_function (option) exec_timers ::
  "('f \<Rightarrow> 's \<Rightarrow> 's) \<Rightarrow> int \<Rightarrow> int \<Rightarrow> 'f timer list \<Rightarrow> 's \<Rightarrow> ('f timer list \<times> 's) option"
where
  "exec_timers call current_time now pending s =
     (case pending of
        [] \<Rightarrow> Some (pending, s)
      | t # ts \<Rightarrow>
          if now < t_next_time t then Some (pending, s)
          else
            exec_timers call current_time now
              (if t_events t = 0 then ts else schedule_timer (again current_time t) ts) (call (t_func t) s))"

definition next_timer :: "int \<Rightarrow> 'f timer list \<Rightarrow> int" where
  "next_timer current_time pending =
     (case pending of
        [] \<Rightarrow> -1
      | t # _ \<Rightarrow> if t_next_time t < current_time then 0 else t_next_time t - current_time)"

section \<open>Lemmas\<close>

abbreviation in_order :: "'f timer list \<Rightarrow> bool" where
  "in_order ts \<equiv> sorted (map t_next_time ts)"

lemma set_insert_timer [simp]: "set (insert_timer t ts) = insert t (set ts)"
  by (induction ts) auto

lemma in_order_insert [simp]: "in_order (insert_timer t ts) = in_order ts"
  by (induction ts) auto

lemma schedule_timer_parts:
  "set (schedule_timer t ts) = (if t_events t = 0 then set ts else insert t (set ts))"
  "in_order (schedule_timer t ts) = in_order ts"
  by (simp_all add: schedule_timer_def)

lemma filter_insert_timer: "\<not> P t \<Longrightarrow> filter P (insert_timer t ts) = filter P ts"
  by (induction ts) auto

lemma in_order_add_timer: "in_order ts \<Longrightarrow> in_order (add_timer now i e f ts)"
  by (simp add: add_timer_def schedule_timer_parts)

text \<open>The timers that are due are at the front.\<close>

abbreviation due :: "int \<Rightarrow> 'f timer \<Rightarrow> bool" where "due now t \<equiv> t_next_time t \<le> now"

lemma none_due:
  assumes "in_order ts" "ts = [] \<or> now < t_next_time (hd ts)"
  shows "filter (due now) ts = []"
  using assms by (cases ts) (auto simp: filter_empty_conv)

lemma next_timer_later:
  "in_order ts \<Longrightarrow> filter (due now) ts = [] \<Longrightarrow> next_timer now ts = -1 \<or> 0 < next_timer now ts"
  by (auto simp: next_timer_def filter_empty_conv split: list.split)

text \<open>What is executed, whether it is kept, and when it is next due.\<close>

lemma exec_timers_due:
  assumes "in_order ts" "\<forall>t\<in>set ts. 0 < t_interval t" "now \<le> current_time"
  shows "\<exists>ts'. exec_timers call current_time now ts s =
      Some (ts', fold (\<lambda>t. call (t_func t)) (filter (due now) ts) s) \<and>
    in_order ts' \<and> filter (due now) ts' = [] \<and>
    set ts' = {t \<in> set ts. \<not> due now t} \<union>
      {again current_time t | t. t \<in> set ts \<and> due now t \<and> t_events t \<noteq> 0 \<and> t_events t \<noteq> 1}"
  using assms(1,2)
proof (induction "length (filter (due now) ts)" arbitrary: ts s rule: less_induct)
  case less
  show ?case
  proof (cases "ts = [] \<or> now < t_next_time (hd ts)")
    case True
    then have n: "filter (due now) ts = []" by (rule none_due [OF less(2)])
    have "exec_timers call current_time now ts s = Some (ts, s)"
      using True by (subst exec_timers.simps) (auto split: list.split)
    then show ?thesis using n less(2) by (auto simp: filter_empty_conv)
  next
    case False
    then obtain t us where ts: "ts = t # us" and d: "due now t" by (cases ts) auto
    let ?t = "again current_time t"
    let ?us = "if t_events t = 0 then us else schedule_timer ?t us"
    have run: "exec_timers call current_time now ts s = exec_timers call current_time now ?us (call (t_func t) s)"
      using d by (subst exec_timers.simps) (simp add: ts)
    have e: "t_events ?t = 0 \<longleftrightarrow> t_events t = 1" by (simp add: again_def)
    have late: "\<not> due now ?t" using less(3) assms(3) by (simp add: ts again_def)
    then have f: "filter (due now) ?us = filter (due now) us"
      by (simp add: schedule_timer_def filter_insert_timer)
    have p: "in_order ?us" "\<forall>u\<in>set ?us. 0 < t_interval u"
      using less(2,3) by (auto simp: ts schedule_timer_parts again_def)
    have "length (filter (due now) ?us) < length (filter (due now) ts)" unfolding f by (simp add: ts d)
    from less(1) [OF this p, of "call (t_func t) s"] obtain ts' where T:
      "exec_timers call current_time now ?us (call (t_func t) s) =
         Some (ts', fold (\<lambda>t. call (t_func t)) (filter (due now) us) (call (t_func t) s))"
      "in_order ts'" "filter (due now) ts' = []"
      "set ts' = {u \<in> set ?us. \<not> due now u} \<union>
         {again current_time u | u. u \<in> set ?us \<and> due now u \<and> t_events u \<noteq> 0 \<and> t_events u \<noteq> 1}"
      unfolding f by blast
    have "set ts' = {u \<in> set ts. \<not> due now u} \<union>
         {again current_time u | u. u \<in> set ts \<and> due now u \<and> t_events u \<noteq> 0 \<and> t_events u \<noteq> 1}"
      unfolding T(4) using d late e by (auto simp: ts schedule_timer_parts split: if_splits)
    then show ?thesis using T run d by (intro exI [of _ ts']) (simp add: ts)
  qed
qed

text \<open>C30: With positive intervals \<open>exec_timers\<close> returns: every timer that is due fires exactly once, in the
  order of the times, the ones with events left are scheduled an interval later, and after that the next
  timer lies in the future.\<close>

theorem timers_fire_once:
  assumes "in_order ts" "\<forall>t\<in>set ts. 0 < t_interval t"
  shows "\<exists>ts'. exec_timers call now now ts s = Some (ts', fold (\<lambda>t. call (t_func t)) (filter (due now) ts) s) \<and>
    in_order ts' \<and> (next_timer now ts' = -1 \<or> 0 < next_timer now ts') \<and>
    set ts' = {t \<in> set ts. \<not> due now t} \<union>
      {again now t | t. t \<in> set ts \<and> due now t \<and> t_events t \<noteq> 0 \<and> t_events t \<noteq> 1}"
  using exec_timers_due [OF assms order_refl, of call now s] next_timer_later by blast

lemma timers_fire_once_witness:
  "\<exists>ts'. exec_timers (#) 100 100 (add_timer 40 60 (-1) ''expire_bans'' (add_timer 40 30 2 ''save'' (add_timer 40 90 1 ''stats'' []))) [] =
     Some (ts', [''expire_bans'', ''save''])"
  using timers_fire_once [of "add_timer 40 60 (-1) ''expire_bans'' (add_timer 40 30 2 ''save'' (add_timer 40 90 1 ''stats'' []))"
      "(#)" 100 "[]"]
  by (auto simp: add_timer_def schedule_timer_def)

text \<open>A repeating timer whose interval is 0 is always due, and the loop does not end.\<close>

lemma timer_of_interval_0_hangs:
  "exec_timers call now now [\<lparr>t_func = f, t_next_time = now, t_interval = 0, t_events = -1, t_refnum = 1\<rparr>] s = None"
proof -
  let ?T = "[\<lparr>t_func = f, t_next_time = now, t_interval = 0, t_events = -1, t_refnum = 1\<rparr>]"
  have "ts = ?T \<longrightarrow> c = now \<longrightarrow> n = now \<longrightarrow> False" if "exec_timers call c n ts s = Some y" for c n ts s y
    using that
    by (induction rule: exec_timers.raw_induct [rotated 1, consumes 1])
      (auto simp: schedule_timer_def again_def, blast)
  then show ?thesis by (metis not_None_eq)
qed

end
