(* ===== verification/Shapes.thy ===== *)
theory Shapes
  imports Private Hotlists Links Searches Accounts
begin

text \<open>
  Most commands leave alone what the invariant of users, channels and connections speaks of: they send
  messages and assign to other fields.  The relation \<open>same_shape\<close> says so once for all of them.
\<close>

definition user_shape :: "user \<Rightarrow> string \<times> cid \<times> bool \<times> chid list \<times> chid list" where
  "user_shape U = (u_nick U, u_con U, u_local U, u_channels U, u_invited U)"

definition conn_shape :: "conn \<Rightarrow> conn_class \<times> uid" where
  "conn_shape K = (c_class K, c_user K)"

definition same_shape :: "srv \<Rightarrow> srv \<Rightarrow> bool" where
  "same_shape s t \<longleftrightarrow>
     (\<forall>v. map_option user_shape (s_users s v) = map_option user_shape (s_users t v)) \<and>
     (\<forall>d. map_option conn_shape (s_conns s d) = map_option conn_shape (s_conns t d)) \<and>
     s_chans s = s_chans t \<and> s_Users s = s_Users t \<and> s_Channels s = s_Channels t \<and> s_next s = s_next t \<and> roll s = roll t"

lemma same_shapeD:
  assumes "same_shape s t"
  shows "s_users s v = Some V \<Longrightarrow> \<exists>U. s_users t v = Some U \<and> user_shape U = user_shape V"
    "s_conns s d = Some K \<Longrightarrow> \<exists>B. s_conns t d = Some B \<and> conn_shape B = conn_shape K"
    "s_chans s = s_chans t" "s_Users s = s_Users t" "s_Channels s = s_Channels t" "s_next s = s_next t"
proof -
  have S: "map_option user_shape (s_users t v) = map_option user_shape (s_users s v)"
    "map_option conn_shape (s_conns t d) = map_option conn_shape (s_conns s d)"
    using assms by (simp_all add: same_shape_def)
  show "\<exists>U. s_users t v = Some U \<and> user_shape U = user_shape V" if "s_users s v = Some V"
    using S(1) that by (cases "s_users t v") simp_all
  show "\<exists>B. s_conns t d = Some B \<and> conn_shape B = conn_shape K" if "s_conns s d = Some K"
    using S(2) that by (cases "s_conns t d") simp_all
qed (use assms in \<open>simp_all add: same_shape_def\<close>)

lemma same_shape_refl [simp]: "same_shape s s"
  by (simp add: same_shape_def)

lemma same_shape_sym: "same_shape s t \<Longrightarrow> same_shape t s"
  by (simp add: same_shape_def)

lemma same_shape_trans: "same_shape s t \<Longrightarrow> same_shape t r \<Longrightarrow> same_shape s r"
  by (simp add: same_shape_def)

lemma same_shape_core: "same_core s t \<Longrightarrow> same_shape s t"
  by (simp add: same_shape_def same_core_def)

lemma same_shape_wf:
  assumes "same_shape t s" "wf_upto X s"
  shows "wf_upto X t"
proof (rule wf_uptoI)
  note S = same_shapeD [OF assms(1)] and R = same_shapeD [OF same_shape_sym [OF assms(1)]]
  have rel: "memb t = memb s" "inviting t = inviting s"
    using S(3) by (simp_all add: memb_def inviting_def fun_eq_iff)
  have rel': "inch t v c = inch s v c" "invd t v c = invd s v c" for v c
    using S(1) [of v] R(1) [of v] by (fastforce simp: inch_def invd_def user_shape_def)+
  have dom: "dom (s_users t) = dom (s_users s)" using S(1) R(1) by (auto simp: domIff) (metis not_None_eq)+
  note L = links_okD [OF wf_uptoD(1) [OF assms(2)]]
  show "links_ok X t"
  proof (rule links_okI)
    show "distinct (u_channels V) \<and> distinct (u_invited V)" if V: "s_users t v = Some V" for v V
    proof -
      obtain U where "s_users s v = Some U" "u_channels V = u_channels U" "u_invited V = u_invited U"
        using S(1) [OF V] by (auto simp: user_shape_def)
      then show ?thesis using L(1,2) by simp
    qed
    show "v \<in> dom (s_users t)" if "memb t d v \<or> inviting t d v" for d v
      using that L(5,6) unfolding dom rel by blast
  qed (use L in \<open>auto simp: rel rel' S(3)\<close>)
  show "chan_table_ok t" using wf_uptoD(2) [OF assms(2)] S by (simp add: chan_table_ok_def)
  note UT = user_table_okD [OF wf_uptoD(3) [OF assms(2)]] and CO = conn_okD [OF wf_uptoD(4) [OF assms(2)]]
  show "user_table_ok X t"
  proof (rule user_table_okI)
    show "hash_stack (s_Users t) (u_nick V) = [v]" if "(v, d) \<notin> X" "s_users t v = Some V" for v d V
      using S(1) [OF that(2)] UT(2) [OF that(1)] by (auto simp: S(4) user_shape_def)
    show "\<exists>V. s_users t v = Some V \<and> strcaseeq k (u_nick V)" if "v \<in> set (hash_stack (s_Users t) k)" for k v
      using UT(3) [of v k] that R(1) by (fastforce simp: S(4) user_shape_def)
  qed (use UT(1) S(4) in simp)
  have cls: "ISUSER d t = ISUSER d s" "c_user (cnx t d) = c_user (cnx s d)" if "d \<in> dom (s_conns s)" for d
    using that R(2) by (fastforce simp: ISUSER_def conn_shape_def)+
  show "conn_ok X t"
  proof (rule conn_okI)
    show "\<exists>U. s_users t (c_user K) = Some U \<and> u_con U = d \<and> u_local U"
      if K: "s_conns t d = Some K" "c_class K = CLASS_USER" "(c_user K, e) \<notin> X" for d K e
    proof -
      obtain B where B: "s_conns s d = Some B" "conn_shape B = conn_shape K" using S(2) [OF K(1)] by blast
      then obtain U where "s_users s (c_user B) = Some U" "u_con U = d" "u_local U"
        using CO(1) [of d B e] K(2,3) by (auto simp: conn_shape_def)
      then show ?thesis using R(1) B(2) by (fastforce simp: user_shape_def conn_shape_def)
    qed
    show "u_con V \<in> dom (s_conns t) \<and> (ISUSER (u_con V) t \<longrightarrow> c_user (cnx t (u_con V)) = v)"
      if V: "s_users t v = Some V" for v V
    proof -
      obtain U where U: "s_users s v = Some U" "u_con U = u_con V" using S(1) [OF V] by (auto simp: user_shape_def)
      have d: "u_con V \<in> dom (s_conns s)" using CO(2) [OF U(1)] U(2) by simp
      then have "u_con V \<in> dom (s_conns t)" using R(2) by blast
      then show ?thesis using cls [OF d] CO(3) [OF U(1)] U(2) by simp
    qed
  qed
qed

text \<open>What does not change the shape.  A state on either side may be rewritten.\<close>

lemma same_shape_left:
  "same_shape s t \<Longrightarrow> same_shape s r = same_shape t r"
  by (auto simp: same_shape_def)

lemma same_shape_output [simp]:
  "same_shape (emit fs s) r = same_shape s r" "same_shape (queue_data d t m s) r = same_shape s r"
  "same_shape (send_cmd d t m s) r = same_shape s r" "same_shape (pass_message x t m s) r = same_shape s r"
  "same_shape (pass_message_args x t m s) r = same_shape s r" "same_shape (send_user u t m s) r = same_shape s r"
  "same_shape (notify_mods l m s) r = same_shape s r" "same_shape (notify_ops ch m s) r = same_shape s r"
  "same_shape (nosuchuser d s) r = same_shape s r" "same_shape (permission_denied d s) r = same_shape s r"
  "same_shape (unparsable d s) r = same_shape s r" "same_shape (nosuchchannel d s) r = same_shape s r"
  "same_shape (tell_user d m s) r = same_shape s r"
  "same_shape (upd_db db_id f s) r = same_shape s r" "same_shape (add_db D s) r = same_shape s r"
  "same_shape (snd (make_pass p s)) r = same_shape s r" "same_shape (snd (create_db u s)) r = same_shape s r"
  "same_shape (db_remove n s) r = same_shape s r" "same_shape (upd_searches g s) r = same_shape s r"
  "same_shape (remove_links h s) r = same_shape s r"
  by (rule same_shape_left, rule same_shape_core, simp)+

lemma same_shape_msgs [simp]:
  "same_shape (invalid_nick_msg d s) r = same_shape s r" "same_shape (send_cmd_pre d t p m s) r = same_shape s r"
  by (simp_all add: invalid_nick_msg_def send_cmd_pre_def)

lemma same_shape_fields [simp]:
  "m_Num_Clients m = m_Num_Clients (s_misc s) \<Longrightarrow> same_shape (s\<lparr>s_misc := m\<rparr>) r = same_shape s r"
  "same_shape (s\<lparr>s_cfg := c\<rparr>) r = same_shape s r"
  "same_shape (s\<lparr>s_Server_Links := l\<rparr>) r = same_shape s r" "same_shape (s\<lparr>s_Servers := v\<rparr>) r = same_shape s r"
  "same_shape (s\<lparr>s_Num_Files := a\<rparr>) r = same_shape s r" "same_shape (s\<lparr>s_Num_Gigs := b\<rparr>) r = same_shape s r"
  "same_shape (s\<lparr>s_rand := p\<rparr>) r = same_shape s r"
  by (simp_all add: same_shape_def)

lemma same_shape_upd_user:
  "(\<And>U. user_shape (f U) = user_shape U) \<Longrightarrow> same_shape (upd_user u f s) r = same_shape s r"
  by (rule same_shape_left) (simp add: same_shape_def option.map_comp comp_def)

lemma same_shape_upd_conn:
  "(\<And>K. conn_shape (f K) = conn_shape K) \<Longrightarrow> same_shape (upd_conn d f s) r = same_shape s r"
  by (rule same_shape_left) (simp add: same_shape_def option.map_comp comp_def)

lemma same_shape_fold [intro]: "(\<And>x s. same_shape (f x s) s) \<Longrightarrow> same_shape (fold f xs s) s"
proof (induction xs arbitrary: s)
  case (Cons x xs)
  then show ?case using same_shape_trans by (simp, blast)
qed simp

lemmas shape_simps = same_shape_upd_user same_shape_upd_conn user_shape_def conn_shape_def Let_def

end
