(* ===== verification/Change.thy ===== *)
theory Change
  imports Shapes
begin

text \<open>
  The commands that change a user's data, by the user or by an operator (\<open>src/change.c\<close>), and the log
  messages that an operator asks for (\<open>src/usermode.c\<close>).  \<open>None\<close> is a NULL pointer that is followed: a
  server that names a sender and sends nothing else.
\<close>

section \<open>A user's own data\<close>

definition change_data_port :: "cid \<Rightarrow> nat \<Rightarrow> string \<Rightarrow> srv \<Rightarrow> srv option" where
  "change_data_port con tag pkt s =
     (case pop_user con pkt s of
        None \<Rightarrow> Some s
      | Some (None, user) \<Rightarrow> None
      | Some (Some p, user) \<Rightarrow>
          let port = atoi p in
          Some (if 0 \<le> port \<and> port \<le> 65535 then
                  pass_message_args (Some con) tag ('':'' @ u_nick (usr s user) @ '' '' @ int_dec port)
                    (upd_user user (\<lambda>U. U\<lparr>u_port := nat port\<rparr>) s)
                else if ISUSER con s then send_cmd con MSG_SERVER_NOSUCH ''invalid data port'' s
                else s))"

definition change_speed :: "cid \<Rightarrow> nat \<Rightarrow> string \<Rightarrow> srv \<Rightarrow> srv option" where
  "change_speed con tag pkt s =
     (case pop_user con pkt s of
        None \<Rightarrow> Some s
      | Some (None, user) \<Rightarrow> None
      | Some (Some p, user) \<Rightarrow>
          let spd = atoi p in
          Some (if 0 \<le> spd \<and> spd \<le> 10 then
                  pass_message_args (Some con) tag ('':'' @ u_nick (usr s user) @ '' '' @ int_dec spd)
                    (upd_user user (\<lambda>U. U\<lparr>u_speed := nat spd\<rparr>) s)
                else if ISUSER con s then send_cmd con MSG_SERVER_NOSUCH ''invalid speed'' s
                else s))"

definition set_pass :: "did \<Rightarrow> string \<Rightarrow> srv \<Rightarrow> srv" where
  "set_pass d pass s =
     (case make_pass pass s of
        (pw, s) \<Rightarrow> upd_db d (\<lambda>db. db\<lparr>db_password := pw, db_timestamp := s_time s\<rparr>) s)"

text \<open>The test \<open>!pkt || !*pkt\<close>.\<close>

definition change_pass :: "cid \<Rightarrow> nat \<Rightarrow> string \<Rightarrow> srv \<Rightarrow> srv" where
  "change_pass con tag pkt s =
     (case pop_user con pkt s of
        None \<Rightarrow> s
      | Some (pkt, user) \<Rightarrow>
          if nonull pkt = [] then unparsable con s
          else
            let nick = u_nick (usr s user);
                s = pass_message_args (Some con) tag ('':'' @ nick @ '' '' @ nonull pkt) s
            in case hash_lookup (s_User_Db s) nick of
                 None \<Rightarrow> s
               | Some d \<Rightarrow>
                   let s = set_pass d (nonull pkt) s
                   in if ISUSER con s then send_cmd con MSG_SERVER_NOSUCH ''password changed'' s else s)"

definition change_email :: "cid \<Rightarrow> nat \<Rightarrow> string \<Rightarrow> srv \<Rightarrow> srv" where
  "change_email con tag pkt s =
     (case pop_user con pkt s of
        None \<Rightarrow> s
      | Some (pkt, user) \<Rightarrow>
          if nonull pkt = [] then unparsable con s
          else
            let nick = u_nick (usr s user);
                s = pass_message_args (Some con) tag ('':'' @ nick @ '' '' @ nonull pkt) s
            in case hash_lookup (s_User_Db s) nick of
                 None \<Rightarrow> s
               | Some d \<Rightarrow> upd_db d (\<lambda>db. db\<lparr>db_email := nonull pkt, db_timestamp := s_time s\<rparr>) s)"

section \<open>Operators' commands\<close>

text \<open>Only a port that changes is reported to the moderators.\<close>

definition set_port :: "uid \<Rightarrow> uid \<Rightarrow> int \<Rightarrow> string \<Rightarrow> srv \<Rightarrow> srv" where
  "set_port sender user p reason s =
     (if int (u_port (usr s user)) = p then s
      else upd_user user (\<lambda>U. U\<lparr>u_port := nat p\<rparr>)
             (notify_mods CHANGELOG_MODE (u_nick (usr s sender) @ '' changed '' @ u_nick (usr s user) @
                [CHR 0x27] @ ''s data port to '' @ int_dec p @ '': '' @ reason) s))"

definition alter_port :: "cid \<Rightarrow> nat \<Rightarrow> string \<Rightarrow> srv \<Rightarrow> srv" where
  "alter_port con tag pkt s =
     (case pop_user con pkt s of
        None \<Rightarrow> s
      | Some (pkt, sender) \<Rightarrow>
          if u_level (usr s sender) < LEVEL_MODERATOR then permission_denied con s
          else
            let (nick, pkt) = next_arg pkt; (port, pkt) = next_arg pkt in
            case (nick, port) of
              (Some nick, Some port) \<Rightarrow>
                (case hash_lookup (s_Users s) nick of
                   None \<Rightarrow> nosuchuser con s
                 | Some user \<Rightarrow>
                     let p = atoi port in
                     if p < 0 \<or> 65535 < p then
                       (if ISUSER con s
                        then send_cmd con MSG_SERVER_NOSUCH (int_dec p @ '' is an invalid port'') s else s)
                     else
                       let s = set_port sender user p (nonull (map_option (truncate_reason s) pkt)) s;
                           s = (if u_local (usr s user)
                                then send_cmd (user_con s user) MSG_CLIENT_ALTER_PORT (int_dec p) s else s)
                       in pass_message_args (Some con) tag
                            ('':'' @ u_nick (usr s sender) @ '' '' @ u_nick (usr s user) @ '' '' @ int_dec p) s)
            | _ \<Rightarrow> unparsable con s)"

definition alter_pass :: "cid \<Rightarrow> nat \<Rightarrow> string \<Rightarrow> srv \<Rightarrow> srv" where
  "alter_pass con tag pkt s =
     (case pop_user con pkt s of
        None \<Rightarrow> s
      | Some (pkt, sender) \<Rightarrow>
          if u_level (usr s sender) < LEVEL_ADMIN then permission_denied con s
          else
            let av = get_args 3 pkt in
            if length av \<noteq> 3 then unparsable con s
            else if invalid_nick s (av ! 0) then invalid_nick_msg con s
            else
              let reason = truncate_reason s (av ! 2); nick = u_nick (usr s sender);
                  s = pass_message_args (Some con) tag
                        ('':'' @ nick @ '' '' @ av ! 0 @ '' '' @ av ! 1 @ '' '' @ [dquote] @ reason @ [dquote]) s;
                  s = (case hash_lookup (s_User_Db s) (av ! 0) of
                         None \<Rightarrow> s
                       | Some d \<Rightarrow> set_pass d (av ! 1) s)
              in notify_mods CHANGELOG_MODE
                   (nick @ '' changed '' @ av ! 0 @ [CHR 0x27] @ ''s password: '' @ reason) s)"

definition alter_speed :: "cid \<Rightarrow> nat \<Rightarrow> string \<Rightarrow> srv \<Rightarrow> srv option" where
  "alter_speed con tag pkt s =
     (case pop_user con pkt s of
        None \<Rightarrow> Some s
      | Some (None, sender) \<Rightarrow> None
      | Some (Some p, sender) \<Rightarrow>
          let av = get_args 2 (Some p) in
          Some (if length av < 2 then unparsable con s
                else if u_level (usr s sender) < LEVEL_MODERATOR then permission_denied con s
                else
                  let speed = atoi (av ! 1) in
                  if speed < 0 \<or> 10 < speed then
                    (if ISUSER con s then send_cmd con MSG_SERVER_NOSUCH ''Invalid speed'' s else s)
                  else case hash_lookup (s_Users s) (av ! 0) of
                    None \<Rightarrow> nosuchuser con s
                  | Some user \<Rightarrow>
                      if int (u_speed (usr s user)) = speed then
                        (if ISUSER con s
                         then send_cmd con MSG_SERVER_NOSUCH
                                (u_nick (usr s user) @ [CHR 0x27] @ ''s speed is already '' @ int_dec speed) s
                         else s)
                      else
                        let s = upd_user user (\<lambda>U. U\<lparr>u_speed := nat speed\<rparr>) s;
                            a = u_nick (usr s sender); b = u_nick (usr s user);
                            s = pass_message_args (Some con) tag ('':'' @ a @ '' '' @ b @ '' '' @ int_dec speed) s
                        in notify_mods CHANGELOG_MODE
                             (a @ '' changed '' @ b @ [CHR 0x27] @ ''s speed to '' @ int_dec speed @ ''.'') s))"

text \<open>A registration is removed by somebody who outranks it.  Peers are told before that is known.\<close>

definition may_nuke :: "uid \<Rightarrow> did \<Rightarrow> srv \<Rightarrow> bool" where
  "may_nuke sender d s \<longleftrightarrow>
     \<not> (u_level (usr s sender) < LEVEL_ELITE \<and> u_level (usr s sender) \<le> db_level (dbs s d))"

definition nuke :: "cid \<Rightarrow> nat \<Rightarrow> string \<Rightarrow> srv \<Rightarrow> srv" where
  "nuke con tag pkt s =
     (case pop_user con pkt s of
        None \<Rightarrow> s
      | Some (pkt, sender) \<Rightarrow>
          if u_level (usr s sender) < LEVEL_MODERATOR
          then (if ISUSER con s then permission_denied con s else s)
          else case next_arg pkt of
            (None, _) \<Rightarrow> unparsable con s
          | (Some nick, pkt) \<Rightarrow>
              if invalid_nick s nick then invalid_nick_msg con s
              else
                let reason = nonull (map_option (truncate_reason s) pkt); a = u_nick (usr s sender);
                    s = pass_message_args (Some con) tag ('':'' @ a @ '' '' @ nick @ '' '' @ reason) s;
                    done = notify_mods CHANGELOG_MODE
                             (a @ '' nuked '' @ nick @ [CHR 0x27] @ ''s account: '' @ reason)
                in case hash_lookup (s_User_Db s) nick of
                     None \<Rightarrow> done s
                   | Some d \<Rightarrow>
                       if \<not> may_nuke sender d s then permission_denied con s
                       else done (db_remove (db_nick (dbs s d)) s))"

section \<open>Cloaking\<close>

definition save_cloak :: "did \<Rightarrow> bool \<Rightarrow> srv \<Rightarrow> srv" where
  "save_cloak d on s =
     upd_db d (\<lambda>db. db\<lparr>db_flags := (if on then db_flags db OR ON_CLOAKED else db_flags db AND NOT ON_CLOAKED),
       db_timestamp := s_time s\<rparr>) s"

definition cloak :: "cid \<Rightarrow> nat \<Rightarrow> string \<Rightarrow> srv \<Rightarrow> srv" where
  "cloak con tag pkt s =
     (case pop_user con pkt s of
        None \<Rightarrow> s
      | Some (pkt, sender) \<Rightarrow>
          if u_level (usr s sender) < LEVEL_MODERATOR then permission_denied con s
          else if ISSERVER con s \<and> (case pkt of None \<Rightarrow> False | Some p \<Rightarrow> atoi p = 1) \<and> u_cloaked (usr s sender)
          then s
          else
            let on = (\<not> u_cloaked (usr s sender)); nick = u_nick (usr s sender);
                s = upd_user sender (\<lambda>U. U\<lparr>u_cloaked := on\<rparr>) s
            in case hash_lookup (s_User_Db s) nick of
                 None \<Rightarrow> s
               | Some d \<Rightarrow>
                   let s = save_cloak d on s;
                       s = pass_message_args (Some con) tag ('':'' @ nick) s;
                       s = notify_mods CLOAKLOG_MODE (nick @ '' has '' @ (if on then [] else ''de'') @ ''cloaked'') s
                   in if ISUSER con s
                      then send_cmd con MSG_SERVER_NOSUCH
                             (''You are '' @ (if on then ''now'' else ''no longer'') @ '' cloaked.'') s
                      else s)"

section \<open>User modes\<close>

definition User_Levels :: "string list" where
  "User_Levels = [''ERROR'', ''BAN'', ''CHANGE'', ''KILL'', ''LEVEL'', ''SERVER'', ''MUZZLE'', ''PORT'',
     ''WALLOP'', ''CLOAK'', ''FLOOD'']"

text \<open>The index of a name in the table, if any.\<close>

fun level_index :: "string \<Rightarrow> string list \<Rightarrow> nat option" where
  "level_index av [] = None"
| "level_index av (l # ls) = (if strcaseeq av l then Some 0 else map_option Suc (level_index av ls))"

definition user_mode_word :: "string \<Rightarrow> 32 word \<Rightarrow> 32 word" where
  "user_mode_word av mode =
     (let (neg, av, mode) =
            (if strcaseeq av ''ALL'' then (False, av, LOGALL_MODE)
             else if strcaseeq av ''NONE'' then (False, av, 0)
             else if av \<noteq> [] \<and> hd av = CHR ''-'' then (True, tl av, mode)
             else (False, av, mode))
      in case level_index av User_Levels of
           None \<Rightarrow> mode
         | Some i \<Rightarrow> if neg then mode AND (LOGALL_MODE XOR push_bit i 1) else mode OR push_bit i 1)"

fun user_mode_words :: "nat \<Rightarrow> string option \<Rightarrow> 32 word \<Rightarrow> 32 word" where
  "user_mode_words 0 pkt mode = mode"
| "user_mode_words (Suc fuel) pkt mode =
     (case next_arg pkt of
        (None, _) \<Rightarrow> mode
      | (Some av, pkt) \<Rightarrow> user_mode_words fuel pkt (user_mode_word av mode))"

definition show_user_mode :: "32 word \<Rightarrow> string" where
  "show_user_mode mode =
     (if mode = 0 then ''NONE''
      else fold (\<lambda>i buf. if bit mode i then buf @ (if buf = [] then [] else '' '') @ User_Levels ! i else buf)
             [0..<length User_Levels] [])"

text \<open>Each round of the loop takes a character of the packet at least.\<close>

definition user_mode_cmd :: "cid \<Rightarrow> nat \<Rightarrow> string \<Rightarrow> srv \<Rightarrow> srv" where
  "user_mode_cmd con tag pkt s =
     (if \<not> ISUSER con s then s
      else
        let sender = c_user (cnx s con) in
        if pkt = [] then
          send_cmd con MSG_SERVER_USER_MODE (show_user_mode (c_usermode (cnx s (user_con s sender)))) s
        else
          let mode = user_mode_words (Suc (length pkt)) (Some pkt) (c_usermode (cnx s con))
          in upd_conn (user_con s sender) (\<lambda>C. C\<lparr>c_usermode := mode\<rparr>) s)"

lemmas [handler_defs] = change_data_port_def change_speed_def change_pass_def change_email_def
  alter_port_def alter_pass_def alter_speed_def nuke_def cloak_def user_mode_cmd_def

section \<open>The invariant is kept\<close>

lemma same_shape_change_parts [simp]:
  "same_shape (set_pass d p s) r = same_shape s r" "same_shape (set_port a u i m s) r = same_shape s r"
  "same_shape (save_cloak d on s) r = same_shape s r"
  by (simp_all add: set_pass_def make_pass_def set_port_def save_cloak_def shape_simps)

lemma shape_change:
  "change_data_port con tag pkt s = Some t \<Longrightarrow> same_shape t s" "change_speed con tag pkt s = Some t \<Longrightarrow> same_shape t s"
  "same_shape (change_pass con tag pkt s) s" "same_shape (change_email con tag pkt s) s"
  "same_shape (alter_port con tag pkt s) s" "same_shape (alter_pass con tag pkt s) s"
  "alter_speed con tag pkt s = Some t \<Longrightarrow> same_shape t s" "same_shape (nuke con tag pkt s) s"
  "same_shape (cloak con tag pkt s) s" "same_shape (user_mode_cmd con tag pkt s) s"
  by (auto simp: handler_defs shape_simps split: option.splits prod.splits if_splits)

section \<open>The words of a mode command\<close>

lemma user_mode_words_None [simp]: "user_mode_words n None w = w"
  by (cases n) (simp_all add: next_arg_def)

text \<open>The fuel is enough: more of it changes nothing.\<close>

lemma user_mode_words_fuel:
  "length p < n \<Longrightarrow> user_mode_words n (Some p) w = user_mode_words (Suc (length p)) (Some p) w"
proof (induction "length p" arbitrary: p n w rule: less_induct)
  case less
  then obtain k where n: "n = Suc k" by (cases n) auto
  obtain a r where N: "next_arg (Some p) = (a, r)" by (cases "next_arg (Some p)")
  show ?case
  proof (cases a)
    case a: (Some av)
    show ?thesis
    proof (cases r)
      case (Some q)
      have q: "length q < length p" using next_arg_shorter [of p "Some av" q] N a Some by simp
      have "user_mode_words k (Some q) v = user_mode_words (length p) (Some q) v" for v
        using less(1) [OF q, of k v] less(1) [OF q, of "length p" v] q less(2) n by simp
      then show ?thesis by (simp add: n N a Some)
    qed (simp add: n N a)
  qed (simp add: n N)
qed

end
