(* ===== verification/Queries.thy ===== *)
theory Queries
  imports Shapes
begin

text \<open>
  Announcements (\<open>src/announce.c\<close>), pings (\<open>src/ping.c\<close>), \<open>src/whois.c\<close>, redirection (\<open>src/redirect.c\<close>), the
  links and statistics of the server (\<open>src/server_links.c\<close>, \<open>src/server_usage.c\<close>, \<open>server_stats\<close> of
  \<open>src/handler.c\<close>), the message of the day (\<open>src/motd.c\<close>) and the counters of transfers (\<open>src/download.c\<close>).
  \<open>None\<close> is a pointer that is followed where there is nothing: the sender or the argument of a message
  from a server that has none.
\<close>

section \<open>Announcements\<close>

text \<open>The loop over the local clients.\<close>

definition to_clients :: "nat \<Rightarrow> string \<Rightarrow> (conn \<Rightarrow> user \<Rightarrow> bool) \<Rightarrow> srv \<Rightarrow> srv" where
  "to_clients tag text P s =
     emit [(c, tag, text). Some c \<leftarrow> s_Clients s, ISUSER c s \<and> P (cnx s c) (usr s (c_user (cnx s c)))] s"

definition announce :: "cid \<Rightarrow> nat \<Rightarrow> string \<Rightarrow> srv \<Rightarrow> srv" where
  "announce con tag pkt s =
     (let sent = (if ISUSER con s then Some (c_user (cnx s con), pkt)
                  else case next_arg_noskip pkt of
                    (ptr, None) \<Rightarrow> None
                  | (ptr, Some msg) \<Rightarrow> map_option (\<lambda>u. (u, msg)) (hash_lookup (s_Users s) ptr))
      in case sent of
           None \<Rightarrow> s
         | Some (user, msg) \<Rightarrow>
             if u_level (usr s user) < LEVEL_ADMIN then permission_denied con s
             else
               let text = form_message ((if u_cloaked (usr s user) then ''Operator'' else u_nick (usr s user)) @
                            '' '' @ msg);
                   s = pass_message (Some con) tag text s
               in to_clients tag text (\<lambda>C U. True) s)"

definition wallop :: "cid \<Rightarrow> nat \<Rightarrow> string \<Rightarrow> srv \<Rightarrow> srv" where
  "wallop con tag pkt s =
     (if ISUSER con s \<and> u_level (usr s (c_user (cnx s con))) < LEVEL_MODERATOR then permission_denied con s
      else
        let sent = (if ISUSER con s then (u_nick (usr s (c_user (cnx s con))), Some pkt) else next_arg_noskip pkt)
        in case sent of
             (ptr, None) \<Rightarrow> s
           | (ptr, Some msg) \<Rightarrow>
               let text = form_message (ptr @ '' '' @ msg);
                   s = pass_message (Some con) tag text s
               in to_clients tag text
                    (\<lambda>C U. LEVEL_MODERATOR \<le> u_level U \<and> c_usermode C AND WALLOPLOG_MODE \<noteq> 0) s)"

text \<open>
  The class of the connection is not checked.  \<open>av[0] + 1\<close> of an empty first field would point behind it.
\<close>

definition remote_notify_mods :: "cid \<Rightarrow> nat \<Rightarrow> string \<Rightarrow> srv \<Rightarrow> srv option" where
  "remote_notify_mods con tag pkt s =
     (let av = get_args 3 (Some pkt) in
      if length av < 3 then Some s
      else if av ! 0 = [] then None
      else
        let lvl = atoi (av ! 1);
            s = notify_mods (word_of_int lvl) (''['' @ tl (av ! 0) @ ''] '' @ av ! 2) s
        in Some (pass_message_args (Some con) tag
                   ('':'' @ tl (av ! 0) @ '' '' @ int_dec lvl @ '' '' @ [dquote] @ av ! 2 @ [dquote]) s))"

section \<open>Pings\<close>

definition with_space :: "string option \<Rightarrow> string" where
  "with_space r = (case r of None \<Rightarrow> [] | Some t \<Rightarrow> '' '' @ t)"

definition deliver_ping :: "nat \<Rightarrow> uid \<Rightarrow> uid \<Rightarrow> string option \<Rightarrow> srv \<Rightarrow> srv" where
  "deliver_ping tag orig user args s =
     (let con = user_con s user; nick = u_nick (usr s orig) in
      if ISUSER con s then
        (if is_ignoring (c_ignore (cnx s con)) nick
         then send_user orig MSG_SERVER_NOSUCH (u_nick (usr s user) @ '' is ignoring you'') s
         else send_cmd con tag (nick @ with_space args) s)
      else send_cmd con tag ('':'' @ nick @ '' '' @ u_nick (usr s user) @ with_space args) s)"

definition ping :: "cid \<Rightarrow> nat \<Rightarrow> string \<Rightarrow> srv \<Rightarrow> srv option" where
  "ping con tag pkt s =
     (case pop_user con pkt s of
        None \<Rightarrow> Some s
      | Some (None, orig) \<Rightarrow> None
      | Some (Some p, orig) \<Rightarrow>
          (case next_arg_noskip p of
             (nick, args) \<Rightarrow>
               Some (case hash_lookup (s_Users s) nick of
                       None \<Rightarrow> tell_user con (''ping failed, '' @ nick @ '' is not online'') s
                     | Some user \<Rightarrow> deliver_ping tag orig user args s)))"

definition ping_server :: "cid \<Rightarrow> nat \<Rightarrow> string \<Rightarrow> srv \<Rightarrow> srv" where
  "ping_server con tag pkt s =
     (case pop_user con pkt s of
        None \<Rightarrow> s
      | Some (None, sender) \<Rightarrow> unparsable con s
      | Some (Some p, sender) \<Rightarrow>
          (case next_arg (Some p) of
             (server, args) \<Rightarrow>
               let server = nonull server in
               if ISUSER con s \<and> \<not> is_server server s then send_cmd con tag (server @ with_space args) s
               else if strcaseeq (Server_Name (s_cfg s)) server
               then send_user sender tag (Server_Name (s_cfg s) @ '' '' @ nonull args) s
               else pass_message_args (Some con) tag
                      ('':'' @ u_nick (usr s sender) @ '' '' @ server @ '' '' @ nonull args) s))"

section \<open>Whois\<close>

text \<open>One \<open>append_string\<close>: the piece is formatted in \<open>Buf\<close>.\<close>

definition append_string :: "string \<Rightarrow> string \<Rightarrow> string" where
  "append_string rsp piece = rsp @ snprintf_to 2048 piece"

definition whois_channels :: "user \<Rightarrow> srv \<Rightarrow> string list" where
  "whois_channels U s =
     map (\<lambda>c. ch_name (chn s c) @ '' '') (filter (\<lambda>c. ch_flags (chn s c) AND ON_CHANNEL_PRIVATE = 0) (u_channels U))"

definition whois_pieces :: "level \<Rightarrow> user \<Rightarrow> srv \<Rightarrow> string list" where
  "whois_pieces lvl U s =
     (let priv = LEVEL_USER < lvl; q = [dquote];
          cap = (if u_muzzled U then ''Muzzled'' else if u_cloaked U \<and> priv then ''Cloaked'' else ''Active'');
          email = (case hash_lookup (s_User_Db s) (u_nick U) of None \<Rightarrow> ''unknown'' | Some d \<Rightarrow> db_email (dbs s d))
      in [u_nick U, '' '' @ q @ Levels (u_level U) @ q, '' '' @ int_dec (wrap32 (s_time s - u_connected U)),
          '' '' @ q @ '' ''] @
         (if \<not> u_cloaked U \<or> priv then whois_channels U s else []) @
         [q, '' '' @ q @ cap @ q,
          '' '' @ nat_dec (u_shared U) @ '' '' @ nat_dec (u_downloads U) @ '' '' @ nat_dec (u_uploads U) @
            '' '' @ nat_dec (u_speed U),
          '' '' @ q @ u_clientinfo U @ q] @
         (if priv
          then ['' '' @ nat_dec (u_totaldown U) @ '' '' @ nat_dec (u_totalup U) @ '' '' @ my_ntoa (u_ip U) @ '' '' @
                  nat_dec (u_conport U) @ '' '' @ nat_dec (u_port U), '' '' @ email]
          else []) @
         (if LEVEL_MODERATOR < lvl then ['' '' @ u_server U] else []))"

definition whois :: "cid \<Rightarrow> nat \<Rightarrow> string \<Rightarrow> srv \<Rightarrow> srv" where
  "whois con tag pkt s =
     (if \<not> ISUSER con s then s
      else
        let sender = c_user (cnx s con) in
        case hash_lookup (s_Users s) pkt of
          None \<Rightarrow>
            (case hash_lookup (s_User_Db s) pkt of
               None \<Rightarrow> nosuchuser con s
             | Some d \<Rightarrow>
                 let db = dbs s d in
                 send_cmd con MSG_SERVER_WHOWAS (db_nick db @ '' '' @ [dquote] @ Levels (db_level db) @ [dquote] @
                   '' '' @ int_dec (wrap32 (db_lastSeen db))) s)
        | Some user \<Rightarrow>
            let rsp = foldl append_string [] (whois_pieces (u_level (usr s sender)) (usr s user) s);
                s = send_user sender MSG_SERVER_WHOIS_RESPONSE rsp s
            in if LEVEL_MODERATOR \<le> u_level (usr s user) \<and> sender \<noteq> user
               then send_user user MSG_SERVER_NOSUCH (u_nick (usr s sender) @ '' has requested your info'') s
               else s)"

section \<open>Redirection\<close>

definition redirect_client :: "cid \<Rightarrow> nat \<Rightarrow> string \<Rightarrow> srv \<Rightarrow> srv option" where
  "redirect_client con tag pkt s =
     (case pop_user_server con pkt s of
        None \<Rightarrow> Some s
      | Some (pkt, sendernick, sender) \<Rightarrow>
          let av = get_args 3 pkt in
          if length av < 3 then Some (unparsable con s)
          else case sender of
            None \<Rightarrow> None
          | Some su \<Rightarrow>
              Some (if u_level (usr s su) < LEVEL_ADMIN then permission_denied con s
                    else if atoi (av ! 2) < 0 \<or> 65535 < atoi (av ! 2) then tell_user con ''invalid port'' s
                    else case hash_lookup (s_Users s) (av ! 0) of
                      None \<Rightarrow> nosuchuser con s
                    | Some user \<Rightarrow>
                        let d = user_con s user;
                            s = (if ISUSER d s then send_cmd d tag (av ! 1 @ '' '' @ av ! 2) s else s);
                            s = notify_mods CHANGELOG_MODE
                                  (sendernick @ '' redirected '' @ av ! 0 @ '' to '' @ av ! 1 @ '':'' @ av ! 2) s
                        in pass_message_args (Some con) tag
                             ('':'' @ sendernick @ '' '' @ av ! 0 @ '' '' @ av ! 1 @ '' '' @ av ! 2) s))"

text \<open>The arguments of the notice are the sender twice and the nick.\<close>

definition cycle_client :: "cid \<Rightarrow> nat \<Rightarrow> string \<Rightarrow> srv \<Rightarrow> srv option" where
  "cycle_client con tag pkt s =
     (case pop_user_server con pkt s of
        None \<Rightarrow> Some s
      | Some (pkt, sendernick, None) \<Rightarrow> None
      | Some (pkt, sendernick, Some su) \<Rightarrow>
          Some (if u_level (usr s su) < LEVEL_ADMIN then permission_denied con s
                else
                  let (nick, pkt) = next_arg pkt; (server, pkt) = next_arg pkt in
                  case (nick, server) of
                    (Some nick, Some server) \<Rightarrow>
                      (case hash_lookup (s_Users s) nick of
                         None \<Rightarrow> nosuchuser con s
                       | Some user \<Rightarrow>
                           let d = user_con s user;
                               s = (if ISUSER d s then send_cmd d tag server s else s);
                               s = notify_mods CHANGELOG_MODE (sendernick @ '' cycled '' @ sendernick @ '' to '' @ nick) s
                           in pass_message_args (Some con) tag
                                ('':'' @ sendernick @ '' '' @ nick @ '' '' @ server) s)
                  | _ \<Rightarrow> unparsable con s))"

section \<open>The server\<close>

text \<open>\<open>datamax c\<close> is the size that the input buffer of the server \<open>c\<close> has grown to.\<close>

definition server_links :: "(cid \<Rightarrow> nat) \<Rightarrow> cid \<Rightarrow> nat \<Rightarrow> string \<Rightarrow> srv \<Rightarrow> srv" where
  "server_links datamax con tag pkt s =
     (if \<not> ISUSER con s then s
      else
        let s = fold (\<lambda>c s. send_cmd con MSG_SERVER_LINKS
                  (Server_Name (s_cfg s) @ '' '' @ nat_dec (c_local_port (cnx s c)) @ '' '' @ c_host (cnx s c) @ '' '' @
                   nat_dec (c_port (cnx s c)) @ '' 0 '' @ nat_dec (datamax c)) s) (s_Servers s) s;
            s = fold (\<lambda>l s. send_cmd con MSG_SERVER_LINKS
                  (l_server l @ '' '' @ nat_dec (l_port l) @ '' '' @ l_peer l @ '' '' @ nat_dec (l_peerport l) @ '' '' @
                   int_dec (l_hops l) @ '' -1'') s) (s_Server_Links s) s
        in send_cmd con MSG_SERVER_LINKS [] s)"

text \<open>\<open>%.0f\<close> of a number of kilobytes divided by \<open>2 ^ 20\<close>, which is exact: the nearest integer, the even one of two.\<close>

definition round_div :: "nat \<Rightarrow> nat \<Rightarrow> nat" where
  "round_div n d =
     (if n mod d * 2 < d \<or> (n mod d * 2 = d \<and> even (n div d)) then n div d else Suc (n div d))"

definition gigs :: "int \<Rightarrow> string" where
  "gigs n = (if n < 0 then ''-'' else []) @ nat_dec (round_div (nat \<bar>n\<bar>) (2 ^ 20))"

definition server_stats :: "cid \<Rightarrow> nat \<Rightarrow> string \<Rightarrow> srv \<Rightarrow> srv" where
  "server_stats con tag pkt s =
     send_cmd con MSG_SERVER_STATS (nat_dec (dbsize (s_Users s)) @ '' '' @ int_dec (s_Num_Files s) @ '' '' @
       gigs (s_Num_Gigs s)) s"

text \<open>
  What comes from the clock, the allocator and floating point is given: the start and the running time,
  the memory in use, and the text of the three rates and two totals.
\<close>

record usage =
  us_start :: int
  us_running :: int
  us_memory :: int
  us_rates :: string

definition server_usage :: "usage \<Rightarrow> cid \<Rightarrow> nat \<Rightarrow> string \<Rightarrow> srv \<Rightarrow> srv" where
  "server_usage us con tag pkt s =
     (if \<not> ISUSER con s then s
      else
        let user = c_user (cnx s con); servers = length (s_Servers s) in
        if pkt = [] \<or> strcaseeq pkt (Server_Name (s_cfg s)) then
          send_user user MSG_SERVER_USAGE_STATS
            (int_dec (m_Num_Clients (s_misc s) - int servers) @ '' '' @ nat_dec servers @ '' '' @
             nat_dec (dbsize (s_Users s)) @ '' '' @ int_dec (s_Num_Files s) @ '' '' @ int_dec (s_Num_Gigs s) @ '' '' @
             nat_dec (dbsize (s_Channels s)) @ '' '' @ int_dec (us_start us) @ '' '' @ int_dec (us_running us) @ '' '' @
             int_dec (us_memory us) @ '' '' @ nat_dec (dbsize (s_User_Db s)) @ '' '' @ us_rates us) s
        else pass_message_args (Some con) tag ('':'' @ u_nick (usr s user) @ '' '' @ pkt) s)"

text \<open>
  The message of the day is kept as frames.  The file is the list of what \<open>fgets\<close> returns, \<open>None\<close>
  when it cannot be opened.
\<close>

definition motd_line :: "string \<Rightarrow> string" where
  "motd_line l = (if l \<noteq> [] \<and> last l = CHR 0x0A then butlast l else l)"

definition motd_init :: "string list option \<Rightarrow> srv \<Rightarrow> srv" where
  "motd_init fp s =
     (case fp of
        None \<Rightarrow> s
      | Some ls \<Rightarrow> upd_misc (\<lambda>m. m\<lparr>m_motd := m_motd m @ map motd_line ls\<rparr>) s)"

definition motd_close :: "srv \<Rightarrow> srv" where
  "motd_close s = upd_misc (\<lambda>m. m\<lparr>m_motd := []\<rparr>) s"

definition show_motd :: "cid \<Rightarrow> nat \<Rightarrow> string \<Rightarrow> srv \<Rightarrow> srv" where
  "show_motd con tag pkt s =
     emit (map (\<lambda>l. (con, MSG_SERVER_MOTD, l)) (m_motd (s_misc s)))
       (send_cmd con MSG_SERVER_MOTD ''VERSION opennap 0.36'' s)"

section \<open>Transfers\<close>

definition transfer_count_wrapper :: "cid \<Rightarrow> string \<Rightarrow> nat \<Rightarrow> srv \<Rightarrow> (uid \<times> srv) option" where
  "transfer_count_wrapper con pkt numeric s =
     (case pop_user con pkt s of
        None \<Rightarrow> None
      | Some (_, user) \<Rightarrow> Some (user, pass_message_args (Some con) numeric ('':'' @ u_nick (usr s user)) s))"

text \<open>The counters are of type \<open>unsigned short\<close>.\<close>

definition up16 :: "nat \<Rightarrow> nat" where "up16 n = (n + 1) mod 65536"

definition upload_start :: "cid \<Rightarrow> nat \<Rightarrow> string \<Rightarrow> srv \<Rightarrow> srv" where
  "upload_start con tag pkt s =
     (case transfer_count_wrapper con pkt MSG_CLIENT_UPLOAD_START s of
        None \<Rightarrow> s
      | Some (user, s) \<Rightarrow>
          upd_user user (\<lambda>U. U\<lparr>u_uploads := up16 (u_uploads U), u_totalup := up16 (u_totalup U)\<rparr>) s)"

definition upload_end :: "cid \<Rightarrow> nat \<Rightarrow> string \<Rightarrow> srv \<Rightarrow> srv" where
  "upload_end con tag pkt s =
     (case transfer_count_wrapper con pkt MSG_CLIENT_UPLOAD_END s of
        None \<Rightarrow> s
      | Some (user, s) \<Rightarrow> upd_user user (\<lambda>U. U\<lparr>u_uploads := u_uploads U - 1\<rparr>) s)"

definition download_start :: "cid \<Rightarrow> nat \<Rightarrow> string \<Rightarrow> srv \<Rightarrow> srv" where
  "download_start con tag pkt s =
     (case transfer_count_wrapper con pkt MSG_CLIENT_DOWNLOAD_START s of
        None \<Rightarrow> s
      | Some (user, s) \<Rightarrow>
          upd_user user (\<lambda>U. U\<lparr>u_downloads := up16 (u_downloads U), u_totaldown := up16 (u_totaldown U)\<rparr>) s)"

definition download_end :: "cid \<Rightarrow> nat \<Rightarrow> string \<Rightarrow> srv \<Rightarrow> srv" where
  "download_end con tag pkt s =
     (case transfer_count_wrapper con pkt MSG_CLIENT_DOWNLOAD_END s of
        None \<Rightarrow> s
      | Some (user, s) \<Rightarrow> upd_user user (\<lambda>U. U\<lparr>u_downloads := u_downloads U - 1\<rparr>) s)"

definition user_speed :: "cid \<Rightarrow> nat \<Rightarrow> string \<Rightarrow> srv \<Rightarrow> srv" where
  "user_speed con tag pkt s =
     (if \<not> ISUSER con s then s
      else case hash_lookup (s_Users s) pkt of
        None \<Rightarrow> nosuchuser con s
      | Some user \<Rightarrow>
          send_cmd con MSG_SERVER_USER_SPEED (u_nick (usr s user) @ '' '' @ nat_dec (u_speed (usr s user))) s)"

definition data_port_error :: "cid \<Rightarrow> nat \<Rightarrow> string \<Rightarrow> srv \<Rightarrow> srv option" where
  "data_port_error con tag pkt s =
     (case pop_user con pkt s of
        None \<Rightarrow> Some s
      | Some (None, sender) \<Rightarrow> None
      | Some (Some p, sender) \<Rightarrow>
          Some (case hash_lookup (s_Users s) p of
                  None \<Rightarrow> nosuchuser con s
                | Some user \<Rightarrow>
                    let U = usr s user; nick = u_nick (usr s sender);
                        s = pass_message_args (Some con) tag ('':'' @ nick @ '' '' @ u_nick U) s;
                        s = notify_mods PORTLOG_MODE
                              (''Notification from '' @ nick @ '': '' @ u_nick U @ '' ('' @ my_ntoa (u_ip U) @
                               '') - configured data port '' @ nat_dec (u_port U) @ '' is unreachable.'') s
                    in if u_local U then send_cmd (u_con U) tag nick s else s))"

lemmas [handler_defs] = announce_def wallop_def remote_notify_mods_def ping_def ping_server_def whois_def
  redirect_client_def cycle_client_def server_links_def server_stats_def server_usage_def show_motd_def
  upload_start_def upload_end_def download_start_def download_end_def user_speed_def data_port_error_def

section \<open>The invariant is kept\<close>

lemma same_shape_misc [simp]:
  "(\<And>m. m_Num_Clients (f m) = m_Num_Clients m) \<Longrightarrow> same_shape (upd_misc f s) r = same_shape s r"
  by (simp add: upd_misc_def)

lemma same_shape_query_parts [simp]:
  "same_shape (to_clients t m P s) r = same_shape s r" "same_shape (deliver_ping t a u args s) r = same_shape s r"
  "same_shape (motd_init fp s) r = same_shape s r" "same_shape (motd_close s) r = same_shape s r"
  by (simp_all add: to_clients_def deliver_ping_def motd_init_def motd_close_def Let_def split: option.split)

lemma same_shape_fold_send [simp]: "same_shape (fold (\<lambda>x s. send_cmd d t (m x s) s) xs s) r = same_shape s r"
  by (induction xs arbitrary: s) simp_all

lemma shape_queries:
  "same_shape (announce con tag pkt s) s" "same_shape (wallop con tag pkt s) s"
  "remote_notify_mods con tag pkt s = Some t \<Longrightarrow> same_shape t s"
  "ping con tag pkt s = Some t \<Longrightarrow> same_shape t s" "same_shape (ping_server con tag pkt s) s"
  "same_shape (whois con tag pkt s) s" "redirect_client con tag pkt s = Some t \<Longrightarrow> same_shape t s"
  "cycle_client con tag pkt s = Some t \<Longrightarrow> same_shape t s" "same_shape (server_links mx con tag pkt s) s"
  "same_shape (server_stats con tag pkt s) s" "same_shape (server_usage us con tag pkt s) s"
  "same_shape (show_motd con tag pkt s) s" "same_shape (user_speed con tag pkt s) s"
  "data_port_error con tag pkt s = Some t \<Longrightarrow> same_shape t s"
  by (auto simp: handler_defs shape_simps split: option.splits prod.splits if_splits)

lemma shape_transfers:
  "same_shape (upload_start con tag pkt s) s" "same_shape (upload_end con tag pkt s) s"
  "same_shape (download_start con tag pkt s) s" "same_shape (download_end con tag pkt s) s"
  by (auto simp: handler_defs transfer_count_wrapper_def shape_simps split: option.splits prod.splits)

section \<open>Anybody may write to the moderators\<close>

text \<open>A user of the lowest rank sends what only servers should.\<close>

lemma notify_mods_unchecked:
  "\<exists>t. remote_notify_mods 1 MSG_SERVER_NOTIFY_MODS ('':hub 1 '' @ [dquote] @ ''restart'' @ [dquote]) sample = Some t \<and>
     (0, MSG_SERVER_NOSUCH, ''[hub] restart'') \<in> set (s_out t)"
proof -
  have av: "get_args 3 (Some ('':hub 1 '' @ [dquote] @ ''restart'' @ [dquote])) = ['':hub'', ''1'', ''restart'']"
    by (simp add: get_args_def split_line_def is_sep_def c_isspace_def eval_nat_numeral)
  have one: "word_of_int (atoi ''1'') = (1 :: 32 word)"
    using atoi_int_dec [of 1] by (simp add: int_dec_def nat_dec.simps digit_char_def char_of_def bit_Suc_0_iff)
  have c: "s_Clients sample = [Some 0, Some 1, Some 2]" "ISUSER 0 sample" "\<not> ISUSER 2 sample" "c_user (cnx sample 0) = 0"
    "u_level (usr sample 0) = LEVEL_MODERATOR" "c_usermode (cnx sample 0) = 0xFFFF"
    by (simp_all add: sample_simps ISUSER_def)
  have "(0, MSG_SERVER_NOSUCH, form_message ''[hub] restart'') \<in> set (s_out (notify_mods 1 ''[hub] restart'' sample))"
    by (simp add: notify_mods_def emit_def c sample_conn_def) (simp add: sample_simps level_order)
  moreover have "form_message ''[hub] restart'' = ''[hub] restart''" by (simp add: form_message_def snprintf_to_def)
  moreover have "f \<in> set (s_out (pass_message_args x t m s))" if "f \<in> set (s_out s)" for f x t m s
    using that by (auto simp: pass_message_args_def pass_message_def emit_def)
  ultimately show ?thesis unfolding remote_notify_mods_def av Let_def by (simp add: one)
qed

end
