(* ===== verification/Sharing.thy ===== *)
theory Sharing
  imports Queries
begin

text \<open>
  The files that users share (\<open>src/add_file.c\<close>, \<open>src/remove_file.c\<close>) and the index of their words
  (\<open>tokenize\<close> and the collection of garbage of \<open>src/search.c\<close>).  The build is one without
  \<open>--enable-resume\<close>, the default.
\<close>

section \<open>Words\<close>

text \<open>\<open>isalnum\<close> and \<open>toupper\<close> in the C locale.\<close>

definition c_isalnum :: "char \<Rightarrow> bool" where
  "c_isalnum c \<longleftrightarrow> c_isdigit c \<or> (65 \<le> code c \<and> code c \<le> 90) \<or> (97 \<le> code c \<and> code c \<le> 122)"

definition c_toupper :: "char \<Rightarrow> char" where
  "c_toupper c = (if 97 \<le> code c \<and> code c \<le> 122 then char_of (code c - 32) else c)"

definition WORD_CHAR :: "char \<Rightarrow> bool" where
  "WORD_CHAR c \<longleftrightarrow> c_isalnum c \<or> c = CHR 0x27"

text \<open>
  The loop of \<open>tokenize\<close>, with the list so far.  A text that ends in two characters that belong to no
  word has an empty word at its end.
\<close>

function tokenize_from :: "string htab option \<Rightarrow> string \<Rightarrow> string list \<Rightarrow> string list" where
  "tokenize_from Filter s r =
     (if s = [] then r
      else
        let s = dropWhile (\<lambda>c. \<not> WORD_CHAR c) s;
            w = strlower (takeWhile WORD_CHAR s);
            ptr = tl (dropWhile WORD_CHAR s)
        in tokenize_from Filter ptr (if is_filtered Filter w \<or> w \<in> set r then r else r @ [w]))"
  by pat_completeness auto
termination
proof (relation "measure (\<lambda>(F, s, r). length s)")
  fix Filter s r and t w ptr :: string
  assume s: "s \<noteq> []" and t: "t = dropWhile (\<lambda>c. \<not> WORD_CHAR c) s" and p: "ptr = tl (dropWhile WORD_CHAR t)"
  have "length (dropWhile WORD_CHAR t) \<le> length t" by (rule length_dropWhile_le)
  moreover have "length t \<le> length s" unfolding t by (rule length_dropWhile_le)
  moreover have "length ptr = length (dropWhile WORD_CHAR t) - 1" "0 < length s" using s by (simp_all add: p)
  ultimately have "length ptr < length s" by linarith
  then show "((Filter, ptr, if is_filtered Filter w \<or> w \<in> set r then r else r @ [w]), Filter, s, r)
    \<in> measure (\<lambda>(F, s, r). length s)" by simp
qed simp

declare tokenize_from.simps [simp del]

definition tokenize :: "string htab option \<Rightarrow> string \<Rightarrow> string list" where
  "tokenize Filter s = tokenize_from Filter s []"

section \<open>Adding a file\<close>

definition BitRate :: "nat list" where
  "BitRate = [8, 16, 24, 32, 40, 48, 56, 64, 80, 96, 112, 128, 144, 160, 192, 224, 256, 320]"

definition SampleRate :: "nat list" where
  "SampleRate = [16000, 24000, 22050, 32000, 44100, 48000]"

definition Content_Types :: "string list" where
  "Content_Types = [''mp3'', ''audio'', ''video'', ''application'', ''image'', ''text'']"

text \<open>The index of the first rate that is not below the value, 0 when there is none.\<close>

definition rate_index :: "nat list \<Rightarrow> int \<Rightarrow> nat" where
  "rate_index rates v = (case find (\<lambda>i. v \<le> int (rates ! i)) [0..<length rates] of None \<Rightarrow> 0 | Some i \<Rightarrow> i)"

abbreviation datums :: "srv \<Rightarrow> fid \<rightharpoonup> datum" where "datums s \<equiv> m_datums (s_misc s)"
abbreviation flists :: "srv \<Rightarrow> flid \<rightharpoonup> flist" where "flists s \<equiv> m_flists (s_misc s)"

text \<open>A datum that is referenced once more.\<close>

definition ref_datum :: "fid \<Rightarrow> misc \<Rightarrow> misc" where
  "ref_datum f m =
     m\<lparr>m_datums := (m_datums m)(f := map_option (\<lambda>d. d\<lparr>d_refcount := d_refcount d + 1\<rparr>) (m_datums m f))\<rparr>"

text \<open>The list of a word, which is made when there is none.\<close>

definition word_list :: "string \<Rightarrow> misc \<Rightarrow> flid \<times> misc" where
  "word_list key m =
     (case hash_lookup (m_File_Table m) key of
        Some l \<Rightarrow> (l, m)
      | None \<Rightarrow>
          (m_next_flist m,
           m\<lparr>m_flists := (m_flists m)(m_next_flist m \<mapsto> \<lparr>fl_key = key, fl_list = [], fl_count = 0\<rparr>),
             m_File_Table := hash_add (m_File_Table m) key (m_next_flist m), m_next_flist := Suc (m_next_flist m)\<rparr>))"

definition push_file :: "flid \<Rightarrow> fid \<Rightarrow> misc \<Rightarrow> misc" where
  "push_file l f m =
     m\<lparr>m_flists := (m_flists m)(l := map_option (\<lambda>L. L\<lparr>fl_list := fl_list L @ [f], fl_count := fl_count L + 1\<rparr>)
                                      (m_flists m l))\<rparr>"

definition fdb_add :: "fid \<Rightarrow> string \<Rightarrow> misc \<Rightarrow> misc" where
  "fdb_add f key m = (case word_list key m of (l, m) \<Rightarrow> ref_datum f (push_file l f m))"

text \<open>At most 30 words of a name are indexed, the last ones.\<close>

definition indexed :: "string htab option \<Rightarrow> string \<Rightarrow> string list" where
  "indexed Filter s = (let ts = tokenize Filter s in drop (length ts - 30) ts)"

definition new_datum :: "datum \<Rightarrow> misc \<Rightarrow> misc" where
  "new_datum d m = m\<lparr>m_datums := (m_datums m)(m_next_file m \<mapsto> d), m_next_file := Suc (m_next_file m)\<rparr>"

definition share_datum :: "cid \<Rightarrow> string \<Rightarrow> fid \<Rightarrow> srv \<Rightarrow> srv" where
  "share_datum con name f s =
     upd_conn con (\<lambda>C. C\<lparr>c_files :=
         Some (hash_add (case c_files C of None \<Rightarrow> hash_init 257 | Some h \<Rightarrow> h) name f)\<rparr>) s"

text \<open>\<open>libsize\<close> is an \<open>unsigned int\<close>, \<open>shared\<close> an \<open>unsigned short\<close>.\<close>

definition count_file :: "uid \<Rightarrow> 32 word \<Rightarrow> srv \<Rightarrow> srv" where
  "count_file user sz s =
     (let fsize = uint sz div 1024 in
      upd_user user (\<lambda>U. U\<lparr>u_shared := up16 (u_shared U), u_libsize := (u_libsize U + fsize) mod 2 ^ 32,
          u_sharing := True\<rparr>)
        (s\<lparr>s_Num_Gigs := s_Num_Gigs s + fsize, s_Num_Files := s_Num_Files s + 1,
           s_Local_Files := s_Local_Files s + 1\<rparr>))"

text \<open>The file is given by its record, which is allocated here.\<close>

definition insert_datum :: "datum \<Rightarrow> uid \<Rightarrow> srv \<Rightarrow> srv" where
  "insert_datum d user s =
     (let f = m_next_file (s_misc s); name = d_filename d;
          s = share_datum (user_con s user) name f (upd_misc (new_datum d) s);
          s = upd_misc (\<lambda>m. fold (fdb_add f) (indexed (m_Filter m) name) (ref_datum f m)) s
      in count_file user (d_size d) s)"

text \<open>\<open>strtoul (s, 0, 10)\<close>, assigned to an \<open>unsigned int\<close>.\<close>

definition strtoul32 :: "string \<Rightarrow> 32 word" where
  "strtoul32 s =
     (let s = skip_space s;
          neg = (s \<noteq> [] \<and> hd s = CHR ''-'');
          s = (if s \<noteq> [] \<and> (hd s = CHR ''-'' \<or> hd s = CHR ''+'') then tl s else s);
          v = int (digits_val (takeWhile c_isdigit s))
      in if 2 ^ 64 \<le> v then - 1 else word_of_int (if neg then - v else v))"

text \<open>
  \<open>av[1] - av[0]\<close>: how far apart the first two fields of the packet begin; it is compared with
  \<open>_POSIX_PATH_MAX + 2\<close>.
\<close>

definition unquote :: "string \<Rightarrow> string" where
  "unquote p = (if p \<noteq> [] \<and> hd p = dquote then tl p else p)"

definition field_gap :: "string \<Rightarrow> nat" where
  "field_gap pkt =
     (let p = skip_space pkt; a = unquote p;
          rest = (if a \<noteq> p then (case snd (break_at (\<lambda>c. c = dquote) a) of Some (x # r) \<Rightarrow> skip_space r | _ \<Rightarrow> [])
                  else (case snd (break_at is_sep a) of Some r \<Rightarrow> skip_space r | None \<Rightarrow> []))
      in length a - length (unquote rest))"

definition con_file :: "cid \<Rightarrow> string \<Rightarrow> srv \<Rightarrow> fid option" where
  "con_file con name s = (case c_files (cnx s con) of None \<Rightarrow> None | Some h \<Rightarrow> hash_lookup h name)"

definition too_many :: "uid \<Rightarrow> srv \<Rightarrow> bool" where
  "too_many user s \<longleftrightarrow> Max_Shared (s_cfg s) \<noteq> 0 \<and> Max_Shared (s_cfg s) < int (u_shared (usr s user))"

definition too_many_msg :: "cid \<Rightarrow> srv \<Rightarrow> srv" where
  "too_many_msg con s =
     send_cmd con MSG_SERVER_NOSUCH (''You may only share '' @ int_dec (Max_Shared (s_cfg s)) @ '' files'') s"

definition overflows :: "uid \<Rightarrow> 32 word \<Rightarrow> srv \<Rightarrow> bool" where
  "overflows user sz s \<longleftrightarrow> (u_libsize (usr s user) + uint sz) mod 2 ^ 32 < u_libsize (usr s user)"

definition file_datum :: "uid \<Rightarrow> string \<Rightarrow> 32 word \<Rightarrow> string \<Rightarrow> string \<Rightarrow> string \<Rightarrow> datum" where
  "file_datum user name sz bitrate freq duration =
     \<lparr>d_user = Some user, d_filename = name, d_size = sz, d_duration = nat (atoi duration mod 65536),
      d_bitrate = rate_index BitRate (atoi bitrate), d_frequency = rate_index SampleRate (atoi freq),
      d_type = 0, d_refcount = 0\<rparr>"

definition add_file :: "cid \<Rightarrow> nat \<Rightarrow> string \<Rightarrow> srv \<Rightarrow> srv" where
  "add_file con tag pkt s =
     (if \<not> ISUSER con s then s
      else
        let user = c_user (cnx s con); av = get_args 6 (Some pkt) in
        if too_many user s then too_many_msg con s
        else if length av \<noteq> 6 then unparsable con s
        else if 258 < field_gap pkt then send_cmd con MSG_SERVER_NOSUCH ''filename too long'' s
        else if overflows user (strtoul32 (av ! 2)) s then s
        else if con_file con (av ! 0) s \<noteq> None then send_cmd con MSG_SERVER_NOSUCH ''duplicate file'' s
        else insert_datum (file_datum user (av ! 0) (strtoul32 (av ! 2)) (av ! 3) (av ! 4) (av ! 5)) user s)"

text \<open>The type is the index of its name, from \<open>CT_AUDIO\<close> on.\<close>

definition content_type :: "string \<Rightarrow> nat \<Rightarrow> nat option" where
  "content_type name lo = find (\<lambda>i. strcaseeq (Content_Types ! i) name) [lo..<length Content_Types]"

definition share_file :: "cid \<Rightarrow> nat \<Rightarrow> string \<Rightarrow> srv \<Rightarrow> srv" where
  "share_file con tag pkt s =
     (if \<not> ISUSER con s then s
      else
        let user = c_user (cnx s con); av = get_args 4 (Some pkt) in
        if too_many user s then too_many_msg con s
        else if length av \<noteq> 4 then unparsable con s
        else case content_type (av ! 3) 1 of
          None \<Rightarrow> send_cmd con MSG_SERVER_NOSUCH (av ! 3 @ '' is not a valid type'') s
        | Some type \<Rightarrow>
            if 258 < field_gap pkt then send_cmd con MSG_SERVER_NOSUCH ''filename too long'' s
            else if con_file con (av ! 0) s \<noteq> None then send_cmd con MSG_SERVER_NOSUCH ''duplicate file'' s
            else if overflows user (strtoul32 (av ! 1)) s then s
            else insert_datum \<lparr>d_user = Some user, d_filename = av ! 0, d_size = strtoul32 (av ! 1),
                   d_duration = 0, d_bitrate = 0, d_frequency = 0, d_type = type, d_refcount = 0\<rparr> user s)"

text \<open>Both branches of the code add the difference, which may be negative.\<close>

definition user_sharing :: "cid \<Rightarrow> nat \<Rightarrow> string \<Rightarrow> srv \<Rightarrow> srv" where
  "user_sharing con tag pkt s =
     (if \<not> ISSERVER con s then s
      else
        let av = get_args 3 (Some pkt) in
        if length av \<noteq> 3 then s
        else case hash_lookup (s_Users s) (av ! 0) of
          None \<Rightarrow> s
        | Some user \<Rightarrow>
            let shared = (if atoi (av ! 1) < 0 then 0 else atoi (av ! 1));
                libsize = (if atoi (av ! 1) < 0 then 0 else uint (strtoul32 (av ! 2)));
                s = s\<lparr>s_Num_Files := s_Num_Files s + (shared - int (u_shared (usr s user))),
                      s_Num_Gigs := s_Num_Gigs s + (libsize - u_libsize (usr s user))\<rparr>;
                s = upd_user user (\<lambda>U. U\<lparr>u_shared := nat (shared mod 65536), u_libsize := libsize\<rparr>) s
            in pass_message_args (Some con) tag
                 (u_nick (usr s user) @ '' '' @ nat_dec (u_shared (usr s user)) @ '' '' @
                  int_dec (u_libsize (usr s user))) s)"

text \<open>\<open>n\<close> calls of \<open>next_arg\<close>, none of which may return \<open>NULL\<close>.\<close>

fun pop_args :: "nat \<Rightarrow> string option \<Rightarrow> (string list \<times> string option) option" where
  "pop_args 0 pkt = Some ([], pkt)"
| "pop_args (Suc n) pkt =
     (case next_arg pkt of
        (None, _) \<Rightarrow> None
      | (Some a, pkt) \<Rightarrow> map_option (\<lambda>(as, r). (a # as, r)) (pop_args n pkt))"

definition path_in :: "string \<Rightarrow> string \<Rightarrow> string" where
  "path_in dirbuf base = dirbuf @ take (255 - length dirbuf) base"

fun add_files :: "nat \<Rightarrow> cid \<Rightarrow> string \<Rightarrow> string option \<Rightarrow> srv \<Rightarrow> srv" where
  "add_files 0 con dirbuf pkt s = s"
| "add_files (Suc fuel) con dirbuf pkt s =
     (let user = c_user (cnx s con) in
      if pkt = None then s
      else if too_many user s then too_many_msg con s
      else case pop_args 6 pkt of
        None \<Rightarrow> unparsable con s
      | Some (av, pkt) \<Rightarrow>
          let path = path_in dirbuf (av ! 0); sz = atoi (av ! 2);
              s = (if con_file con path s \<noteq> None then send_cmd con MSG_SERVER_NOSUCH ''Duplicate file'' s
                   else if sz < 1 then send_cmd con MSG_SERVER_NOSUCH ''invalid size'' s
                   else insert_datum (file_datum user path (word_of_int sz) (av ! 3) (av ! 4) (av ! 5)) user s)
          in add_files fuel con dirbuf pkt s)"

text \<open>Each round takes a character of the packet at least.\<close>

definition add_directory :: "cid \<Rightarrow> nat \<Rightarrow> string \<Rightarrow> srv \<Rightarrow> srv" where
  "add_directory con tag pkt s =
     (if \<not> ISUSER con s then s
      else case next_arg (Some pkt) of
        (None, _) \<Rightarrow> s
      | (Some dir, rest) \<Rightarrow>
          if 255 \<le> length dir then s
          else
            let dirbuf = (if dir \<noteq> [] \<and> last dir \<noteq> CHR 0x5C then dir @ [CHR 0x5C] else dir)
            in if dirbuf \<noteq> dir \<and> 255 \<le> length dirbuf then s
               else add_files (Suc (length pkt)) con dirbuf rest s)"

section \<open>Removing a file\<close>

definition unshare :: "cid \<Rightarrow> string \<Rightarrow> srv \<Rightarrow> srv" where
  "unshare con name s =
     (case c_files (cnx s con) of
        None \<Rightarrow> s
      | Some h \<Rightarrow>
          (case hash_remove h name of
             (h', None) \<Rightarrow> s
           | (h', Some f) \<Rightarrow>
               upd_conn con (\<lambda>C. C\<lparr>c_files := Some h'\<rparr>) (upd_misc (\<lambda>m. m\<lparr>m_datums := free_datum f (m_datums m)\<rparr>) s)))"

definition uncount_file :: "uid \<Rightarrow> 32 word \<Rightarrow> srv \<Rightarrow> srv" where
  "uncount_file user sz s =
     (let fsize = uint sz div 1024 in
      upd_user user (\<lambda>U. U\<lparr>u_shared := u_shared U - 1, u_libsize := (u_libsize U - fsize) mod 2 ^ 32,
          u_unsharing := True\<rparr>)
        (s\<lparr>s_Num_Gigs := s_Num_Gigs s - fsize, s_Num_Files := s_Num_Files s - 1,
           s_Local_Files := s_Local_Files s - 1\<rparr>))"

definition remove_file :: "cid \<Rightarrow> nat \<Rightarrow> string \<Rightarrow> srv \<Rightarrow> srv" where
  "remove_file con tag pkt s =
     (if \<not> ISUSER con s then s
      else
        let user = c_user (cnx s con) in
        if u_shared (usr s user) = 0 then send_cmd con MSG_SERVER_NOSUCH ''Not sharing any files'' s
        else case con_file con pkt s of
          None \<Rightarrow> send_cmd con MSG_SERVER_NOSUCH ''Not sharing that file'' s
        | Some f \<Rightarrow>
            let d = the (datums s f) in unshare con (d_filename d) (uncount_file user (d_size d) s))"

section \<open>Collecting garbage\<close>

text \<open>The files of a list that are no longer shared are dropped, and a list that is empty then goes.\<close>

definition dead :: "misc \<Rightarrow> fid \<Rightarrow> bool" where
  "dead m f \<longleftrightarrow> (case m_datums m f of None \<Rightarrow> False | Some d \<Rightarrow> d_size d = - 1)"

definition reap_list :: "flid \<Rightarrow> misc \<Rightarrow> misc" where
  "reap_list l m =
     (case m_flists m l of
        None \<Rightarrow> m
      | Some L \<Rightarrow>
          let gone = filter (dead m) (fl_list L)
          in m\<lparr>m_datums := fold free_datum gone (m_datums m),
               m_flists := (m_flists m)(l \<mapsto> L\<lparr>fl_list := filter (\<lambda>f. \<not> dead m f) (fl_list L),
                                             fl_count := fl_count L - int (length gone)\<rparr>)\<rparr>)"

definition free_flist :: "flid \<Rightarrow> misc \<Rightarrow> misc" where
  "free_flist l m =
     m\<lparr>m_datums := fold free_datum (fl_list (the (m_flists m l))) (m_datums m), m_flists := (m_flists m)(l := None)\<rparr>"

definition collect_garbage :: "flid \<Rightarrow> misc \<Rightarrow> misc" where
  "collect_garbage l m =
     (let m = reap_list l m in
      case m_flists m l of
        None \<Rightarrow> m
      | Some L \<Rightarrow>
          if fl_count L = 0 then
            (case hash_remove (m_File_Table m) (fl_key L) of
               (h, None) \<Rightarrow> m\<lparr>m_File_Table := h\<rparr>
             | (h, Some k) \<Rightarrow> free_flist k (m\<lparr>m_File_Table := h\<rparr>))
          else m)"

definition fdb_garbage_collect :: "srv \<Rightarrow> srv" where
  "fdb_garbage_collect s = upd_misc (\<lambda>m. hash_foreach (m_File_Table m) collect_garbage m) s"

lemmas [handler_defs] = add_file_def share_file_def user_sharing_def add_directory_def remove_file_def

section \<open>The invariant of the members is kept\<close>

lemma same_shape_counts [simp]:
  "same_shape (s\<lparr>s_Num_Gigs := a, s_Num_Files := b, s_Local_Files := c\<rparr>) r = same_shape s r"
  "same_shape (s\<lparr>s_Num_Files := b, s_Num_Gigs := a\<rparr>) r = same_shape s r"
  by (simp_all add: same_shape_def)

lemma index_clients [simp]:
  "m_Num_Clients (ref_datum f m) = m_Num_Clients m" "m_Num_Clients (new_datum d m) = m_Num_Clients m"
  "m_Num_Clients (fdb_add f key m) = m_Num_Clients m" "m_Num_Clients (collect_garbage l m) = m_Num_Clients m"
  "m_Num_Clients (fold (fdb_add f) ks m) = m_Num_Clients m" "m_Num_Clients (fold collect_garbage ls m) = m_Num_Clients m"
proof -
  show a: "m_Num_Clients (ref_datum f m) = m_Num_Clients m" for f m by (simp add: ref_datum_def)
  show "m_Num_Clients (new_datum d m) = m_Num_Clients m" by (simp add: new_datum_def)
  show b: "m_Num_Clients (fdb_add f key m) = m_Num_Clients m" for key m
    by (simp add: fdb_add_def word_list_def push_file_def a split: option.split)
  show c: "m_Num_Clients (collect_garbage l m) = m_Num_Clients m" for l m
    by (simp add: collect_garbage_def Let_def reap_list_def free_flist_def split: option.split prod.split)
  show "m_Num_Clients (fold (fdb_add f) ks m) = m_Num_Clients m" by (induction ks arbitrary: m) (simp_all add: b)
  show "m_Num_Clients (fold collect_garbage ls m) = m_Num_Clients m" by (induction ls arbitrary: m) (simp_all add: c)
qed

lemma same_shape_sharing_parts [simp]:
  "same_shape (insert_datum d u s) r = same_shape s r" "same_shape (unshare c n s) r = same_shape s r"
  "same_shape (uncount_file u z s) r = same_shape s r" "same_shape (too_many_msg c s) r = same_shape s r"
  by (simp_all add: insert_datum_def count_file_def share_datum_def unshare_def uncount_file_def too_many_msg_def
      shape_simps split: option.split prod.split)

lemma same_shape_add_files: "same_shape (add_files fuel con dir pkt s) s"
proof (induction fuel con dir pkt s rule: add_files.induct)
  case (2 fuel con dir pkt s)
  show ?case
  proof (cases "pkt = None \<or> too_many (c_user (cnx s con)) s \<or> pop_args 6 pkt = None")
    case False
    then obtain av r where p: "pop_args 6 pkt = Some (av, r)" by auto
    let ?path = "path_in dir (av ! 0)"
    let ?s = "if con_file con ?path s \<noteq> None then send_cmd con MSG_SERVER_NOSUCH ''Duplicate file'' s
       else if atoi (av ! 2) < 1 then send_cmd con MSG_SERVER_NOSUCH ''invalid size'' s
       else insert_datum (file_datum (c_user (cnx s con)) ?path (word_of_int (atoi (av ! 2))) (av ! 3) (av ! 4) (av ! 5))
              (c_user (cnx s con)) s"
    have "same_shape (add_files fuel con dir r ?s) ?s" using 2 [OF refl _ _ p refl refl refl refl] False by simp
    moreover have "same_shape ?s s" by simp
    ultimately have "same_shape (add_files fuel con dir r ?s) s" by (rule same_shape_trans)
    then show ?thesis using False p by (simp add: Let_def)
  qed (auto simp: Let_def split: option.split)
qed simp

lemma shape_add_file: "same_shape (add_file con tag pkt s) s"
  by (simp add: add_file_def Let_def)

lemma shape_share_file: "same_shape (share_file con tag pkt s) s"
  by (simp add: share_file_def Let_def split: option.split)

lemma shape_user_sharing: "same_shape (user_sharing con tag pkt s) s"
  by (simp add: user_sharing_def shape_simps split: option.split)

lemma shape_add_directory: "same_shape (add_directory con tag pkt s) s"
  by (simp add: add_directory_def Let_def same_shape_add_files del: add_files.simps split: prod.split option.split)

lemma shape_remove_file: "same_shape (remove_file con tag pkt s) s"
  by (simp add: remove_file_def Let_def split: option.split)

lemma shape_garbage_collect: "same_shape (fdb_garbage_collect s) s"
  by (simp add: fdb_garbage_collect_def hash_foreach_def)

lemmas shape_sharing = shape_add_file shape_share_file shape_user_sharing shape_add_directory shape_remove_file
  shape_garbage_collect

end
