(* ===== verification/Searching.thy ===== *)
theory Searching
  imports Sharing
begin

text \<open>
  Searching and browsing the shared files, and setting up transfers (\<open>src/search.c\<close>, \<open>src/browse.c\<close>,
  \<open>src/upload_complete.c\<close>, \<open>src/resume.c\<close> and the rest of \<open>src/download.c\<close>).
\<close>

section \<open>Matching files\<close>

text \<open>The parameters of a search; the type -1 would be any type.\<close>

record search_parms =
  sr_con :: cid
  sr_user :: uid
  sr_minbitrate :: int
  sr_maxbitrate :: int
  sr_minfreq :: int
  sr_maxfreq :: int
  sr_minspeed :: int
  sr_maxspeed :: int
  sr_type :: int
  sr_id :: "string option"

abbreviation (input) NO_HASH :: string where "NO_HASH \<equiv> ''00000000000000000000000000000000''"

abbreviation bit_rate :: "datum \<Rightarrow> int" where "bit_rate d \<equiv> int (BitRate ! d_bitrate d)"
abbreviation sample_rate :: "datum \<Rightarrow> int" where "sample_rate d \<equiv> int (SampleRate ! d_frequency d)"

text \<open>\<open>%d\<close> of the unsigned size.\<close>

abbreviation size_dec :: "datum \<Rightarrow> string" where "size_dec d \<equiv> int_dec (sint (d_size d))"
abbreviation quoted :: "string \<Rightarrow> string" where "quoted t \<equiv> [dquote] @ t @ [dquote]"

definition acceptable :: "search_parms \<Rightarrow> datum \<Rightarrow> srv \<Rightarrow> bool" where
  "acceptable q d s \<longleftrightarrow>
     (let U = usr s (the (d_user d)) in
      d_user d \<noteq> Some (sr_user q) \<and> \<not> (u_port (usr s (sr_user q)) = 0 \<and> u_port U = 0) \<and>
      sr_minbitrate q \<le> bit_rate d \<and> bit_rate d \<le> sr_maxbitrate q \<and>
      sr_minspeed q \<le> int (u_speed U) \<and> int (u_speed U) \<le> sr_maxspeed q \<and>
      sr_minfreq q \<le> sample_rate d \<and> sample_rate d \<le> sr_maxfreq q \<and>
      (sr_type q = - 1 \<or> sr_type q = int (d_type d)))"

definition result_text :: "datum \<Rightarrow> srv \<Rightarrow> string" where
  "result_text d s =
     (let U = usr s (the (d_user d)) in
      quoted (d_filename d) @ '' '' @ NO_HASH @ '' '' @ size_dec d @ '' '' @ int_dec (bit_rate d) @ '' '' @
      int_dec (sample_rate d) @ '' '' @ nat_dec (d_duration d) @ '' '' @ u_nick U @ '' '' @
      nat_dec (unat (u_ip U)) @ '' '' @ nat_dec (u_speed U))"

definition send_match :: "search_parms \<Rightarrow> datum \<Rightarrow> srv \<Rightarrow> srv" where
  "send_match q d s =
     (case sr_id q of
        Some sid \<Rightarrow>
          send_cmd (sr_con q) MSG_SERVER_REMOTE_SEARCH_RESULT
            (sid @ '' '' @ u_nick (usr s (the (d_user d))) @ '' '' @ quoted (d_filename d) @ '' '' @ NO_HASH @ '' '' @
             size_dec d @ '' '' @ int_dec (bit_rate d) @ '' '' @ int_dec (sample_rate d) @ '' '' @
             nat_dec (d_duration d)) s
      | None \<Rightarrow> send_cmd (sr_con q) MSG_SERVER_SEARCH_RESULT (result_text d s) s)"

definition search_callback :: "datum \<Rightarrow> search_parms \<Rightarrow> srv \<Rightarrow> bool \<times> srv" where
  "search_callback d q s = (if acceptable q d s then (True, send_match q d s) else (False, s))"

text \<open>
  One token of \<open>match\<close>.  \<open>strpbrk\<close> with the first character of an empty token finds nothing.
\<close>

fun find_token :: "string \<Rightarrow> string \<Rightarrow> bool" where
  "find_token a [] = False"
| "find_token a (x # b) =
     (a \<noteq> [] \<and> (((x = c_tolower (hd a) \<or> x = c_toupper (hd a)) \<and> strncaseeq b (tl a) (length a - 1)) \<or>
                 find_token a b))"

definition match_tokens :: "string list \<Rightarrow> string \<Rightarrow> bool" where
  "match_tokens tokens name \<longleftrightarrow> list_all (\<lambda>a. find_token a name) tokens"

text \<open>The list with the fewest files; \<open>None\<close> when a token has no list.\<close>

fun smallest :: "misc \<Rightarrow> string list \<Rightarrow> flid option \<Rightarrow> flid option" where
  "smallest m [] best = best"
| "smallest m (t # ts) best =
     (case hash_lookup (m_File_Table m) t of
        None \<Rightarrow> None
      | Some l \<Rightarrow>
          smallest m ts
            (case best of
               None \<Rightarrow> Some l
             | Some b \<Rightarrow> if fl_count (the (m_flists m l)) < fl_count (the (m_flists m b)) then Some l else Some b))"

fun search_list :: "string list \<Rightarrow> int \<Rightarrow> search_parms \<Rightarrow> fid list \<Rightarrow> int \<Rightarrow> srv \<Rightarrow> int \<times> srv" where
  "search_list tokens maxhits q [] hits s = (hits, s)"
| "search_list tokens maxhits q (f # fs) hits s =
     (let d = the (datums s f) in
      if d_size d \<noteq> - 1 \<and> match_tokens tokens (d_filename d) then
        (case search_callback d q s of
           (True, s) \<Rightarrow> if hits + 1 = maxhits then (hits + 1, s) else search_list tokens maxhits q fs (hits + 1) s
         | (False, s) \<Rightarrow> search_list tokens maxhits q fs hits s)
      else search_list tokens maxhits q fs hits s)"

definition fdb_search :: "string list \<Rightarrow> int \<Rightarrow> search_parms \<Rightarrow> srv \<Rightarrow> int \<times> srv" where
  "fdb_search tokens maxhits q s =
     (let s = upd_misc (\<lambda>m. m\<lparr>m_Search_Count := m_Search_Count m + 1\<rparr>) s in
      case smallest (s_misc s) tokens None of
        None \<Rightarrow> (0, s)
      | Some l \<Rightarrow> search_list tokens maxhits q (fl_list (the (flists s l))) 0 s)"

section \<open>Requests\<close>

definition MAX_SPEED :: int where "MAX_SPEED = 10"
definition MAX_BITRATE :: int where "MAX_BITRATE = 0xFFFF"
definition MAX_FREQUENCY :: int where "MAX_FREQUENCY = 0xFFFF"

definition generate_qualifier :: "string \<Rightarrow> int \<Rightarrow> int \<Rightarrow> int \<Rightarrow> string" where
  "generate_qualifier attr lo hi hardmax =
     (if 0 < lo then '' '' @ attr @ '' '' @ quoted (if lo = hi then ''EQUAL TO'' else ''AT LEAST'') @ '' '' @ int_dec lo
      else if hi < hardmax then '' '' @ attr @ '' '' @ quoted ''AT BEST'' @ '' '' @ int_dec hi
      else [])"

text \<open>The pieces are written one behind the other into a buffer of 2048 bytes.\<close>

definition generate_request :: "int \<Rightarrow> string list \<Rightarrow> search_parms \<Rightarrow> string" where
  "generate_request results tokens q =
     snprintf_to 2048
       (''FILENAME CONTAINS '' @ [dquote] @ concat (map (\<lambda>t. t @ '' '') tokens) @ [dquote] @
        '' MAX_RESULTS '' @ int_dec results @
        (if sr_type q \<noteq> 0 then '' TYPE '' @ Content_Types ! nat (sr_type q) else []) @
        generate_qualifier ''BITRATE'' (sr_minbitrate q) (sr_maxbitrate q) MAX_BITRATE @
        generate_qualifier ''FREQ'' (sr_minfreq q) (sr_maxfreq q) MAX_FREQUENCY @
        generate_qualifier ''LINESPEED'' (sr_minspeed q) (sr_maxspeed q) MAX_SPEED)"

definition generate_search_id :: "srv \<Rightarrow> string \<times> srv" where
  "generate_search_id s =
     (map (\<lambda>i. char_of (65 + s_rand s i mod 26)) [0..<8], s\<lparr>s_rand := (\<lambda>i. s_rand s (i + 8))\<rparr>)"

text \<open>What has been read of a search, and how its reading may end.\<close>

record query =
  q_tokens :: "string list"
  q_max :: int
  q_parms :: search_parms
  q_local :: bool

datatype clause = More query "string option" | Invalid | Refused

text \<open>\<open>strtol (s, &ptr, 10)\<close>, assigned to an \<open>int\<close>, where \<open>*ptr\<close> must be 0; \<open>ptr\<close> is \<open>s\<close> when there is no number.\<close>

definition number :: "string \<Rightarrow> int option" where
  "number s =
     (let t = skip_space s;
          u = (if t \<noteq> [] \<and> (hd t = CHR ''-'' \<or> hd t = CHR ''+'') then tl t else t)
      in if s = [] then Some 0 else if u \<noteq> [] \<and> list_all c_isdigit u then Some (atoi s) else None)"

text \<open>\<open>set_compare\<close>, with the assignments to \<open>*min\<close> and \<open>*max\<close>; \<open>None\<close> is its value 1.\<close>

definition set_compare :: "cid \<Rightarrow> string \<Rightarrow> int \<Rightarrow> int \<times> int \<Rightarrow> srv \<Rightarrow> (int \<times> int) option \<times> srv" where
  "set_compare con oper val mm s =
     (if strcaseeq oper ''equal to'' then (Some (val, val), s)
      else if strcaseeq oper ''at least'' then (Some (val, snd mm), s)
      else if strcaseeq oper ''at best'' then (Some (fst mm, val), s)
      else if ISUSER con s then (None, send_cmd con MSG_SERVER_NOSUCH (oper @ '': invalid comparison for search'') s)
      else (Some mm, s))"

definition get_range :: "nat \<Rightarrow> search_parms \<Rightarrow> int \<times> int" where
  "get_range i p =
     (if i = 1 then (sr_minspeed p, sr_maxspeed p) else if i = 2 then (sr_minbitrate p, sr_maxbitrate p)
      else (sr_minfreq p, sr_maxfreq p))"

definition set_range :: "nat \<Rightarrow> int \<times> int \<Rightarrow> search_parms \<Rightarrow> search_parms" where
  "set_range i mm p =
     (if i = 1 then p\<lparr>sr_minspeed := fst mm, sr_maxspeed := snd mm\<rparr>
      else if i = 2 then p\<lparr>sr_minbitrate := fst mm, sr_maxbitrate := snd mm\<rparr>
      else p\<lparr>sr_minfreq := fst mm, sr_maxfreq := snd mm\<rparr>)"

definition attribute :: "string \<Rightarrow> nat option" where
  "attribute arg =
     (if strcaseeq ''linespeed'' arg then Some 1 else if strcaseeq ''bitrate'' arg then Some 2
      else if strcaseeq ''freq'' arg then Some 3 else None)"

text \<open>The clauses of a search, each with the word that begins it taken.\<close>

definition filename_clause :: "string option \<Rightarrow> query \<Rightarrow> srv \<Rightarrow> clause" where
  "filename_clause pkt q s =
     (case next_arg pkt of
        (Some arg, pkt) \<Rightarrow>
          (case next_arg pkt of
             (Some arg1, pkt) \<Rightarrow>
               if strcaseeq ''contains'' arg
               then More (q\<lparr>q_tokens := q_tokens q @ tokenize (m_Filter (s_misc s)) arg1\<rparr>) pkt
               else Invalid
           | _ \<Rightarrow> Invalid)
      | _ \<Rightarrow> Invalid)"

definition cap :: "int \<Rightarrow> int \<Rightarrow> int" where
  "cap limit n = (if 0 < limit \<and> limit < n then limit else n)"

definition results_clause :: "string option \<Rightarrow> query \<Rightarrow> srv \<Rightarrow> clause" where
  "results_clause pkt q s =
     (case next_arg pkt of
        (Some arg, pkt) \<Rightarrow>
          (case number arg of
             None \<Rightarrow> Invalid
           | Some n \<Rightarrow> More (q\<lparr>q_max := cap (Max_Search_Results (s_cfg s)) n\<rparr>) pkt)
      | _ \<Rightarrow> Invalid)"

definition type_clause :: "cid \<Rightarrow> string option \<Rightarrow> query \<Rightarrow> srv \<Rightarrow> clause \<times> srv" where
  "type_clause con pkt q s =
     (case next_arg pkt of
        (Some arg, pkt) \<Rightarrow>
          (case content_type arg 0 of
             Some n \<Rightarrow> (More (q\<lparr>q_parms := (q_parms q)\<lparr>sr_type := int n\<rparr>\<rparr>) pkt, s)
           | None \<Rightarrow> (Refused, tell_user con (arg @ '': invalid type for search'') s))
      | _ \<Rightarrow> (Invalid, s))"

definition range_clause :: "nat \<Rightarrow> cid \<Rightarrow> string option \<Rightarrow> query \<Rightarrow> srv \<Rightarrow> clause \<times> srv" where
  "range_clause i con pkt q s =
     (case next_arg pkt of
        (Some arg, pkt) \<Rightarrow>
          (case next_arg pkt of
             (Some arg1, pkt) \<Rightarrow>
               (case number arg1 of
                  None \<Rightarrow> (Invalid, s)
                | Some n \<Rightarrow>
                    (case set_compare con arg n (get_range i (q_parms q)) s of
                       (None, s) \<Rightarrow> (Refused, s)
                     | (Some mm, s) \<Rightarrow> (More (q\<lparr>q_parms := set_range i mm (q_parms q)\<rparr>) pkt, s)))
           | _ \<Rightarrow> (Invalid, s))
      | _ \<Rightarrow> (Invalid, s))"

definition search_clause :: "cid \<Rightarrow> string \<Rightarrow> string option \<Rightarrow> query \<Rightarrow> srv \<Rightarrow> clause \<times> srv" where
  "search_clause con arg pkt q s =
     (if strcaseeq ''filename'' arg then (filename_clause pkt q s, s)
      else if strcaseeq ''max_results'' arg then (results_clause pkt q s, s)
      else if strcaseeq ''type'' arg then type_clause con pkt q s
      else case attribute arg of
        Some i \<Rightarrow> range_clause i con pkt q s
      | None \<Rightarrow> if strcaseeq ''local'' arg then (More (q\<lparr>q_local := True\<rparr>) pkt, s) else (Invalid, s))"

definition left :: "string option \<Rightarrow> nat" where
  "left pkt = (case pkt of None \<Rightarrow> 0 | Some p \<Rightarrow> Suc (length p))"

lemma next_arg_left: "next_arg pkt = (Some a, r) \<Longrightarrow> left r < left pkt"
  using next_arg_shorter by (cases pkt; cases r) (auto simp: left_def next_arg_def)

lemma search_clause_left:
  "search_clause con arg pkt q s = (More r p, t) \<Longrightarrow> left p \<le> left pkt"
  by (auto simp: search_clause_def filename_clause_def results_clause_def type_clause_def range_clause_def
      split: if_splits option.splits prod.splits dest!: next_arg_left)

text \<open>The loop over the clauses: \<open>More\<close> with a packet that is used up is a search that was read.\<close>

function parse_search :: "cid \<Rightarrow> string option \<Rightarrow> query \<Rightarrow> srv \<Rightarrow> clause \<times> srv" where
  "parse_search con pkt q s =
     (case next_arg pkt of
        (None, pkt) \<Rightarrow> (More q None, s)
      | (Some arg, pkt) \<Rightarrow>
          (case search_clause con arg pkt q s of
             (More q pkt, s) \<Rightarrow> parse_search con pkt q s
           | (r, s) \<Rightarrow> (r, s)))"
  by pat_completeness auto
termination
  by (relation "measure (\<lambda>(con, pkt, q, s). left pkt)")
    (auto dest!: next_arg_left [OF sym] search_clause_left [OF sym])

declare parse_search.simps [simp del]

text \<open>The request goes on to the other servers, which will answer later.\<close>

definition ask_servers :: "cid \<Rightarrow> uid \<Rightarrow> string option \<Rightarrow> int \<Rightarrow> query \<Rightarrow> srv \<Rightarrow> srv" where
  "ask_servers con user sid n q s =
     (let (i, s) = (case sid of Some i \<Rightarrow> (i, s) | None \<Rightarrow> generate_search_id s);
          servers = int (length (s_Servers s));
          d = \<lparr>ds_con = con, ds_nick = u_nick (usr s user), ds_id = i, ds_count = 0,
               ds_numServers = (if ISSERVER con s then servers - 1 else servers), ds_timestamp = s_time s\<rparr>;
          s = upd_searches (\<lambda>ds. ds @ [d]) s
      in pass_message_args (Some con) MSG_SERVER_REMOTE_SEARCH
           (ds_nick d @ '' '' @ i @ '' '' @ generate_request (q_max q - n) (q_tokens q) (q_parms q)) s)"

definition search_done :: "cid \<Rightarrow> string option \<Rightarrow> srv \<Rightarrow> srv" where
  "search_done con sid s =
     (if ISUSER con s then send_cmd con MSG_SERVER_SEARCH_END [] s
      else send_cmd con MSG_SERVER_REMOTE_SEARCH_END (the sid) s)"

definition new_query :: "cid \<Rightarrow> uid \<Rightarrow> string option \<Rightarrow> srv \<Rightarrow> query" where
  "new_query con user sid s =
     \<lparr>q_tokens = [], q_max = Max_Search_Results (s_cfg s),
      q_parms = \<lparr>sr_con = con, sr_user = user, sr_minbitrate = 0, sr_maxbitrate = MAX_BITRATE, sr_minfreq = 0,
                 sr_maxfreq = MAX_FREQUENCY, sr_minspeed = 0, sr_maxspeed = MAX_SPEED, sr_type = 0, sr_id = sid\<rparr>,
      q_local = False\<rparr>"

definition search_internal :: "cid \<Rightarrow> uid \<Rightarrow> string option \<Rightarrow> string option \<Rightarrow> srv \<Rightarrow> srv" where
  "search_internal con user sid pkt s =
     (case parse_search con pkt (new_query con user sid s) s of
        (Invalid, s) \<Rightarrow> search_done con sid (tell_user con ''invalid search request'' s)
      | (Refused, s) \<Rightarrow> search_done con sid s
      | (More q _, s) \<Rightarrow>
          (case fdb_search (q_tokens q) (q_max q) (q_parms q) s of
             (n, s) \<Rightarrow>
               if n < q_max q \<and> \<not> q_local q \<and>
                  (ISSERVER con s \<and> 1 < length (s_Servers s) \<or> ISUSER con s \<and> s_Servers s \<noteq> [])
               then ask_servers con user sid n q s
               else search_done con sid s))"

definition search :: "cid \<Rightarrow> nat \<Rightarrow> string \<Rightarrow> srv \<Rightarrow> srv" where
  "search con tag pkt s =
     (if \<not> ISUSER con s then s else search_internal con (c_user (cnx s con)) None (Some pkt) s)"

definition remote_search :: "cid \<Rightarrow> nat \<Rightarrow> string \<Rightarrow> srv \<Rightarrow> srv" where
  "remote_search con tag pkt s =
     (if \<not> ISSERVER con s then s
      else
        let (nick, pkt) = next_arg (Some pkt); (sid, pkt) = next_arg pkt in
        case (nick, sid, pkt) of
          (Some nick, Some sid, Some pkt) \<Rightarrow>
            (case hash_lookup (s_Users s) nick of
               None \<Rightarrow> send_cmd con MSG_SERVER_REMOTE_SEARCH_END sid s
             | Some user \<Rightarrow> search_internal con user (Some sid) (Some pkt) s)
        | _ \<Rightarrow> (case sid of Some sid \<Rightarrow> send_cmd con MSG_SERVER_REMOTE_SEARCH_END sid s | None \<Rightarrow> s))"

end
