(* ===== verification/Browse.thy ===== *)
theory Browse
  imports Searching
begin

text \<open>
  Browsing the files of a user (\<open>src/browse.c\<close>) and setting up transfers between users (\<open>src/download.c\<close>,
  \<open>src/upload_complete.c\<close>, \<open>src/resume.c\<close>).
\<close>

section \<open>Browsing\<close>

definition wrap16 :: "int \<Rightarrow> int" where
  "wrap16 n = sint (word_of_int n :: 16 word)"

text \<open>The fields \<open>sender\<close>, \<open>max\<close> and \<open>count\<close> of the context; the last is returned.\<close>

definition browse_callback :: "uid \<Rightarrow> int \<Rightarrow> fid \<Rightarrow> int \<times> srv \<Rightarrow> int \<times> srv" where
  "browse_callback sender limit f = (\<lambda>(count, s).
     if limit = 0 \<or> count < limit then
       let d = the (datums s f) in
       (wrap16 (count + 1),
        send_user sender MSG_SERVER_BROWSE_RESPONSE
          (u_nick (usr s (the (d_user d))) @ '' '' @ quoted (d_filename d) @ '' '' @ NO_HASH @ '' '' @ size_dec d @
           '' '' @ int_dec (bit_rate d) @ '' '' @ int_dec (sample_rate d) @ '' '' @ nat_dec (d_duration d)) s)
     else (count, s))"

definition browse_limit :: "string option \<Rightarrow> srv \<Rightarrow> int" where
  "browse_limit pkt s =
     wrap16 (cap (Max_Browse_Result (s_cfg s)) (wrap16 (case pkt of None \<Rightarrow> 0 | Some p \<Rightarrow> atoi p)))"

definition browse :: "cid \<Rightarrow> nat \<Rightarrow> string \<Rightarrow> srv \<Rightarrow> srv" where
  "browse con tag pkt s =
     (case pop_user con pkt s of
        None \<Rightarrow> s
      | Some (None, sender) \<Rightarrow> unparsable con s
      | Some (Some p, sender) \<Rightarrow>
          (case next_arg (Some p) of
             (nick, pkt) \<Rightarrow>
               let nick = nonull nick in
               if invalid_nick s nick then invalid_nick_msg con s
               else case hash_lookup (s_Users s) nick of
                 None \<Rightarrow>
                   if ISUSER con s
                   then send_cmd con MSG_SERVER_BROWSE_END nick (send_cmd con MSG_SERVER_USER_SIGNOFF nick s)
                   else s
               | Some user \<Rightarrow>
                   let d = user_con s user in
                   if ISUSER d s then
                     let s = (case c_files (cnx s d) of
                                None \<Rightarrow> s
                              | Some h \<Rightarrow> snd (hash_foreach h (browse_callback sender (browse_limit pkt s)) (0, s)))
                     in send_user sender MSG_SERVER_BROWSE_END (u_nick (usr s user)) s
                   else
                     send_cmd d tag ('':'' @ u_nick (usr s sender) @ '' '' @ u_nick (usr s user) @ '' '' @
                       int_dec (case pkt of Some p \<Rightarrow> atoi p | None \<Rightarrow> Max_Browse_Result (s_cfg s))) s))"

text \<open>\<open>strcasecmp (a, b) <= 0\<close>: the bytes in lower case, as unsigned numbers.\<close>

fun strcase_le :: "string \<Rightarrow> string \<Rightarrow> bool" where
  "strcase_le [] b = True"
| "strcase_le (x # a) [] = False"
| "strcase_le (x # a) (y # b) =
     (code (c_tolower x) < code (c_tolower y) \<or> c_tolower x = c_tolower y \<and> strcase_le a b)"

fun create_file_list :: "(fid \<Rightarrow> string) \<Rightarrow> fid \<Rightarrow> fid list \<Rightarrow> fid list" where
  "create_file_list name d [] = [d]"
| "create_file_list name d (f # fs) =
     (if strcase_le (name d) (name f) then d # f # fs else f # create_file_list name d fs)"

definition is_slash :: "char \<Rightarrow> bool" where
  "is_slash c \<longleftrightarrow> c = CHR ''/'' \<or> c = CHR 0x5C"

text \<open>The index of the last slash behind the first character, or 0; for an empty name \<open>s + 1\<close> is outside of it.\<close>

definition last_slash :: "string \<Rightarrow> nat option" where
  "last_slash s = (if s = [] then None else Some (last (0 # filter (\<lambda>i. is_slash (s ! i)) [1..<length s])))"

definition dirname :: "string \<Rightarrow> string option" where
  "dirname s = (let d = take 255 s in map_option (\<lambda>p. take p d) (last_slash d))"

definition my_basename :: "string \<Rightarrow> string option" where
  "my_basename s = map_option (\<lambda>p. take 255 (drop (Suc p) s)) (last_slash s)"

definition browse_entry :: "string \<Rightarrow> datum \<Rightarrow> string" where
  "browse_entry base d =
     quoted base @ '' 0 '' @ size_dec d @ '' '' @ int_dec (bit_rate d) @ '' '' @ int_dec (sample_rate d) @ '' '' @
     nat_dec (d_duration d)"

text \<open>Up to six files of one directory are put into one message.\<close>

fun browse_files :: "uid \<Rightarrow> uid \<Rightarrow> fid list \<Rightarrow> string \<Rightarrow> nat \<Rightarrow> string option \<Rightarrow> srv \<Rightarrow> (string option \<times> srv) option" where
  "browse_files sender user [] dir count rsp s = Some (rsp, s)"
| "browse_files sender user (f # fs) dir count rsp s =
     (let d = the (datums s f) in
      case (dirname (d_filename d), my_basename (d_filename d)) of
        (Some path, Some base) \<Rightarrow>
          if count < 5 \<and> dir \<noteq> [] \<and> strcaseeq dir path then
            browse_files sender user fs dir (Suc count)
              (Some (append_string (nonull rsp) ('' '' @ browse_entry base d))) s
          else
            let s = (case rsp of None \<Rightarrow> s | Some r \<Rightarrow> send_user sender MSG_SERVER_BROWSE_RESULT_NEW r s)
            in browse_files sender user fs path 0
                 (Some (append_string [] (u_nick (usr s user) @ '' '' @ quoted path @ '' '' @ browse_entry base d))) s
      | _ \<Rightarrow> None)"

text \<open>0 stands for the greatest \<open>int\<close>; a negative count is not used up.\<close>

definition browse_count :: "int \<Rightarrow> 'a list \<Rightarrow> 'a list" where
  "browse_count results fs = (if results < 0 then fs else take (nat (if results = 0 then 0x7FFFFFFF else results)) fs)"

definition browse_results :: "string option \<Rightarrow> srv \<Rightarrow> int" where
  "browse_results pkt s =
     (case pkt of None \<Rightarrow> Max_Browse_Result (s_cfg s) | Some p \<Rightarrow> cap (Max_Browse_Result (s_cfg s)) (atoi p))"

definition browse_new :: "cid \<Rightarrow> nat \<Rightarrow> string \<Rightarrow> srv \<Rightarrow> srv option" where
  "browse_new con tag pkt s =
     (case pop_user con pkt s of
        None \<Rightarrow> Some s
      | Some (pkt, sender) \<Rightarrow>
          (case next_arg pkt of
             (None, _) \<Rightarrow> Some (unparsable con s)
           | (Some nick, pkt) \<Rightarrow>
               (case hash_lookup (s_Users s) nick of
                  None \<Rightarrow> Some (send_user sender tag nick (tell_user con ''browse failed: no such user'' s))
                | Some user \<Rightarrow>
                    let results = browse_results pkt s; d = user_con s user in
                    if ISUSER d s then
                      map_option (send_user sender tag (u_nick (usr s user)))
                        (case c_files (cnx s d) of
                           None \<Rightarrow> Some s
                         | Some h \<Rightarrow>
                             let name = (\<lambda>f. d_filename (the (datums s f)));
                                 fs = hash_foreach h (create_file_list name) []
                             in map_option (\<lambda>(rsp, s). case rsp of
                                    None \<Rightarrow> s
                                  | Some r \<Rightarrow> send_user sender MSG_SERVER_BROWSE_RESULT_NEW r s)
                                  (browse_files sender user (browse_count results fs) [] 0 None s))
                    else
                      Some (send_cmd d tag ('':'' @ u_nick (usr s sender) @ '' '' @ u_nick (usr s user) @ '' '' @
                        int_dec results) s))))"

section \<open>Transfers\<close>

text \<open>A file and its owner, as the one who wants it is told: address, port, name, hash and speed.\<close>

definition file_ready :: "user \<Rightarrow> string \<Rightarrow> string \<Rightarrow> string" where
  "file_ready U name hash =
     u_nick U @ '' '' @ nat_dec (unat (u_ip U)) @ '' '' @ nat_dec (u_port U) @ '' '' @ quoted name @ '' '' @ hash @
     '' '' @ nat_dec (u_speed U)"

definition download :: "cid \<Rightarrow> nat \<Rightarrow> string \<Rightarrow> srv \<Rightarrow> srv" where
  "download con tag pkt s =
     (case pop_user con pkt s of
        None \<Rightarrow> s
      | Some (pkt, sender) \<Rightarrow>
          let av = get_args 2 pkt in
          if length av < 2 then unparsable con s
          else case hash_lookup (s_Users s) (av ! 0) of
            None \<Rightarrow> send_user sender MSG_SERVER_SEND_ERROR (av ! 0 @ '' '' @ quoted (av ! 1)) s
          | Some user \<Rightarrow>
              let d = user_con s user; U = usr s user; S = usr s sender in
              if ISUSER d s \<and> is_ignoring (c_ignore (cnx s d)) (u_nick S)
              then send_user sender MSG_SERVER_NOSUCH (u_nick U @ '' is ignoring you'') s
              else if ISUSER d s \<and> con_file d (av ! 1) s = None
              then send_user sender MSG_SERVER_SEND_ERROR (u_nick U @ '' '' @ quoted (av ! 1)) s
              else if tag = MSG_CLIENT_DOWNLOAD \<and> u_port U = 0 then
                (if ISUSER d s then send_user sender MSG_SERVER_FILE_READY (file_ready U (av ! 1) NO_HASH) s
                 else send_cmd d tag ('':'' @ u_nick S @ '' '' @ u_nick U @ '' '' @ quoted (av ! 1)) s)
              else if tag \<noteq> MSG_CLIENT_DOWNLOAD \<and> u_port U \<noteq> 0
              then send_cmd con MSG_SERVER_NOSUCH (u_nick U @ '' is not firewalled'') s
              else if tag \<noteq> MSG_CLIENT_DOWNLOAD \<and> u_port S = 0
              then send_cmd con MSG_SERVER_FILE_READY (file_ready U (av ! 1) ''firewallerror'') s
              else if ISUSER d s
              then send_cmd d MSG_SERVER_UPLOAD_REQUEST (u_nick S @ '' '' @ quoted (av ! 1)) s
              else send_cmd d MSG_SERVER_UPLOAD_REQUEST
                     ('':'' @ u_nick S @ '' '' @ u_nick U @ '' '' @ quoted (av ! 1)) s)"

definition upload_request :: "cid \<Rightarrow> nat \<Rightarrow> string \<Rightarrow> srv \<Rightarrow> srv" where
  "upload_request con tag pkt s =
     (if \<not> ISSERVER con s then s
      else
        let av = get_args 3 (Some pkt) in
        if length av \<noteq> 3 then s
        else if av ! 0 = [] \<or> hd (av ! 0) \<noteq> CHR '':'' then s
        else case hash_lookup (s_Users s) (av ! 1) of
          None \<Rightarrow> nosuchuser con s
        | Some recip \<Rightarrow>
            let d = user_con s recip in
            if ISUSER d s then
              (if con_file d (av ! 2) s = None then s
               else send_cmd d MSG_SERVER_UPLOAD_REQUEST (tl (av ! 0) @ '' '' @ quoted (av ! 2)) s)
            else pass_message_args (Some d) MSG_SERVER_UPLOAD_REQUEST
                   (av ! 0 @ '' '' @ u_nick (usr s recip) @ '' '' @ quoted (av ! 2)) s)"

definition queue_limit :: "cid \<Rightarrow> nat \<Rightarrow> string \<Rightarrow> srv \<Rightarrow> srv" where
  "queue_limit con tag pkt s =
     (if \<not> ISUSER con s then s
      else
        let av = get_args 3 (Some pkt) in
        if length av \<noteq> 3 then unparsable con s
        else case hash_lookup (s_Users s) (av ! 0) of
          None \<Rightarrow> nosuchuser con s
        | Some recip \<Rightarrow>
            (case con_file con (av ! 1) s of
               None \<Rightarrow> send_cmd con MSG_SERVER_NOSUCH ''Not sharing that file'' s
             | Some f \<Rightarrow>
                 send_user recip MSG_SERVER_LIMIT
                   (u_nick (usr s (c_user (cnx s con))) @ '' '' @ quoted (av ! 1) @ '' '' @
                    size_dec (the (datums s f)) @ '' '' @ av ! 2) s))"

definition upload_ok :: "cid \<Rightarrow> nat \<Rightarrow> string \<Rightarrow> srv \<Rightarrow> srv" where
  "upload_ok con tag pkt s =
     (if \<not> ISUSER con s then s
      else
        let av = get_args 2 (Some pkt) in
        if length av \<noteq> 2 then unparsable con s
        else case hash_lookup (s_Users s) (av ! 0) of
          None \<Rightarrow> nosuchuser con s
        | Some recip \<Rightarrow>
            if con_file con (av ! 1) s = None then send_cmd con MSG_SERVER_NOSUCH ''Not sharing that file'' s
            else
              let U = usr s (c_user (cnx s con)) in
              if u_port U = 0 then send_cmd con MSG_SERVER_UPLOAD_FIREWALL (file_ready (usr s recip) (av ! 1) NO_HASH) s
              else send_user recip MSG_SERVER_FILE_READY (file_ready U (av ! 1) NO_HASH) s)"

text \<open>Without the hashes of a build with \<open>--enable-resume\<close> nothing is found.\<close>

definition resume :: "cid \<Rightarrow> nat \<Rightarrow> string \<Rightarrow> srv \<Rightarrow> srv" where
  "resume con tag pkt s = (if \<not> ISUSER con s then s else send_cmd con MSG_SERVER_RESUME_MATCH_END [] s)"

section \<open>The invariant of the members is kept\<close>

lemma same_shape_search_parts [simp]:
  "same_shape (search_done c i s) r = same_shape s r" "same_shape (send_match q d s) r = same_shape s r"
  "same_shape (ask_servers c u i n Q s) r = same_shape s r"
  by (simp_all add: search_done_def send_match_def ask_servers_def generate_search_id_def Let_def
      split: option.split prod.split)

lemma same_shape_search_list: "same_shape (snd (search_list ts n q fs h s)) s"
proof (induction ts n q fs h s rule: search_list.induct)
  case (2 ts n q f fs h s)
  let ?d = "the (datums s f)"
  show ?case
  proof (cases "d_size ?d \<noteq> - 1 \<and> match_tokens ts (d_filename ?d)")
    case True
    show ?thesis
    proof (cases "acceptable q ?d s")
      case A: True
      have c: "search_callback ?d q s = (True, send_match q ?d s)" using A by (simp add: search_callback_def)
      show ?thesis
      proof (cases "h + 1 = n")
        case False
        have "same_shape (snd (search_list ts n q fs (h + 1) (send_match q ?d s))) (send_match q ?d s)"
          using 2(1) [OF refl True c [symmetric] refl] False by simp
        then have "same_shape (snd (search_list ts n q fs (h + 1) (send_match q ?d s))) s"
          by (rule same_shape_trans) simp
        then show ?thesis using True c False by (simp add: Let_def)
      qed (use True c in \<open>simp add: Let_def\<close>)
    next
      case False
      then have c: "search_callback ?d q s = (False, s)" by (simp add: search_callback_def)
      show ?thesis using 2(2) [OF refl True c [symmetric] refl] True c by (simp add: Let_def)
    qed
  next
    case False
    then have "search_list ts n q (f # fs) h s = search_list ts n q fs h s" by (auto simp: Let_def)
    then show ?thesis using 2(3) [OF refl False] by simp
  qed
qed simp

lemma same_shape_parse: "parse_search c p q s = (r, t) \<Longrightarrow> same_shape t s"
proof (induction c p q s arbitrary: r t rule: parse_search.induct)
  case (1 c p q s)
  have C: "same_shape t' s" if "search_clause c a p' q s = (r', t')" for a p' r' t'
    using that by (auto simp: search_clause_def filename_clause_def results_clause_def type_clause_def
        range_clause_def set_compare_def split: if_splits option.splits prod.splits)
  show ?case
  proof (cases "next_arg p")
    case (Pair a p')
    show ?thesis
    proof (cases a)
      case None
      then show ?thesis using "1.prems" Pair by (simp add: parse_search.simps [of c p])
    next
      case (Some arg)
      obtain r' t' where S: "search_clause c arg p' q s = (r', t')" by fastforce
      show ?thesis
      proof (cases r')
        case (More q' p'')
        have "parse_search c p'' q' t' = (r, t)"
          using "1.prems" Pair Some S More by (simp add: parse_search.simps [of c p])
        then have "same_shape t t'" using "1.IH" [OF Pair [symmetric] Some S [symmetric] More] by simp
        then show ?thesis using C [OF S] by (rule same_shape_trans)
      next
        case Invalid
        then show ?thesis using "1.prems" Pair Some S C [OF S] by (simp add: parse_search.simps [of c p])
      next
        case Refused
        then show ?thesis using "1.prems" Pair Some S C [OF S] by (simp add: parse_search.simps [of c p])
      qed
    qed
  qed
qed

lemma same_shape_fdb_search: "same_shape (snd (fdb_search ts n q s)) s"
proof -
  have "same_shape (snd (search_list ts n q fs 0 (upd_misc (\<lambda>m. m\<lparr>m_Search_Count := m_Search_Count m + 1\<rparr>) s))) s" for fs
    by (rule same_shape_trans [OF same_shape_search_list]) simp
  then show ?thesis by (simp add: fdb_search_def Let_def split: option.split)
qed

lemma same_shape_search_internal: "same_shape (search_internal c u i p s) s"
proof -
  obtain r t where P: "parse_search c p (new_query c u i s) s = (r, t)" by fastforce
  note S = same_shape_parse [OF P]
  show ?thesis
  proof (cases r)
    case (More q p')
    obtain n v where F: "fdb_search (q_tokens q) (q_max q) (q_parms q) t = (n, v)" by fastforce
    have "same_shape v t" using same_shape_fdb_search [of "q_tokens q" "q_max q" "q_parms q" t] F by simp
    then have "same_shape v s" using S by (rule same_shape_trans)
    then show ?thesis using P More F by (simp add: search_internal_def)
  qed (use P S in \<open>simp_all add: search_internal_def\<close>)
qed

lemma shape_search: "same_shape (search con tag pkt s) s" "same_shape (remote_search con tag pkt s) s"
  by (simp_all add: search_def remote_search_def same_shape_search_internal split: prod.split option.split)

lemma same_shape_browse_fold: "same_shape (snd (fold (browse_callback u n) fs (k, s))) s"
proof (induction fs arbitrary: k s)
  case (Cons f fs)
  obtain k' s' where b: "browse_callback u n f (k, s) = (k', s')" by fastforce
  then have "same_shape s' s" by (auto simp: browse_callback_def Let_def split: if_splits)
  then show ?case using Cons.IH [of k' s'] b same_shape_trans by (metis comp_apply fold.simps(2))
qed simp

lemma shape_browse: "same_shape (browse con tag pkt s) s"
  by (auto simp: browse_def Let_def hash_foreach_def same_shape_browse_fold split: option.split prod.split)

lemma same_shape_browse_files: "browse_files u v fs dir n rsp s = Some (r, t) \<Longrightarrow> same_shape t s"
proof (induction u v fs dir n rsp s rule: browse_files.induct)
  case (2 u v f fs dir n rsp s)
  let ?d = "the (datums s f)"
  let ?s = "case rsp of None \<Rightarrow> s | Some r \<Rightarrow> send_user u MSG_SERVER_BROWSE_RESULT_NEW r s"
  have S: "same_shape ?s s" by (simp split: option.split)
  obtain path base where p: "dirname (d_filename ?d) = Some path" "my_basename (d_filename ?d) = Some base"
    using "2.prems" by (auto simp: Let_def split: option.splits)
  show ?case
  proof (cases "n < 5 \<and> dir \<noteq> [] \<and> strcaseeq dir path")
    case True
    then show ?thesis using "2.IH"(1) [OF refl refl p True] "2.prems" p by (simp add: Let_def)
  next
    case False
    from "2.prems" have "browse_files u v fs path 0 (Some (append_string [] (u_nick (usr ?s v) @ '' '' @ quoted path @
        '' '' @ browse_entry base ?d))) ?s = Some (r, t)"
      unfolding browse_files.simps Let_def p option.case prod.case if_not_P [OF False] .
    then have "same_shape t ?s" by (rule "2.IH"(2) [OF refl refl p False refl])
    then show ?thesis using S by (rule same_shape_trans)
  qed
qed simp

lemma shape_browse_new: "browse_new con tag pkt s = Some t \<Longrightarrow> same_shape t s"
  by (auto simp: browse_new_def Let_def split: option.splits prod.splits if_splits dest!: same_shape_browse_files)

lemma shape_transfer_setup:
  "same_shape (download con tag pkt s) s" "same_shape (upload_request con tag pkt s) s"
  "same_shape (queue_limit con tag pkt s) s" "same_shape (upload_ok con tag pkt s) s"
  "same_shape (resume con tag pkt s) s"
  by (auto simp: download_def upload_request_def queue_limit_def upload_ok_def resume_def Let_def
      split: option.split)

lemmas [handler_defs] = search_def remote_search_def browse_def browse_new_def download_def upload_request_def
  queue_limit_def upload_ok_def resume_def

end
