(* ===== verification/Finding.thy ===== *)
theory Finding
  imports Browse Connections
begin

text \<open>
  What a search finds.  The words of a name are found in it, and the walk over a list of files answers
  with the first files that pass the filter, in the order of the list.
\<close>

section \<open>Words are found\<close>

lemma find_token_nonempty: "find_token a b \<Longrightarrow> a \<noteq> []"
  by (cases b) simp_all

lemma find_token_append: "find_token a b \<Longrightarrow> find_token a (u @ b)"
  by (induction u) (simp_all add: find_token_nonempty)

lemma code_toupper: "code (c_toupper c) = (if 97 \<le> code c \<and> code c \<le> 122 then code c - 32 else code c)"
  using code_less_256 [of c] by (simp add: c_toupper_def less_imp_diff_less)

lemma tolower_toupper [simp]: "c_tolower (c_toupper c) = c_tolower c"
  unfolding char_eq_code_iff [of "c_tolower _"] code_tolower code_toupper by auto

lemma tolower_cases: "y = c_tolower (c_tolower y) \<or> y = c_toupper (c_tolower y)"
  unfolding char_eq_code_iff [of y] code_tolower code_toupper by auto

lemma find_token_prefix:
  assumes "v \<noteq> []"
  shows "find_token (lower v) (v @ x)"
proof -
  obtain y v' where v: "v = y # v'" using assms by (cases v) auto
  have "strncaseeq (v' @ x) (lower v') (length v')" by (simp add: strncaseeq_def)
  then show ?thesis using tolower_cases [of y] by (simp add: v)
qed

lemma find_token_infix: "v \<noteq> [] \<Longrightarrow> find_token (lower v) (u @ v @ x)"
  by (intro find_token_append find_token_prefix)

text \<open>A token is found exactly where it occurs up to case, for tokens in lower case.\<close>

lemma find_token_sound: "find_token a b \<Longrightarrow> \<exists>u v x. b = u @ v @ x \<and> lower v = lower a"
proof (induction a b rule: find_token.induct)
  case (2 a x b)
  show ?case
  proof (cases "(x = c_tolower (hd a) \<or> x = c_toupper (hd a)) \<and> strncaseeq b (tl a) (length a - 1)")
    case True
    have a: "a \<noteq> []" using 2(2) by simp
    from True have x: "c_tolower x = c_tolower (hd a)" by auto
    have "take (length (tl a)) (lower b) = lower (tl a)" using True by (simp add: strncaseeq_def)
    then have "lower (take (length (tl a)) b) = lower (tl a)" by (simp add: lower_def take_map)
    then have "lower (x # take (length (tl a)) b) = lower a" using a x by (cases a) auto
    then show ?thesis by (intro exI [of _ "[]"] exI [of _ "x # take (length (tl a)) b"] exI [of _ "drop (length (tl a)) b"]) simp
  next
    case False
    then have "find_token a b" "a \<noteq> []" using 2(2) by auto
    from 2(1) [OF this(1)] obtain u v z where "b = u @ v @ z" "lower v = lower a" by blast
    then show ?thesis by (intro exI [of _ "x # u"] exI [of _ v] exI [of _ z]) simp
  qed
qed simp

lemma tokenize_from_words:
  assumes "w \<in> set (tokenize_from F s r)"
  shows "w \<in> set r \<or> (\<exists>u v x. s = u @ v @ x \<and> w = lower v \<and> (\<forall>c \<in> set v. WORD_CHAR c))"
  using assms
proof (induction F s r rule: tokenize_from.induct)
  case (1 F s r)
  let ?s = "dropWhile (\<lambda>c. \<not> WORD_CHAR c) s"
  let ?v = "takeWhile WORD_CHAR ?s"
  let ?ptr = "tl (dropWhile WORD_CHAR ?s)"
  show ?case
  proof (cases "s = []")
    case True
    then show ?thesis using 1(2) by (simp add: tokenize_from.simps)
  next
    case False
    have s: "s = takeWhile (\<lambda>c. \<not> WORD_CHAR c) s @ ?v @ dropWhile WORD_CHAR ?s" by simp
    obtain y where p: "dropWhile WORD_CHAR ?s = y @ ?ptr" by (cases "dropWhile WORD_CHAR ?s") auto
    have "w \<in> set (tokenize_from F ?ptr (if is_filtered F (strlower ?v) \<or> strlower ?v \<in> set r then r else r @ [strlower ?v]))"
      using 1(2) False by (simp add: tokenize_from.simps [of F s] Let_def split: if_splits)
    from 1(1) [OF False refl refl refl this]
    have "w \<in> set r \<or> w = lower ?v \<or> (\<exists>u v x. ?ptr = u @ v @ x \<and> w = lower v \<and> (\<forall>c \<in> set v. WORD_CHAR c))"
    proof
      assume "w \<in> set (if is_filtered F (strlower ?v) \<or> strlower ?v \<in> set r then r else r @ [strlower ?v])"
      then have "w \<in> insert (lower ?v) (set r)" unfolding strlower_lower by (rule subsetD [rotated]) (simp add: subset_insertI)
      then show ?thesis by blast
    qed blast
    then consider "w \<in> set r" | "w = lower ?v"
      | u v x where "?ptr = u @ v @ x" "w = lower v" "\<forall>c \<in> set v. WORD_CHAR c" by blast
    then show ?thesis
    proof cases
      case 2
      have "\<forall>c \<in> set ?v. WORD_CHAR c" using set_takeWhileD [of _ WORD_CHAR ?s] by blast
      with s 2 show ?thesis by (intro disjI2 exI conjI)
    next
      case 3
      have "s = (takeWhile (\<lambda>c. \<not> WORD_CHAR c) s @ ?v @ y @ u) @ v @ x"
        unfolding append.assoc 3(1) [symmetric] p [symmetric] by (rule s)
      with 3(2,3) show ?thesis by (intro disjI2 exI conjI)
    qed simp
  qed
qed

lemma tokenize_words:
  assumes "w \<in> set (tokenize F s)"
  obtains u v x where "s = u @ v @ x" "w = lower v"
  using tokenize_from_words [of w F s "[]"] assms by (auto simp: tokenize_def)

lemma tokenize_lower: "w \<in> set (tokenize F s) \<Longrightarrow> lower w = w"
  by (erule tokenize_words) simp

lemma find_own_token: "w \<in> set (tokenize F s) \<Longrightarrow> w \<noteq> [] \<Longrightarrow> find_token w s"
  by (erule tokenize_words) (use find_token_infix in force)

lemma distinct_tokenize_from: "distinct r \<Longrightarrow> distinct (tokenize_from F s r)"
proof (induction F s r rule: tokenize_from.induct)
  case (1 F s r)
  then show ?case by (subst tokenize_from.simps) (simp add: Let_def)
qed

lemma distinct_tokenize: "distinct (tokenize F s)"
  by (simp add: tokenize_def distinct_tokenize_from)

lemma indexed_subset: "set (indexed F s) \<subseteq> set (tokenize F s)"
  by (simp add: indexed_def Let_def set_drop_subset)

lemma distinct_indexed: "distinct (indexed F s)" and length_indexed: "length (indexed F s) \<le> 30"
  by (simp_all add: indexed_def Let_def distinct_tokenize)

section \<open>The walk over a list\<close>

definition hit :: "string list \<Rightarrow> search_parms \<Rightarrow> srv \<Rightarrow> fid \<Rightarrow> bool" where
  "hit tokens q s f \<longleftrightarrow>
     (let d = the (datums s f) in d_size d \<noteq> - 1 \<and> match_tokens tokens (d_filename d) \<and> acceptable q d s)"

definition first_hits :: "int \<Rightarrow> 'a list \<Rightarrow> 'a list" where
  "first_hits n fs = (if 0 < n then take (nat n) fs else fs)"

definition answer :: "search_parms \<Rightarrow> srv \<Rightarrow> fid \<Rightarrow> frame" where
  "answer q s f = last (s_out (send_match q (the (datums s f)) s))"

lemma send_match_answer: "send_match q (the (datums s f)) s = emit [answer q s f] s"
  by (simp add: answer_def send_match_def send_cmd_def queue_data_def emit_def split: option.split)

lemma misc_emit [simp]: "s_misc (emit fs s) = s_misc s"
  by (simp add: emit_def)

lemma hit_emit [simp]: "hit ts q (emit fs s) = hit ts q s" "acceptable q d (emit fs s) = acceptable q d s"
  by (simp_all add: hit_def acceptable_def fun_eq_iff Let_def)

lemma answer_emit [simp]: "answer q (emit fs s) = answer q s"
  by (simp add: answer_def send_match_def result_text_def send_cmd_def queue_data_def emit_def fun_eq_iff Let_def
      split: option.split)

lemma emit_nil [simp]: "emit [] s = s"
  by (simp add: emit_def)

lemma search_list_run:
  "search_list ts n q fs h s =
     (let R = (if h < n then take (nat (n - h)) (filter (hit ts q s) fs) else filter (hit ts q s) fs)
      in (h + int (length R), emit (map (answer q s) R) s))"
proof (induction fs arbitrary: h s)
  case Nil
  then show ?case by simp
next
  case (Cons f fs)
  let ?d = "the (datums s f)"
  consider "hit ts q s f" "h + 1 = n" | "hit ts q s f" "h + 1 \<noteq> n" | "\<not> hit ts q s f" by blast
  then show ?case
  proof cases
    case 1
    then have "nat (n - h) = 1" by simp
    with 1 show ?thesis by (simp add: hit_def Let_def search_callback_def send_match_answer)
  next
    case 2
    then have "search_list ts n q (f # fs) h s = search_list ts n q fs (h + 1) (emit [answer q s f] s)"
      by (simp add: hit_def Let_def search_callback_def send_match_answer)
    moreover have "nat (n - h) = Suc (nat (n - (h + 1)))" if "h + 1 < n" using that by simp
    ultimately show ?thesis using 2 by (cases "h + 1 < n") (simp_all add: Cons.IH Let_def)
  next
    case 3
    then have "search_list ts n q (f # fs) h s = search_list ts n q fs h s"
      by (auto simp: hit_def Let_def search_callback_def)
    with 3 show ?thesis by (simp add: Cons.IH)
  qed
qed

lemma search_list_hits:
  "search_list ts n q fs 0 s =
     (int (length (first_hits n (filter (hit ts q s) fs))),
      emit (map (answer q s) (first_hits n (filter (hit ts q s) fs))) s)"
  by (simp add: search_list_run first_hits_def Let_def)

end
