(* ===== verification/FileIndex.thy ===== *)
theory FileIndex
  imports Finding "HOL-Library.Multiset"
begin

text \<open>
  The index of the shared files is consistent: every file record is there exactly as long as something
  refers to it, its counter is the number of the references, and every file that is shared is in the list
  of each word of its name that is indexed.
\<close>

section \<open>Sums over a store\<close>

definition msum :: "('k \<rightharpoonup> 'v) \<Rightarrow> ('v \<Rightarrow> nat) \<Rightarrow> nat" where
  "msum m g = (\<Sum>k \<in> dom m. g (the (m k)))"

lemma msum_remove:
  assumes "finite (dom m)"
  shows "msum m g = msum (m(k := None)) g + (case m k of None \<Rightarrow> 0 | Some y \<Rightarrow> g y)"
proof (cases "m k")
  case None
  then show ?thesis by (simp add: fun_upd_idem)
next
  case (Some y)
  have "sum (\<lambda>j. g (the (m j))) (dom m - {k}) = sum (\<lambda>j. g (the ((m(k := None)) j))) (dom m - {k})"
    by (rule sum.cong) auto
  then show ?thesis using assms Some by (simp add: msum_def sum.remove [of "dom m" k] domIff)
qed

lemma msum_update:
  assumes "finite (dom m)"
  shows "msum (m(k \<mapsto> x)) g + (case m k of None \<Rightarrow> 0 | Some y \<Rightarrow> g y) = msum m g + g x"
  using msum_remove [OF assms, of g k] msum_remove [of "m(k \<mapsto> x)" g k] assms by simp

lemma msum_ge: "finite (dom m) \<Longrightarrow> m k = Some y \<Longrightarrow> g y \<le> msum m g"
  using msum_remove [of m g k] by simp

section \<open>References\<close>

definition counts :: "(fid \<rightharpoonup> datum) \<Rightarrow> (fid \<Rightarrow> nat) \<Rightarrow> bool" where
  "counts D n \<longleftrightarrow> (\<forall>f. case D f of None \<Rightarrow> n f = 0 | Some d \<Rightarrow> unat (d_refcount d) = n f \<and> 0 < n f)"

lemma countsD: "counts D n \<Longrightarrow> D f = Some d \<Longrightarrow> unat (d_refcount d) = n f \<and> 0 < n f"
  "counts D n \<Longrightarrow> D f = None \<Longrightarrow> n f = 0"
  by (auto simp: counts_def dest: spec [of _ f])

lemma countsI:
  assumes "\<And>f d. D f = Some d \<Longrightarrow> unat (d_refcount d) = n f \<and> 0 < n f" "\<And>f. D f = None \<Longrightarrow> n f = 0"
  shows "counts D n"
  using assms by (simp add: counts_def split: option.split)

lemma counts_free:
  assumes C: "counts D n" and n: "0 < n f"
  shows "counts (free_datum f D) (n(f := n f - 1))"
proof -
  obtain d where d: "D f = Some d" using countsD(2) [OF C] n by fastforce
  then have r: "unat (d_refcount d) = n f" using countsD(1) [OF C] by blast
  then have r0: "d_refcount d \<noteq> 0" using n by auto
  then have m: "unat (d_refcount d - 1) = n f - 1" using r by (simp add: unat_minus_one)
  then have z: "d_refcount d - 1 = 0 \<longleftrightarrow> n f - 1 = 0" by (metis unat_eq_zero unat_0)
  show ?thesis
    by (rule countsI) (use countsD [OF C] d m z in \<open>auto simp: free_datum_def split: if_splits\<close>)
qed

lemma counts_free_list:
  "counts D n \<Longrightarrow> (\<And>f. count (mset fs) f \<le> n f) \<Longrightarrow>
   counts (fold free_datum fs D) (\<lambda>f. n f - count (mset fs) f)"
proof (induction fs arbitrary: D n)
  case (Cons f fs)
  have f: "0 < n f" using Cons.prems(2) [of f] by simp
  have "counts (fold free_datum fs (free_datum f D)) (\<lambda>g. (n(f := n f - 1)) g - count (mset fs) g)"
  proof (rule Cons.IH [OF counts_free [OF Cons.prems(1) f]])
    show "count (mset fs) g \<le> (n(f := n f - 1)) g" for g using Cons.prems(2) [of g] by (auto split: if_splits)
  qed
  moreover have "(\<lambda>g. (n(f := n f - 1)) g - count (mset fs) g) = (\<lambda>g. n g - count (mset (f # fs)) g)" by auto
  ultimately show ?case by simp
qed simp

lemma free_list_live:
  "fold free_datum fs D f = Some d \<Longrightarrow> d_size d \<noteq> - 1 \<Longrightarrow> D f = Some d \<and> f \<notin> set fs"
proof (induction fs arbitrary: D)
  case (Cons g fs)
  then have "free_datum g D f = Some d" "f \<notin> set fs" by simp_all
  then show ?case using Cons.prems(2) by (auto simp: free_datum_def split: option.splits if_splits)
qed simp

lemma free_list_dom: "dom (fold free_datum fs D) \<subseteq> dom D"
proof (induction fs arbitrary: D)
  case (Cons g fs)
  have "dom (free_datum g D) \<subseteq> dom D" by (auto simp: free_datum_def split: option.splits if_splits)
  then show ?case using Cons.IH [of "free_datum g D"] by auto
qed simp

section \<open>The index\<close>

definition lrefs :: "misc \<Rightarrow> fid \<Rightarrow> nat" where
  "lrefs m f = msum (m_flists m) (\<lambda>L. count (mset (fl_list L)) f)"

definition under_word :: "misc \<Rightarrow> fid \<Rightarrow> string \<Rightarrow> bool" where
  "under_word m f w \<longleftrightarrow>
     (\<exists>l L. hash_lookup (m_File_Table m) w = Some l \<and> m_flists m l = Some L \<and> f \<in> set (fl_list L))"

definition lists_ok :: "misc \<Rightarrow> bool" where
  "lists_ok m \<longleftrightarrow> finite (dom (m_flists m)) \<and> hash_invar (m_File_Table m) \<and>
     (\<forall>l L. m_flists m l = Some L \<longrightarrow> l < m_next_flist m \<and> hash_stack (m_File_Table m) (fl_key L) = [l] \<and>
        lower (fl_key L) = fl_key L \<and> fl_count L = int (length (fl_list L)) \<and> distinct (fl_list L)) \<and>
     (\<forall>k l. l \<in> set (hash_stack (m_File_Table m) k) \<longrightarrow> (\<exists>L. m_flists m l = Some L \<and> strcaseeq (fl_key L) k))"

definition words_ok :: "fid set \<Rightarrow> misc \<Rightarrow> bool" where
  "words_ok X m \<longleftrightarrow>
     (\<forall>f d w. f \<notin> X \<longrightarrow> m_datums m f = Some d \<longrightarrow> d_size d \<noteq> - 1 \<longrightarrow>
        w \<in> set (indexed (m_Filter m) (d_filename d)) \<longrightarrow> under_word m f w)"

text \<open>\<open>N\<close> counts the references from elsewhere, and the files of \<open>X\<close> may be on their way into the index.\<close>

definition index_ok :: "fid set \<Rightarrow> (fid \<Rightarrow> nat) \<Rightarrow> misc \<Rightarrow> bool" where
  "index_ok X N m \<longleftrightarrow>
     lists_ok m \<and> dom (m_datums m) \<subseteq> {..<m_next_file m} \<and> counts (m_datums m) (\<lambda>f. N f + lrefs m f) \<and> words_ok X m"

lemma lists_okD:
  assumes "lists_ok m"
  shows "finite (dom (m_flists m))" "hash_invar (m_File_Table m)"
    "m_flists m l = Some L \<Longrightarrow> l < m_next_flist m \<and> hash_stack (m_File_Table m) (fl_key L) = [l] \<and>
       lower (fl_key L) = fl_key L \<and> fl_count L = int (length (fl_list L)) \<and> distinct (fl_list L)"
    "l \<in> set (hash_stack (m_File_Table m) k) \<Longrightarrow> \<exists>L. m_flists m l = Some L \<and> strcaseeq (fl_key L) k"
  using assms by (simp_all add: lists_ok_def)

lemma index_okD:
  assumes "index_ok X N m"
  shows "lists_ok m" "dom (m_datums m) \<subseteq> {..<m_next_file m}" "counts (m_datums m) (\<lambda>f. N f + lrefs m f)" "words_ok X m"
  using assms by (simp_all add: index_ok_def)

text \<open>A word leads to the one list with that key.\<close>

lemma lookup_list:
  assumes "lists_ok m" "hash_lookup (m_File_Table m) w = Some l"
  obtains L where "m_flists m l = Some L" "strcaseeq (fl_key L) w" "hash_stack (m_File_Table m) w = [l]"
proof -
  obtain ls where s: "hash_stack (m_File_Table m) w = l # ls"
    using assms(2) by (auto simp: hash_lookup_stack split: list.splits)
  then obtain L where L: "m_flists m l = Some L" "strcaseeq (fl_key L) w" using lists_okD(4) [OF assms(1), of l w] by auto
  then have "hash_stack (m_File_Table m) w = [l]" using lists_okD(3) [OF assms(1) L(1)] hash_stack_cong [OF L(2)] by metis
  with L that show thesis by blast
qed

section \<open>Giving up references\<close>

lemma index_free:
  assumes I: "index_ok X N m" and N: "\<And>f. count (mset fs) f \<le> N f"
  shows "index_ok X (\<lambda>f. N f - count (mset fs) f) (m\<lparr>m_datums := fold free_datum fs (m_datums m)\<rparr>)"
proof -
  note I = index_okD [OF I]
  have "counts (fold free_datum fs (m_datums m)) (\<lambda>f. N f + lrefs m f - count (mset fs) f)"
    by (rule counts_free_list [OF I(3)]) (use N in \<open>simp add: trans_le_add1\<close>)
  moreover have "N f + lrefs m f - count (mset fs) f = N f - count (mset fs) f + lrefs m f" for f using N [of f] by simp
  moreover have "words_ok X (m\<lparr>m_datums := fold free_datum fs (m_datums m)\<rparr>)"
    using I(4) free_list_live by (fastforce simp: words_ok_def under_word_def)
  ultimately show ?thesis using I(1,2) free_list_dom by (fastforce simp: index_ok_def lists_ok_def lrefs_def)
qed

lemma count_filter_split:
  "count (mset (filter P xs)) f + count (mset (filter (\<lambda>x. \<not> P x) xs)) f = count (mset xs) f"
  by (induction xs) auto

lemma index_reap:
  assumes I: "index_ok X N m"
  shows "index_ok X N (reap_list l m)"
proof (cases "m_flists m l")
  case None
  then show ?thesis using I by (simp add: reap_list_def)
next
  case (Some L)
  note J = index_okD [OF I] and LO = lists_okD [OF index_okD(1) [OF I]]
  let ?gone = "filter (dead m) (fl_list L)" and ?kept = "filter (\<lambda>f. \<not> dead m f) (fl_list L)"
  let ?L = "L\<lparr>fl_list := ?kept, fl_count := fl_count L - int (length ?gone)\<rparr>"
  let ?m = "reap_list l m"
  have m: "?m = m\<lparr>m_datums := fold free_datum ?gone (m_datums m), m_flists := (m_flists m)(l \<mapsto> ?L)\<rparr>"
    by (simp add: reap_list_def Some Let_def)
  then have D: "m_datums ?m = fold free_datum ?gone (m_datums m)" by simp
  have r: "lrefs ?m f + count (mset ?gone) f = lrefs m f" for f
  proof -
    have "lrefs ?m f + count (mset (fl_list L)) f = lrefs m f + count (mset ?kept) f"
      using msum_update [OF LO(1), of l ?L "\<lambda>L. count (mset (fl_list L)) f"] by (simp add: lrefs_def m Some)
    then show ?thesis using count_filter_split [of "dead m" "fl_list L" f] by linarith
  qed
  have "counts (m_datums ?m) (\<lambda>f. N f + lrefs m f - count (mset ?gone) f)"
    unfolding D by (rule counts_free_list [OF J(3)]) (metis r le_add2 trans_le_add2)
  moreover have "N f + lrefs m f - count (mset ?gone) f = N f + lrefs ?m f" for f using r [of f] by linarith
  ultimately have C: "counts (m_datums ?m) (\<lambda>f. N f + lrefs ?m f)" by simp
  have len: "length ?gone + length ?kept = length (fl_list L)" by (rule sum_length_filter_compl)
  have K: "lists_ok ?m"
    using LO Some len unfolding lists_ok_def m
    by (auto simp: distinct_filter split: if_splits) (metis LO(4) Some option.inject)
  have W: "words_ok X ?m"
    unfolding words_ok_def
  proof (intro allI impI)
    fix f d w assume f: "f \<notin> X" "m_datums ?m f = Some d" "d_size d \<noteq> - 1" "w \<in> set (indexed (m_Filter ?m) (d_filename d))"
    have d: "m_datums m f = Some d" using free_list_live f(2,3) by (auto simp: m)
    then have "\<not> dead m f" using f(3) by (simp add: dead_def)
    moreover have "under_word m f w" using J(4) f(1,3,4) d by (simp add: words_ok_def m)
    ultimately show "under_word ?m f w" by (auto simp: under_word_def m Some)
  qed
  show ?thesis using C K W J(2) free_list_dom by (fastforce simp: index_ok_def m)
qed

lemma index_collect:
  assumes I: "index_ok X N m"
  shows "index_ok X N (collect_garbage l m)"
proof -
  let ?m = "reap_list l m"
  note J = index_reap [OF I, of l]
  note O = index_okD [OF J] and LO = lists_okD [OF index_okD(1) [OF J]]
  show ?thesis
  proof (cases "\<exists>L. m_flists ?m l = Some L \<and> fl_count L = 0")
    case False
    then show ?thesis using J by (auto simp: collect_garbage_def Let_def split: option.split)
  next
    case True
    then obtain L where L: "m_flists ?m l = Some L" "fl_count L = 0" by blast
    have e: "fl_list L = []" using LO(3) [OF L(1)] L(2) by simp
    have st: "hash_stack (m_File_Table ?m) (fl_key L) = [l]" using LO(3) [OF L(1)] by simp
    have "snd (hash_remove (m_File_Table ?m) (fl_key L)) = Some l"
      by (simp add: hash_remove_result hash_lookup_stack st)
    then obtain h where h: "hash_remove (m_File_Table ?m) (fl_key L) = (h, Some l)" by (metis prod.collapse)
    let ?n = "?m\<lparr>m_File_Table := h, m_flists := (m_flists ?m)(l := None)\<rparr>"
    have n: "collect_garbage l m = ?n" by (simp add: collect_garbage_def Let_def L free_flist_def e h)
    have H: "h = fst (hash_remove (m_File_Table ?m) (fl_key L))" by (simp add: h)
    then have inv: "hash_invar h" using hash_invar_remove [OF LO(2)] by simp
    have S: "hash_stack h k = (if strcaseeq (fl_key L) k then [] else hash_stack (m_File_Table ?m) k)" for k
      using hash_stack_remove [OF LO(2), of "fl_key L" k] hash_stack_cong [of "fl_key L" k] st H by (metis list.sel(3))
    have "lists_ok ?n"
      unfolding lists_ok_def
    proof (intro conjI allI impI)
      fix l' L' assume "m_flists ?n l' = Some L'"
      then have L': "m_flists ?m l' = Some L'" "l' \<noteq> l" by (auto split: if_splits)
      show "l' < m_next_flist ?n" "lower (fl_key L') = fl_key L'" "fl_count L' = int (length (fl_list L'))"
        "distinct (fl_list L')" using LO(3) [OF L'(1)] by simp_all
      have "\<not> strcaseeq (fl_key L) (fl_key L')"
        using LO(3) [OF L'(1)] st L'(2) hash_stack_cong [of "fl_key L" "fl_key L'"] by (metis list.inject)
      then show "hash_stack (m_File_Table ?n) (fl_key L') = [l']" using LO(3) [OF L'(1)] by (simp add: S)
    next
      fix k l' assume "l' \<in> set (hash_stack (m_File_Table ?n) k)"
      then have k: "\<not> strcaseeq (fl_key L) k" "l' \<in> set (hash_stack (m_File_Table ?m) k)" by (auto simp: S split: if_splits)
      then obtain L' where L': "m_flists ?m l' = Some L'" "strcaseeq (fl_key L') k" using LO(4) by blast
      with L(1) k(1) have "l' \<noteq> l" by auto
      with L' show "\<exists>L'. m_flists ?n l' = Some L' \<and> strcaseeq (fl_key L') k" by simp
    qed (use LO inv in auto)
    moreover have "lrefs ?n = lrefs ?m"
      using msum_remove [OF LO(1), of _ l] by (simp add: lrefs_def fun_eq_iff L(1) e)
    moreover have "words_ok X ?n"
      unfolding words_ok_def
    proof (intro allI impI)
      fix f d w
      assume "f \<notin> X" "m_datums ?n f = Some d" "d_size d \<noteq> - 1" "w \<in> set (indexed (m_Filter ?n) (d_filename d))"
      then have "under_word ?m f w" using O(4) by (simp add: words_ok_def)
      then obtain l' L' where u: "hash_lookup (m_File_Table ?m) w = Some l'" "m_flists ?m l' = Some L'" "f \<in> set (fl_list L')"
        by (auto simp: under_word_def)
      then have "l' \<noteq> l" using L(1) e by auto
      moreover have "\<not> strcaseeq (fl_key L) w"
      proof
        assume "strcaseeq (fl_key L) w"
        then have "hash_stack (m_File_Table ?m) w = [l]" using st hash_stack_cong by metis
        then show False using u(1) \<open>l' \<noteq> l\<close> by (simp add: hash_lookup_stack)
      qed
      ultimately show "under_word ?n f w" using u by (auto simp: under_word_def hash_lookup_stack S)
    qed
    ultimately show ?thesis using O unfolding n by (simp add: index_ok_def)
  qed
qed

lemma index_garbage: "index_ok X N m \<Longrightarrow> index_ok X N (hash_foreach h collect_garbage m)"
proof -
  have "index_ok X N (fold collect_garbage ls m)" if "index_ok X N m" for ls m
    using that by (induction ls arbitrary: m) (simp_all add: index_collect)
  then show "index_ok X N m \<Longrightarrow> ?thesis" by (simp add: hash_foreach_def)
qed

section \<open>Entering a file\<close>

text \<open>What entering does to the lists: those that were there keep their key, and only \<open>f\<close> is put in.\<close>

lemma word_list_ok:
  assumes I: "index_ok X N m" and w: "lower w = w" and wl: "word_list w m = (l, m')"
  obtains L where "index_ok X N m'" "m_flists m' l = Some L" "fl_key L = w" "hash_lookup (m_File_Table m') w = Some l"
    "m_datums m' = m_datums m" "m_Filter m' = m_Filter m" "\<And>g k. under_word m g k \<Longrightarrow> under_word m' g k"
    "\<And>j K. m_flists m' j = Some K \<Longrightarrow> fl_list K = [] \<or> m_flists m j = Some K"
proof (cases "hash_lookup (m_File_Table m) w")
  case (Some j)
  then have m: "m' = m" "l = j" using wl by (simp_all add: word_list_def)
  obtain L where L: "m_flists m l = Some L" "strcaseeq (fl_key L) w"
    using lookup_list [OF index_okD(1) [OF I] Some] m(2) by metis
  moreover have "fl_key L = w" using lists_okD(3) [OF index_okD(1) [OF I] L(1)] L(2) w by (simp add: strcaseeq_def)
  ultimately show thesis using that [of L] I Some m by simp
next
  case None
  note J = index_okD [OF I] and LO = lists_okD [OF index_okD(1) [OF I]]
  let ?L = "\<lparr>fl_key = w, fl_list = [], fl_count = 0\<rparr>"
  have m: "l = m_next_flist m" "m' = m\<lparr>m_flists := (m_flists m)(l \<mapsto> ?L),
      m_File_Table := hash_add (m_File_Table m) w l, m_next_flist := Suc l\<rparr>"
    using wl None by (auto simp: word_list_def)
  have fresh: "m_flists m l = None" using LO(3) [of l] m(1) by (cases "m_flists m l") auto
  have st: "hash_stack (m_File_Table m) w = []" using None by (simp add: hash_lookup_stack split: list.splits)
  have S: "hash_stack (m_File_Table m') k = (if strcaseeq w k then [l] else hash_stack (m_File_Table m) k)" for k
    using hash_stack_add [OF LO(2), of w l k] hash_stack_cong [of w k "m_File_Table m"] st by (simp add: m(2))
  have K: "\<not> strcaseeq w (fl_key K)" "j < l" if K: "m_flists m j = Some K" for j K
    using LO(3) [OF K] st hash_stack_cong [of w "fl_key K" "m_File_Table m"] m(1) by auto
  have "lists_ok m'"
    unfolding lists_ok_def
  proof (intro conjI allI impI)
    fix j K assume "m_flists m' j = Some K"
    then consider "j = l" "K = ?L" | "j \<noteq> l" "m_flists m j = Some K" by (auto simp: m(2) split: if_splits)
    note c = this
    show "j < m_next_flist m'" using c K by cases (auto simp: m(2) less_SucI)
    show "hash_stack (m_File_Table m') (fl_key K) = [j]" using c by cases (use K LO(3) in \<open>simp_all add: S\<close>)
    show "lower (fl_key K) = fl_key K" using c by cases (use LO(3) w in simp_all)
    show "fl_count K = int (length (fl_list K))" using c by cases (use LO(3) in simp_all)
    show "distinct (fl_list K)" using c by cases (use LO(3) in simp_all)
  next
    fix k j assume "j \<in> set (hash_stack (m_File_Table m') k)"
    then consider "strcaseeq w k" "j = l" | "j \<in> set (hash_stack (m_File_Table m) k)" by (auto simp: S split: if_splits)
    then show "\<exists>K. m_flists m' j = Some K \<and> strcaseeq (fl_key K) k"
    proof cases
      case 1
      then show ?thesis by (simp add: m(2))
    next
      case 2
      then obtain K where "m_flists m j = Some K" "strcaseeq (fl_key K) k" using LO(4) by blast
      then show ?thesis using fresh by (intro exI [of _ K]) (auto simp: m(2))
    qed
  qed (use LO hash_invar_add in \<open>auto simp: m(2)\<close>)
  moreover have "lrefs m' = lrefs m"
    using msum_update [OF LO(1), of l ?L] by (simp add: lrefs_def fun_eq_iff m(2) fresh)
  moreover have U: "under_word m' g k" if u: "under_word m g k" for g k
  proof -
    obtain j K where j: "hash_lookup (m_File_Table m) k = Some j" "m_flists m j = Some K" "g \<in> set (fl_list K)"
      using u by (auto simp: under_word_def)
    then have "\<not> strcaseeq w k" using None hash_stack_cong [of w k "m_File_Table m"] by (auto simp: hash_lookup_stack)
    moreover have "j \<noteq> l" using j(2) fresh by auto
    ultimately show ?thesis using j by (auto simp: under_word_def hash_lookup_stack S) (simp add: m(2))
  qed
  ultimately have "index_ok X N m'" using J by (auto simp: index_ok_def words_ok_def m(2))
  moreover have "hash_lookup (m_File_Table m') w = Some l" by (simp add: hash_lookup_stack S)
  ultimately show thesis by (intro that [of ?L]) (use U in \<open>auto simp: m(2) split: if_splits\<close>)
qed

lemma push_ok:
  assumes I: "index_ok X N m" and L: "m_flists m l = Some L" and d: "m_datums m f = Some d"
    and r: "unat (d_refcount d) < 31" and f: "f \<notin> set (fl_list L)"
  shows "index_ok X N (ref_datum f (push_file l f m))"
proof -
  note J = index_okD [OF I] and LO = lists_okD [OF index_okD(1) [OF I]]
  let ?m = "ref_datum f (push_file l f m)"
  let ?L = "L\<lparr>fl_list := fl_list L @ [f], fl_count := fl_count L + 1\<rparr>"
  let ?d = "d\<lparr>d_refcount := d_refcount d + 1\<rparr>"
  have m: "?m = m\<lparr>m_flists := (m_flists m)(l \<mapsto> ?L), m_datums := (m_datums m)(f \<mapsto> ?d)\<rparr>"
    by (simp add: ref_datum_def push_file_def L d)
  have R: "lrefs ?m g = lrefs m g + (if g = f then 1 else 0)" for g
    using msum_update [OF LO(1), of l ?L "\<lambda>L. count (mset (fl_list L)) g"] by (auto simp: lrefs_def m L)
  have u: "unat (d_refcount d + 1) = unat (d_refcount d) + 1" using r by (simp add: unat_word_ariths)
  have "lists_ok ?m" using LO L f unfolding lists_ok_def m by (auto split: if_splits) (metis LO(4) L option.inject)
  moreover have "counts (m_datums ?m) (\<lambda>g. N g + lrefs ?m g)"
    by (rule countsI) (use countsD [OF J(3)] d u in \<open>auto simp: m R [unfolded m] split: if_splits\<close>)
  moreover have "words_ok X ?m"
    using J(4) d L unfolding words_ok_def m by (fastforce simp: under_word_def split: if_splits)
  moreover have "dom (m_datums ?m) \<subseteq> {..<m_next_file ?m}" using J(2) d by (auto simp: m)
  ultimately show ?thesis by (simp add: index_ok_def)
qed

definition in_lists :: "misc \<Rightarrow> fid \<Rightarrow> string set" where
  "in_lists m f = {w. \<exists>l L. m_flists m l = Some L \<and> f \<in> set (fl_list L) \<and> fl_key L = w}"

lemma fdb_add_ok:
  assumes I: "index_ok X N m" and w: "lower w = w" and d: "m_datums m f = Some d"
    and r: "unat (d_refcount d) < 31" and f: "w \<notin> in_lists m f"
  shows "index_ok X N (fdb_add f w m)" "m_datums (fdb_add f w m) = (m_datums m)(f \<mapsto> d\<lparr>d_refcount := d_refcount d + 1\<rparr>)"
    "under_word (fdb_add f w m) f w" "under_word m g k \<Longrightarrow> under_word (fdb_add f w m) g k"
    "in_lists (fdb_add f w m) f \<subseteq> insert w (in_lists m f)" "m_Filter (fdb_add f w m) = m_Filter m"
proof -
  obtain l m' where wl: "word_list w m = (l, m')" by fastforce
  obtain L where L: "index_ok X N m'" "m_flists m' l = Some L" "fl_key L = w" "hash_lookup (m_File_Table m') w = Some l"
    "m_datums m' = m_datums m" "m_Filter m' = m_Filter m" "\<And>g k. under_word m g k \<Longrightarrow> under_word m' g k"
    "\<And>j K. m_flists m' j = Some K \<Longrightarrow> fl_list K = [] \<or> m_flists m j = Some K"
    using word_list_ok [OF I w wl] by metis
  have add: "fdb_add f w m = ref_datum f (push_file l f m')" by (simp add: fdb_add_def wl)
  have "f \<notin> set (fl_list L)"
  proof
    assume "f \<in> set (fl_list L)"
    then have "m_flists m l = Some L" using L(8) [OF L(2)] by auto
    then show False using f \<open>f \<in> set (fl_list L)\<close> L(3) by (auto simp: in_lists_def)
  qed
  then show "index_ok X N (fdb_add f w m)" unfolding add using push_ok [OF L(1,2)] d r L(5) by simp
  show "m_datums (fdb_add f w m) = (m_datums m)(f \<mapsto> d\<lparr>d_refcount := d_refcount d + 1\<rparr>)"
    by (simp add: add ref_datum_def push_file_def L(5) d)
  show "under_word (fdb_add f w m) f w"
    by (simp add: add under_word_def ref_datum_def push_file_def L(2,4))
  show "under_word (fdb_add f w m) g k" if "under_word m g k"
    using L(7) [OF that] L(2) by (fastforce simp: add under_word_def ref_datum_def push_file_def)
  show "in_lists (fdb_add f w m) f \<subseteq> insert w (in_lists m f)"
  proof
    fix k assume "k \<in> in_lists (fdb_add f w m) f"
    then obtain j K where K: "m_flists (fdb_add f w m) j = Some K" "f \<in> set (fl_list K)" "fl_key K = k"
      by (auto simp: in_lists_def)
    show "k \<in> insert w (in_lists m f)"
    proof (cases "j = l")
      case True
      then show ?thesis using K L(2,3) by (auto simp: add ref_datum_def push_file_def)
    next
      case False
      then have "m_flists m' j = Some K" using K(1) by (simp add: add ref_datum_def push_file_def)
      then have "m_flists m j = Some K" using L(8) K(2) by fastforce
      then show ?thesis using K by (auto simp: in_lists_def)
    qed
  qed
  show "m_Filter (fdb_add f w m) = m_Filter m" by (simp add: add ref_datum_def push_file_def L(6))
qed

lemma fold_fdb_add_ok:
  assumes "index_ok X N m" "m_datums m f = Some d" "unat (d_refcount d) + length ws < 32" "distinct ws"
    "\<forall>w \<in> set ws. lower w = w" "in_lists m f \<inter> set ws = {}"
  shows "index_ok X N (fold (fdb_add f) ws m) \<and> (\<forall>w \<in> set ws. under_word (fold (fdb_add f) ws m) f w) \<and>
    (\<forall>g k. under_word m g k \<longrightarrow> under_word (fold (fdb_add f) ws m) g k) \<and>
    (\<exists>r. m_datums (fold (fdb_add f) ws m) f = Some (d\<lparr>d_refcount := r\<rparr>)) \<and>
    (\<forall>g. g \<noteq> f \<longrightarrow> m_datums (fold (fdb_add f) ws m) g = m_datums m g) \<and>
    m_Filter (fold (fdb_add f) ws m) = m_Filter m"
  using assms
proof (induction ws arbitrary: m d)
  case Nil
  have "\<exists>r. d = d\<lparr>d_refcount := r\<rparr>" by (intro exI [of _ "d_refcount d"]) simp
  then show ?case using Nil(1,2) by simp
next
  case (Cons w ws)
  have w: "lower w = w" "unat (d_refcount d) < 31" "w \<notin> in_lists m f" using Cons.prems by auto
  note A = fdb_add_ok [OF Cons.prems(1) w(1) Cons.prems(2) w(2,3)]
  let ?m = "fdb_add f w m" and ?d = "d\<lparr>d_refcount := d_refcount d + 1\<rparr>"
  have u: "unat (d_refcount ?d) = unat (d_refcount d) + 1" using w(2) by (simp add: unat_word_ariths)
  have "index_ok X N (fold (fdb_add f) ws ?m) \<and> (\<forall>w \<in> set ws. under_word (fold (fdb_add f) ws ?m) f w) \<and>
    (\<forall>g k. under_word ?m g k \<longrightarrow> under_word (fold (fdb_add f) ws ?m) g k) \<and>
    (\<exists>r. m_datums (fold (fdb_add f) ws ?m) f = Some (?d\<lparr>d_refcount := r\<rparr>)) \<and>
    (\<forall>g. g \<noteq> f \<longrightarrow> m_datums (fold (fdb_add f) ws ?m) g = m_datums ?m g) \<and>
    m_Filter (fold (fdb_add f) ws ?m) = m_Filter ?m"
    by (rule Cons.IH) (use A Cons.prems u in auto)
  then show ?case using A(2,3,4,6) by auto
qed

lemma index_new:
  assumes I: "index_ok X N m" and d: "d_refcount d = 0"
  shows "index_ok (insert (m_next_file m) X) (N(m_next_file m := 1)) (ref_datum (m_next_file m) (new_datum d m))"
    "N (m_next_file m) = 0" "in_lists (ref_datum (m_next_file m) (new_datum d m)) (m_next_file m) = {}"
proof -
  note J = index_okD [OF I] and LO = lists_okD [OF index_okD(1) [OF I]]
  let ?f = "m_next_file m"
  let ?m = "ref_datum ?f (new_datum d m)"
  have fresh: "m_datums m ?f = None" using J(2) by (cases "m_datums m ?f") auto
  then have n: "N ?f + lrefs m ?f = 0" using countsD(2) [OF J(3)] by blast
  then show "N ?f = 0" by simp
  have e: "?f \<notin> set (fl_list L)" if "m_flists m l = Some L" for l L
    using n msum_ge [OF LO(1) that, of "\<lambda>L. count (mset (fl_list L)) ?f"] by (auto simp: lrefs_def)
  then show "in_lists ?m ?f = {}" by (auto simp: in_lists_def ref_datum_def new_datum_def)
  have "counts (m_datums ?m) (\<lambda>g. (N(?f := 1)) g + lrefs ?m g)"
    by (rule countsI) (use countsD [OF J(3)] n d in \<open>auto simp: ref_datum_def new_datum_def lrefs_def split: if_splits\<close>)
  moreover have "lists_ok ?m" using J(1) by (simp add: lists_ok_def ref_datum_def new_datum_def)
  moreover have "words_ok (insert ?f X) ?m" using J(4) by (auto simp: words_ok_def under_word_def ref_datum_def new_datum_def)
  moreover have "dom (m_datums ?m) \<subseteq> {..<m_next_file ?m}" using J(2) by (auto simp: ref_datum_def new_datum_def)
  ultimately show "index_ok (insert ?f X) (N(?f := 1)) ?m" by (simp add: index_ok_def)
qed

end
