(* ===== verification/SharedFiles.thy ===== *)
theory SharedFiles
  imports FileIndex
begin

text \<open>
  The operations on shared files keep the index, the tables of the connections and the file records
  consistent, and what a search answers follows from that.
\<close>

section \<open>The invariant\<close>

text \<open>
  The tables of shared files by connection, and the connection of each user.  A file that is shared is in
  the table of its owner's connection.
\<close>

definition tables :: "srv \<Rightarrow> cid \<rightharpoonup> fid htab option" where
  "tables s = (\<lambda>c. map_option c_files (s_conns s c))"

definition owners :: "srv \<Rightarrow> uid \<rightharpoonup> cid" where
  "owners s = (\<lambda>u. map_option u_con (s_users s u))"

definition shared_list :: "fid htab option \<Rightarrow> fid list" where
  "shared_list x = (case x of None \<Rightarrow> [] | Some h \<Rightarrow> free_hash h)"

definition held :: "(cid \<rightharpoonup> fid htab option) \<Rightarrow> fid \<Rightarrow> nat" where
  "held C f = msum C (\<lambda>x. count (mset (shared_list x)) f)"

definition owned :: "(cid \<rightharpoonup> fid htab option) \<Rightarrow> (uid \<rightharpoonup> cid) \<Rightarrow> misc \<Rightarrow> bool" where
  "owned C U m \<longleftrightarrow> (\<forall>f d. m_datums m f = Some d \<longrightarrow> d_size d \<noteq> - 1 \<longrightarrow>
     (\<exists>u c x. d_user d = Some u \<and> U u = Some c \<and> C c = Some x \<and> f \<in> set (shared_list x)))"

definition store_ok :: "(cid \<rightharpoonup> fid htab option) \<Rightarrow> (uid \<rightharpoonup> cid) \<Rightarrow> misc \<Rightarrow> bool" where
  "store_ok C U m \<longleftrightarrow> finite (dom C) \<and> (\<forall>c h. C c = Some (Some h) \<longrightarrow> hash_invar h) \<and> index_ok {} (held C) m \<and> owned C U m"

definition files_ok :: "srv \<Rightarrow> bool" where
  "files_ok s \<longleftrightarrow> store_ok (tables s) (owners s) (s_misc s)"

lemma store_okD:
  assumes "store_ok C U m"
  shows "finite (dom C)" "C c = Some (Some h) \<Longrightarrow> hash_invar h" "index_ok {} (held C) m" "owned C U m"
  using assms by (simp_all add: store_ok_def)

text \<open>The tables of connections as bags.\<close>

lemma mset_hash_add:
  assumes "hash_invar h"
  shows "mset (free_hash (hash_add h k d)) = add_mset d (mset (free_hash h))"
proof -
  have upd: "mset (concat (xss[i := y # xss ! i])) = add_mset y (mset (concat xss))"
    if "i < length xss" for xss :: "(string \<times> 'a) list list" and i y
    using that by (induction xss arbitrary: i) (auto split: nat.split)
  have "hash_string (numbuckets h) k < length (bucket h)"
    using assms by (simp add: hash_invar_def numbuckets_def hash_string_less)
  from upd [OF this, of "(k, d)"] show ?thesis
    by (simp add: free_hash_def hash_add_def Let_def numbuckets_def)
qed

lemma mset_bucket_unlink: "bucket_find es k = Some d \<Longrightarrow> \<exists>k'. mset es = add_mset (k', d) (mset (bucket_unlink es k))"
  by (induction es k rule: bucket_unlink.induct) (auto split: if_splits)

lemma mset_hash_remove:
  assumes I: "hash_invar h" and r: "hash_remove h k = (h', Some d)"
  shows "mset (free_hash h) = add_mset d (mset (free_hash h'))"
proof -
  let ?i = "hash_string (numbuckets h) k"
  have i: "?i < length (bucket h)" using I by (simp add: hash_invar_def numbuckets_def hash_string_less)
  have f: "bucket_find (bucket h ! ?i) k = Some d" and h': "bucket h' = (bucket h)[?i := bucket_unlink (bucket h ! ?i) k]"
    using r by (auto simp: hash_remove_def Let_def split: option.splits)
  obtain k' where k': "mset (bucket h ! ?i) = add_mset (k', d) (mset (bucket_unlink (bucket h ! ?i) k))"
    using mset_bucket_unlink [OF f] by blast
  have "mset (concat xss) = add_mset y (mset (concat (xss[i := ys])))"
    if "i < length xss" "mset (xss ! i) = add_mset y (mset ys)" for xss :: "(string \<times> 'a) list list" and i y ys
    using that by (induction xss arbitrary: i) (auto split: nat.splits)
  from this [OF i k'] show ?thesis by (simp add: free_hash_def h')
qed

section \<open>Changes of the store\<close>

lemma held_update:
  "finite (dom C) \<Longrightarrow> C c = Some x \<Longrightarrow>
   held (C(c \<mapsto> y)) f + count (mset (shared_list x)) f = held C f + count (mset (shared_list y)) f"
  using msum_update [of C c y "\<lambda>x. count (mset (shared_list x)) f"] by (simp add: held_def)

lemma held_drop: "finite (dom C) \<Longrightarrow> C c = Some x \<Longrightarrow> held (C(c := None)) f + count (mset (shared_list x)) f = held C f"
  using msum_remove [of C "\<lambda>x. count (mset (shared_list x)) f" c] by (simp add: held_def)

lemma tokenized_words:
  "distinct (indexed F n)" "\<forall>w \<in> set (indexed F n). lower w = w" "length (indexed F n) < 31"
  using distinct_indexed [of F n] indexed_subset [of F n] tokenize_lower length_indexed [of F n] by fastforce+

lemma store_insert:
  assumes S: "store_ok C U m" and c: "C c = Some x" and u: "U u = Some c" and d: "d_user d = Some u" "d_refcount d = 0"
    and h: "h = (case x of None \<Rightarrow> hash_init 257 | Some h \<Rightarrow> h)" and f: "f = m_next_file m"
    and m1: "m1 = ref_datum f (new_datum d m)"
  shows "store_ok (C(c \<mapsto> Some (hash_add h name f))) U (fold (fdb_add f) (indexed (m_Filter m) (d_filename d)) m1)"
    "\<exists>r. m_datums (fold (fdb_add f) (indexed (m_Filter m) (d_filename d)) m1) f = Some (d\<lparr>d_refcount := r\<rparr>)"
    "m_Filter (fold (fdb_add f) (indexed (m_Filter m) (d_filename d)) m1) = m_Filter m"
proof -
  note D = store_okD [OF S]
  let ?C = "C(c \<mapsto> Some (hash_add h name f))" and ?ws = "indexed (m_Filter m) (d_filename d)"
  let ?m = "fold (fdb_add f) ?ws m1"
  have hi: "hash_invar h" "mset (free_hash h) = mset (shared_list x)"
    using D(2) c by (cases x; simp add: h) (cases x; simp add: h shared_list_def free_hash_def hash_init_def)
  have add: "mset (shared_list (Some (hash_add h name f))) = add_mset f (mset (shared_list x))"
    using mset_hash_add [OF hi(1)] hi(2) by (simp add: shared_list_def)
  note N = index_new [OF D(3) d(2), folded f, folded m1]
  have "held ?C g = held C g + (if g = f then 1 else 0)" for g
    using held_update [OF D(1) c, of "Some (hash_add h name f)" g] by (cases "g = f") (simp_all add: add)
  then have held: "held ?C = (held C)(f := 1)" using N(2) by auto
  let ?d = "d\<lparr>d_refcount := 1\<rparr>"
  have d1: "m_datums m1 f = Some ?d" by (simp add: m1 ref_datum_def new_datum_def f d(2))
  have fl: "m_Filter m1 = m_Filter m" by (simp add: m1 ref_datum_def new_datum_def)
  have old: "m_datums m1 g = m_datums m g" if "g \<noteq> f" for g using that by (simp add: m1 ref_datum_def new_datum_def f)
  have F: "index_ok {f} (held ?C) ?m \<and> (\<forall>w \<in> set ?ws. under_word ?m f w) \<and>
    (\<forall>g k. under_word m1 g k \<longrightarrow> under_word ?m g k) \<and>
    (\<exists>r. m_datums ?m f = Some (?d\<lparr>d_refcount := r\<rparr>)) \<and>
    (\<forall>g. g \<noteq> f \<longrightarrow> m_datums ?m g = m_datums m1 g) \<and> m_Filter ?m = m_Filter m1"
  proof (rule fold_fdb_add_ok)
    show "index_ok {f} (held ?C) m1" using N(1) held by simp
    show "unat (d_refcount ?d) + length ?ws < 32" using tokenized_words(3) [of "m_Filter m" "d_filename d"] by simp
  qed (use d1 tokenized_words N(3) in simp_all)
  then obtain r where r: "m_datums ?m f = Some (?d\<lparr>d_refcount := r\<rparr>)" by blast
  have "index_ok {} (held ?C) ?m"
    using F r fl unfolding index_ok_def words_ok_def by (auto, metis (no_types, lifting) datum.select_convs(2) datum.simps(2) datum.surjective datum.update_convs(8) option.inject)
  moreover have "owned ?C U ?m"
    unfolding owned_def
  proof (intro allI impI)
    fix g e assume g: "m_datums ?m g = Some e" "d_size e \<noteq> - 1"
    show "\<exists>v b y. d_user e = Some v \<and> U v = Some b \<and> ?C b = Some y \<and> g \<in> set (shared_list y)"
    proof (cases "g = f")
      case True
      then have "d_user e = Some u" using g r d(1) by auto
      moreover have "f \<in> set (shared_list (Some (hash_add h name f)))" using add by (metis set_mset_mset union_single_eq_member)
      ultimately show ?thesis using u True by auto
    next
      case False
      then have "m_datums m g = Some e" using g(1) F old by simp
      then obtain v b y where v: "d_user e = Some v" "U v = Some b" "C b = Some y" "g \<in> set (shared_list y)"
        using D(4) g(2) unfolding owned_def by blast
      have "g \<in> set (shared_list (Some (hash_add h name f)))" if "b = c"
        using v(3,4) c that add by (metis insert_iff option.inject set_mset_add_mset_insert set_mset_mset)
      with v show ?thesis by auto
    qed
  qed
  ultimately show "store_ok ?C U ?m" using D(1,2) hash_invar_add [OF hi(1)] by (simp add: store_ok_def)
  show "\<exists>r. m_datums ?m f = Some (d\<lparr>d_refcount := r\<rparr>)" using r by auto
  show "m_Filter ?m = m_Filter m" using F fl by simp
qed

lemma store_unshare:
  assumes S: "store_ok C U m" and c: "C c = Some (Some h)" and r: "hash_remove h name = (h', Some f)"
  shows "store_ok (C(c \<mapsto> Some h')) U (m\<lparr>m_datums := free_datum f (m_datums m)\<rparr>)"
proof -
  note D = store_okD [OF S]
  let ?C = "C(c \<mapsto> Some h')" and ?m = "m\<lparr>m_datums := free_datum f (m_datums m)\<rparr>"
  have hi: "hash_invar h" using D(2) c by blast
  have b: "mset (shared_list (Some h)) = add_mset f (mset (shared_list (Some h')))"
    using mset_hash_remove [OF hi r] by (simp add: shared_list_def)
  have held: "held ?C g + (if g = f then 1 else 0) = held C g" for g
    using held_update [OF D(1) c, of "Some h'" g] by (simp add: b split: if_splits)
  have "index_ok {} (\<lambda>g. held C g - count (mset [f]) g) (m\<lparr>m_datums := fold free_datum [f] (m_datums m)\<rparr>)"
  proof (rule index_free [OF D(3)])
    show "count (mset [f]) g \<le> held C g" for g using held [of g] by (cases "g = f") simp_all
  qed
  moreover have "(\<lambda>g. held C g - count (mset [f]) g) = held ?C"
  proof
    show "held C g - count (mset [f]) g = held ?C g" for g using held [of g] by (cases "g = f") simp_all
  qed
  moreover have "owned ?C U ?m"
    unfolding owned_def
  proof (intro allI impI)
    fix g e assume g: "m_datums ?m g = Some e" "d_size e \<noteq> - 1"
    then have l: "m_datums m g = Some e" "g \<noteq> f" using free_list_live [of "[f]" "m_datums m" g e] by simp_all
    then obtain v a y where v: "d_user e = Some v" "U v = Some a" "C a = Some y" "g \<in> set (shared_list y)"
      using D(4) g(2) unfolding owned_def by blast
    have "g \<in> set (shared_list (Some h'))" if "a = c"
      using v(3,4) c that b l(2) by (metis insert_iff option.inject set_mset_add_mset_insert set_mset_mset)
    with v show "\<exists>v a y. d_user e = Some v \<and> U v = Some a \<and> ?C a = Some y \<and> g \<in> set (shared_list y)" by auto
  qed
  moreover have "hash_invar h'" using hash_invar_remove [OF hi, of name] r by simp
  ultimately show ?thesis using D(1,2) by (simp add: store_ok_def)
qed

lemma store_drop:
  assumes S: "store_ok C U m" and c: "C c = Some x" and U: "\<And>v d. U v = Some d \<Longrightarrow> d \<noteq> c \<Longrightarrow> U' v = Some d"
  shows "store_ok (C(c := None)) U' (m\<lparr>m_datums := fold free_datum (shared_list x) (m_datums m)\<rparr>)"
proof -
  note D = store_okD [OF S]
  let ?C = "C(c := None)" and ?m = "m\<lparr>m_datums := fold free_datum (shared_list x) (m_datums m)\<rparr>"
  have held: "held ?C g + count (mset (shared_list x)) g = held C g" for g by (rule held_drop [OF D(1) c])
  have "index_ok {} (\<lambda>g. held C g - count (mset (shared_list x)) g) ?m"
  proof (rule index_free [OF D(3)])
    show "count (mset (shared_list x)) g \<le> held C g" for g using held [of g] by linarith
  qed
  moreover have "(\<lambda>g. held C g - count (mset (shared_list x)) g) = held ?C"
  proof
    show "held C g - count (mset (shared_list x)) g = held ?C g" for g using held [of g] by linarith
  qed
  moreover have "owned ?C U' ?m"
    unfolding owned_def
  proof (intro allI impI)
    fix g e assume g: "m_datums ?m g = Some e" "d_size e \<noteq> - 1"
    then have l: "m_datums m g = Some e" "g \<notin> set (shared_list x)" using free_list_live [of _ "m_datums m" g e] by simp_all
    then obtain v a y where v: "d_user e = Some v" "U v = Some a" "C a = Some y" "g \<in> set (shared_list y)"
      using D(4) g(2) unfolding owned_def by blast
    then have "a \<noteq> c" using c l(2) by auto
    with v U show "\<exists>v a y. d_user e = Some v \<and> U' v = Some a \<and> ?C a = Some y \<and> g \<in> set (shared_list y)" by auto
  qed
  ultimately show ?thesis using D(1,2) by (simp add: store_ok_def)
qed

lemma store_garbage:
  assumes "store_ok C U m"
  shows "store_ok C U (hash_foreach h collect_garbage m)"
proof -
  note D = store_okD [OF assms]
  have reap: "m_datums n f = Some d" if "m_datums (reap_list l n) f = Some d" "d_size d \<noteq> - 1" for l n f d
    using that by (auto simp: reap_list_def Let_def split: option.splits dest: free_list_live)
  have one: "m_datums n f = Some d" if "m_datums (collect_garbage l n) f = Some d" "d_size d \<noteq> - 1" for l n f d
  proof -
    let ?r = "reap_list l n"
    have "\<exists>fs. m_datums (collect_garbage l n) = fold free_datum fs (m_datums ?r)"
    proof (cases "m_flists ?r l")
      case None
      then show ?thesis by (intro exI [of _ "[]"]) (simp add: collect_garbage_def Let_def)
    next
      case L: (Some L)
      show ?thesis
      proof (cases "hash_remove (m_File_Table ?r) (fl_key L)")
        case (Pair t k)
        show ?thesis
        proof (cases "fl_count L = 0 \<and> k \<noteq> None")
          case True
          then obtain j where "k = Some j" by blast
          then have "m_datums (collect_garbage l n) = fold free_datum (fl_list (the (m_flists ?r j))) (m_datums ?r)"
            using L Pair True by (simp add: collect_garbage_def Let_def free_flist_def)
          then show ?thesis by (rule exI)
        next
          case False
          then have "m_datums (collect_garbage l n) = m_datums ?r"
            using L Pair by (cases k) (simp_all add: collect_garbage_def Let_def)
          then show ?thesis by (intro exI [of _ "[]"]) simp
        qed
      qed
    qed
    then obtain fs where "m_datums (collect_garbage l n) = fold free_datum fs (m_datums ?r)" by blast
    then have "m_datums ?r f = Some d" using that free_list_live [of fs "m_datums ?r" f d] by simp
    then show ?thesis using that(2) by (rule reap)
  qed
  have all: "m_datums (fold collect_garbage ls n) f = Some d \<Longrightarrow> d_size d \<noteq> - 1 \<Longrightarrow> m_datums n f = Some d" for ls n f d
  proof (induction ls arbitrary: n)
    case (Cons l ls)
    have "m_datums (collect_garbage l n) f = Some d" by (rule Cons.IH) (use Cons.prems in simp_all)
    then show ?case using Cons.prems(2) by (rule one)
  qed simp
  have "owned C U (fold collect_garbage ls m)" for ls
    unfolding owned_def
  proof (intro allI impI)
    fix f d assume "m_datums (fold collect_garbage ls m) f = Some d" "d_size d \<noteq> - 1"
    then show "\<exists>u c x. d_user d = Some u \<and> U u = Some c \<and> C c = Some x \<and> f \<in> set (shared_list x)"
      using D(4) all [of ls m f d] unfolding owned_def by blast
  qed
  then have "owned C U (hash_foreach h collect_garbage m)" by (simp add: hash_foreach_def)
  then show ?thesis using D index_garbage by (simp add: store_ok_def)
qed

section \<open>The commands\<close>

definition file_part :: "misc \<Rightarrow> misc" where
  "file_part m = m\<lparr>m_Num_Clients := 0, m_LastFlooder := [], m_Server_Names := [], m_motd := [], m_SigCaught := False,
     m_searches := [], m_Search_Count := 0, m_servers := None\<rparr>"

lemma store_file_part: "store_ok C U (file_part m) = store_ok C U m"
  by (simp add: store_ok_def index_ok_def lists_ok_def words_ok_def under_word_def lrefs_def owned_def file_part_def)

definition same_store :: "srv \<Rightarrow> srv \<Rightarrow> bool" where
  "same_store s t \<longleftrightarrow> tables s = tables t \<and> owners s = owners t \<and> file_part (s_misc s) = file_part (s_misc t)"

lemma same_store_files: "same_store s t \<Longrightarrow> files_ok s = files_ok t"
  unfolding same_store_def files_ok_def by (metis store_file_part)

lemma same_store_output [simp]:
  "same_store s s" "same_store (emit fs s) r = same_store s r" "same_store (send_cmd d t m s) r = same_store s r"
  "same_store (unparsable d s) r = same_store s r" "same_store (too_many_msg d s) r = same_store s r"
  "same_store (pass_message_args x t m s) r = same_store s r"
  by (simp_all add: same_store_def tables_def owners_def too_many_msg_def)

lemma same_store_count [simp]:
  "same_store (count_file u z s) r = same_store s r" "same_store (uncount_file u z s) r = same_store s r"
  by (auto simp: same_store_def tables_def owners_def count_file_def uncount_file_def upd_user_def Let_def
      option.map_comp comp_def fun_eq_iff)

lemma files_ok_output [simp]:
  "files_ok (send_cmd d t m s) = files_ok s" "files_ok (unparsable d s) = files_ok s"
  "files_ok (too_many_msg d s) = files_ok s" "files_ok (pass_message_args x t m s) = files_ok s"
  "files_ok (emit fs s) = files_ok s"
  "files_ok (count_file u z s) = files_ok s" "files_ok (uncount_file u z s) = files_ok s"
  by (rule same_store_files; simp)+

text \<open>Who may share: a user on this connection.\<close>

definition sharer :: "cid \<Rightarrow> srv \<Rightarrow> bool" where
  "sharer con s \<longleftrightarrow> con \<in> dom (s_conns s) \<and> owners s (c_user (cnx s con)) = Some con"

lemma sharer_wf:
  assumes "wf s" "ISUSER con s" "con \<in> dom (s_conns s)"
  shows "sharer con s"
proof -
  obtain K where K: "s_conns s con = Some K" "c_class K = CLASS_USER" using assms(2,3) by (auto simp: ISUSER_def)
  then show ?thesis using conn_okD(1) [OF wf_uptoD(4) [OF assms(1)] K, of 0] by (auto simp: sharer_def owners_def)
qed

lemma sharer_shape:
  assumes "same_shape t s" "sharer con s"
  shows "sharer con t"
proof -
  note S = same_shapeD [OF assms(1)] and R = same_shapeD [OF same_shape_sym [OF assms(1)]]
  obtain K U where K: "s_conns s con = Some K" "s_users s (c_user K) = Some U" "u_con U = con"
    using assms(2) by (auto simp: sharer_def owners_def)
  then obtain B where B: "s_conns t con = Some B" "conn_shape B = conn_shape K" using R(2) by blast
  obtain V where "s_users t (c_user K) = Some V" "user_shape V = user_shape U" using R(1) K(2) by blast
  with K B show ?thesis by (auto simp: sharer_def owners_def conn_shape_def user_shape_def)
qed

lemma insert_datum_store:
  assumes F: "files_ok s" and c: "sharer con s" and d: "d_user d = Some (c_user (cnx s con))" "d_refcount d = 0"
  shows "files_ok (insert_datum d (c_user (cnx s con)) s)"
    "\<exists>r. datums (insert_datum d (c_user (cnx s con)) s) (m_next_file (s_misc s)) = Some (d\<lparr>d_refcount := r\<rparr>)"
    "m_Filter (s_misc (insert_datum d (c_user (cnx s con)) s)) = m_Filter (s_misc s)"
proof -
  let ?u = "c_user (cnx s con)" and ?f = "m_next_file (s_misc s)" and ?n = "d_filename d"
  obtain K where K: "s_conns s con = Some K" using c by (auto simp: sharer_def)
  obtain U where U: "s_users s ?u = Some U" "u_con U = con" using c by (auto simp: sharer_def owners_def)
  let ?h = "case c_files K of None \<Rightarrow> hash_init 257 | Some h \<Rightarrow> h"
  let ?t = "share_datum (user_con s ?u) ?n ?f (upd_misc (new_datum d) s)"
  let ?v = "upd_misc (\<lambda>m. fold (fdb_add ?f) (indexed (m_Filter m) ?n) (ref_datum ?f m)) ?t"
  have run: "insert_datum d ?u s = count_file ?u (d_size d) ?v" by (simp add: insert_datum_def Let_def)
  have tab: "tables ?v = (tables s)(con \<mapsto> Some (hash_add ?h ?n ?f))"
    using K U by (auto simp: tables_def share_datum_def upd_conn_def fun_eq_iff)
  have own: "owners ?v = owners s" by (simp add: owners_def share_datum_def)
  have misc: "s_misc ?v = fold (fdb_add ?f) (indexed (m_Filter (s_misc s)) ?n) (ref_datum ?f (new_datum d (s_misc s)))"
    by (simp add: share_datum_def new_datum_def)
  have C: "tables s con = Some (c_files K)" "owners s ?u = Some con" using K U by (simp_all add: tables_def owners_def)
  note I = store_insert [OF F [unfolded files_ok_def] C d refl refl refl]
  have "files_ok ?v" unfolding files_ok_def tab own misc by (rule I(1))
  then show "files_ok (insert_datum d ?u s)" unfolding run by simp
  have "s_misc (insert_datum d ?u s) = s_misc ?v" unfolding run by (simp add: count_file_def Let_def)
  then show "\<exists>r. datums (insert_datum d ?u s) ?f = Some (d\<lparr>d_refcount := r\<rparr>)"
    "m_Filter (s_misc (insert_datum d ?u s)) = m_Filter (s_misc s)" using I(2,3) unfolding misc by simp_all
qed

lemma file_datum_simps [simp]:
  "d_user (file_datum u n z b q l) = Some u" "d_refcount (file_datum u n z b q l) = 0"
  by (simp_all add: file_datum_def)

lemma files_add_files: "files_ok s \<Longrightarrow> sharer con s \<Longrightarrow> files_ok (add_files n con dir pkt s)"
proof (induction n con dir pkt s rule: add_files.induct)
  case (2 fuel con dir pkt s)
  show ?case
  proof (cases "pkt = None \<or> too_many (c_user (cnx s con)) s \<or> pop_args 6 pkt = None")
    case True
    then show ?thesis using "2.prems" by (auto simp: Let_def split: option.split)
  next
    case False
    then obtain q av r where p: "pkt = Some q" "pop_args 6 pkt = Some (av, r)" by auto
    let ?path = "path_in dir (av ! 0)"
    let ?s = "if con_file con ?path s \<noteq> None then send_cmd con MSG_SERVER_NOSUCH ''Duplicate file'' s
       else if atoi (av ! 2) < 1 then send_cmd con MSG_SERVER_NOSUCH ''invalid size'' s
       else insert_datum (file_datum (c_user (cnx s con)) ?path (word_of_int (atoi (av ! 2))) (av ! 3) (av ! 4) (av ! 5))
              (c_user (cnx s con)) s"
    have "same_shape ?s s" by simp
    then have "sharer con ?s" using "2.prems"(2) by (rule sharer_shape)
    moreover have "files_ok ?s"
      using "2.prems" insert_datum_store(1) by simp
    ultimately have "files_ok (add_files fuel con dir r ?s)" using "2.IH" [OF refl _ _ p(2) refl refl refl refl] False by simp
    then show ?thesis using False p by (simp add: Let_def)
  qed
qed simp

lemma files_unshare:
  assumes F: "files_ok s" and c: "con \<in> dom (s_conns s)"
  shows "files_ok (unshare con name s)"
proof -
  obtain K where K: "s_conns s con = Some K" using c by blast
  show ?thesis
  proof (cases "c_files K")
    case (Some h)
    show ?thesis
    proof (cases "hash_remove h name")
      case (Pair h' r)
      show ?thesis
      proof (cases r)
        case (Some f)
        let ?t = "unshare con name s"
        have run: "?t = upd_conn con (\<lambda>C. C\<lparr>c_files := Some h'\<rparr>) (upd_misc (\<lambda>m. m\<lparr>m_datums := free_datum f (m_datums m)\<rparr>) s)"
          using K \<open>c_files K = Some h\<close> Pair Some by (simp add: unshare_def)
        have "tables ?t = (tables s)(con \<mapsto> Some h')" "owners ?t = owners s"
          "s_misc ?t = (s_misc s)\<lparr>m_datums := free_datum f (m_datums (s_misc s))\<rparr>"
          using K by (auto simp: run tables_def owners_def upd_conn_def)
        moreover have "tables s con = Some (Some h)" using K \<open>c_files K = Some h\<close> by (simp add: tables_def)
        ultimately show ?thesis
          using store_unshare [OF F [unfolded files_ok_def]] Pair Some by (simp add: files_ok_def)
      qed (use F K \<open>c_files K = Some h\<close> Pair in \<open>simp add: unshare_def\<close>)
    qed
  qed (use F K in \<open>simp add: unshare_def\<close>)
qed

lemma files_commands:
  assumes F: "files_ok s" and w: "wf s" and c: "con \<in> dom (s_conns s)"
  shows "files_ok (add_file con tag pkt s)" "files_ok (share_file con tag pkt s)" "files_ok (add_directory con tag pkt s)"
    "files_ok (remove_file con tag pkt s)" "files_ok (fdb_garbage_collect s)"
proof -
  have S: "sharer con s" if "ISUSER con s" using sharer_wf [OF w that c] .
  note I = insert_datum_store(1) [OF F S]
  show "files_ok (add_file con tag pkt s)" using F I by (simp add: add_file_def Let_def)
  show "files_ok (share_file con tag pkt s)" using F I by (simp add: share_file_def Let_def split: option.split)
  show "files_ok (add_directory con tag pkt s)"
    using F files_add_files [OF F S] by (simp add: add_directory_def Let_def del: add_files.simps split: option.split prod.split)
  have "files_ok (unshare con n (uncount_file u z s))" for n u z
  proof (rule files_unshare)
    show "con \<in> dom (s_conns (uncount_file u z s))" using c by (simp add: uncount_file_def Let_def)
  qed (use F in simp)
  then show "files_ok (remove_file con tag pkt s)" using F by (simp add: remove_file_def Let_def split: option.split)
  show "files_ok (fdb_garbage_collect s)"
    using store_garbage [of "tables s" "owners s" "s_misc s"] F
    by (simp add: fdb_garbage_collect_def files_ok_def tables_def owners_def)
qed

lemma stop_waiting_misc [simp]: "s_misc (fold (stop_waiting con) hs s) = s_misc s"
proof (induction hs arbitrary: s)
  case (Cons h hs)
  have "s_misc (stop_waiting con h s) = s_misc s" by (simp add: stop_waiting_def hot_remove_def free_hotlist_def Let_def upd_hot_def split: prod.split option.split)
  then show ?case using Cons.IH by simp
qed simp

lemma files_user_leaves:
  assumes F: "files_ok s" and w: "wf s" and u: "ISUSER con s" and c: "con \<in> dom (s_conns s)"
  shows "files_ok (remove_connection con s)"
proof -
  obtain K where K: "s_conns s con = Some K" "c_class K = CLASS_USER" using u c by (auto simp: ISUSER_def)
  obtain fs ds where can: "cancel_search con s = upd_searches (\<lambda>_. ds) (emit fs s)" using cancel_search_run by blast
  let ?c = "cancel_search con s"
  have cw: "wf ?c" using same_core_wf [OF cancel_frame(6)] w by simp
  obtain U where U: "s_users s (c_user K) = Some U" "u_con U = con" using conn_okD(1) [OF wf_uptoD(4) [OF w] K, of 0] by auto
  have l: "hash_lookup (s_Users ?c) (u_nick U) = Some (c_user K)" by (rule wf_user_named [OF cw]) (simp add: cancel_frame U)
  let ?r = "users_remove (u_nick U) ?c"
  have sh: "same_hots ?r ?c" by (rule same_hots_users_remove)
  then have rc: "s_conns ?r = s_conns s" "s_misc ?r = s_misc ?c" by (simp_all add: same_hots_def cancel_frame)
  let ?x = "c_files K"
  let ?m = "(s_misc ?c)\<lparr>m_datums := fold free_datum (shared_list ?x) (m_datums (s_misc ?c))\<rparr>"
  let ?t = "remove_connection con s"
  have t: "?t = drop_connection con (remove_user con ?c)" using K by (simp add: remove_connection_def Let_def can ISUSER_def)
  have "tables ?t = (tables s)(con := None)"
    using K by (auto simp: t remove_user_def Let_def cancel_frame U rc drop_connection_def tables_def upd_conn_def)
  moreover have "file_part (s_misc ?t) = file_part ?m"
  proof -
    let ?q = "fold (stop_waiting con) (c_hotlist K) ?r"
    have "s_misc (remove_user con ?c) = s_misc (free_files con ?q)"
      using K U by (simp add: remove_user_def Let_def cancel_frame rc)
    also have "\<dots> = ?m" using K by (cases ?x) (simp_all add: free_files_def rc cancel_frame shared_list_def)
    finally show ?thesis by (simp add: t drop_connection_def file_part_def)
  qed
  moreover have own: "owners ?t v = Some d" if v: "owners s v = Some d" "d \<noteq> con" for v d
  proof -
    have vu: "v \<noteq> c_user K" using v U by (auto simp: owners_def)
    obtain V where V: "s_users s v = Some V" "u_con V = d" using v(1) by (auto simp: owners_def)
    have "map_option user_core (s_users ?r v) = Some (user_core V)"
      using users_remove_core [OF l vu] V(1) by (simp add: cancel_frame)
    then obtain W where W: "s_users ?r v = Some W" "user_core W = user_core V" by auto
    moreover have "u_con W = d" using W(2) V(2) by (metis user_core_sel(3))
    moreover have "s_users ?t = s_users ?r" using K by (simp add: t remove_user_def Let_def cancel_frame U drop_connection_def)
    ultimately show ?thesis by (simp add: owners_def)
  qed
  moreover have "store_ok ((tables s)(con := None)) (owners ?t) ?m"
  proof (rule store_drop [where U = "owners s"])
    have "file_part (s_misc ?c) = file_part (s_misc s)" by (simp add: can upd_searches_def file_part_def emit_def)
    then show "store_ok (tables s) (owners s) (s_misc ?c)" using F unfolding files_ok_def by (metis store_file_part)
    show "tables s con = Some ?x" using K by (simp add: tables_def)
  qed (use own in blast)
  ultimately show ?thesis unfolding files_ok_def by (metis store_file_part)
qed

text \<open>C31: The operations on shared files keep their bookkeeping consistent: every file record is kept exactly as long as
  the tables of connections and the lists of words refer to it, with a counter that is the number of these
  references and never wraps; every file that is shared belongs to a user who is there and is in the list of each
  indexed word of its name; and this is so after a file is added, one by one or by directory, or removed, after
  garbage is collected, and after the user who shares it has gone.\<close>

theorem shared_files_consistent:
  assumes "files_ok s" "wf s" "con \<in> dom (s_conns s)"
  shows "files_ok (add_file con tag pkt s) \<and> files_ok (share_file con tag pkt s) \<and> files_ok (add_directory con tag pkt s) \<and>
    files_ok (remove_file con tag pkt s) \<and> files_ok (fdb_garbage_collect s) \<and>
    (ISUSER con s \<longrightarrow> files_ok (remove_connection con s))"
  using files_commands [OF assms] files_user_leaves [OF assms(1,2) _ assms(3)] by blast

lemma files_ok_sample: "files_ok sample"
proof -
  have t: "tables sample = [0 \<mapsto> None, 1 \<mapsto> None, 2 \<mapsto> None]" by (auto simp: tables_def sample_simps)
  show ?thesis
    by (simp add: files_ok_def store_ok_def t held_def msum_def shared_list_def index_ok_def lists_ok_def words_ok_def owned_def
        counts_def lrefs_def) (simp add: sample_def)
qed

lemma shared_files_consistent_witness:
  "files_ok (add_file 0 MSG_CLIENT_ADD_FILE ''a.mp3 0 1000 128 44100 60'' sample) \<and>
   files_ok (remove_connection 0 sample)"
  using shared_files_consistent [OF files_ok_sample wf_sample, of 0]
  by (simp add: ISUSER_def sample_conn_def domIff)

section \<open>What a search answers\<close>

lemma smallest_Some:
  "smallest m ts best = Some l \<Longrightarrow> best = Some l \<or> (\<exists>t \<in> set ts. hash_lookup (m_File_Table m) t = Some l)"
  by (induction ts arbitrary: best) (auto split: option.splits if_splits)

lemma smallest_total:
  assumes "\<forall>t \<in> set ts. hash_lookup (m_File_Table m) t \<noteq> None" "ts \<noteq> [] \<or> best \<noteq> None"
  obtains l where "smallest m ts best = Some l"
  using assms
proof (induction ts arbitrary: thesis best)
  case (Cons t ts)
  obtain j where j: "hash_lookup (m_File_Table m) t = Some j" using Cons.prems(2) by auto
  let ?b = "case best of None \<Rightarrow> Some j
    | Some b \<Rightarrow> if fl_count (the (m_flists m j)) < fl_count (the (m_flists m b)) then Some j else Some b"
  have "?b \<noteq> None" by (simp split: option.split)
  then obtain l where "smallest m ts ?b = Some l" using Cons.IH [of ?b] Cons.prems(2) by auto
  then show ?case using Cons.prems(1) [of l] j by simp
qed auto

lemma smallest_count [simp]: "smallest (m\<lparr>m_Search_Count := k\<rparr>) ts b = smallest m ts b"
  by (induction ts arbitrary: b) (auto split: option.split)

text \<open>A file with all tokens among the indexed words of its name.\<close>

definition has_words :: "srv \<Rightarrow> string list \<Rightarrow> fid \<Rightarrow> bool" where
  "has_words s tokens f \<longleftrightarrow> (\<exists>d. datums s f = Some d \<and> set tokens \<subseteq> set (indexed (m_Filter (s_misc s)) (d_filename d)))"

text \<open>A match that the searcher may see: shared, with all tokens in the name, and acceptable.\<close>

definition is_match :: "search_parms \<Rightarrow> srv \<Rightarrow> string list \<Rightarrow> fid \<Rightarrow> bool" where
  "is_match q s tokens f \<longleftrightarrow> (\<exists>d. datums s f = Some d \<and> d_size d \<noteq> - 1 \<and> match_tokens tokens (d_filename d) \<and> acceptable q d s)"

lemma listed_datum:
  assumes I: "index_ok X N m" and L: "m_flists m l = Some L" "f \<in> set (fl_list L)"
  shows "m_datums m f \<noteq> None"
proof
  assume "m_datums m f = None"
  then have "lrefs m f = 0" using countsD(2) [OF index_okD(3) [OF I]] by fastforce
  then have "count (mset (fl_list L)) f = 0"
    using msum_ge [OF lists_okD(1) [OF index_okD(1) [OF I]] L(1), of "\<lambda>L. count (mset (fl_list L)) f"] by (simp add: lrefs_def)
  then show False using L(2) by (simp add: count_eq_zero_iff)
qed

lemma hits_distinct:
  assumes "lists_ok m" "m_flists m l = Some L"
  shows "distinct (first_hits n (filter P (fl_list L)))"
  using lists_okD(3) [OF assms] by (simp add: first_hits_def)

lemma first_hits_length: "0 < n \<Longrightarrow> length (first_hits n fs) \<le> nat n" "set (first_hits n fs) \<subseteq> set fs"
  by (auto simp: first_hits_def dest: in_set_takeD)

lemma first_hits_all: "n \<le> 0 \<or> int (length (first_hits n fs)) < n \<Longrightarrow> first_hits n fs = fs"
  by (cases "0 < n"; cases "length fs \<le> nat n") (simp_all add: first_hits_def)

text \<open>C32: A search answers with exactly what it should: the files it answers with are all different, shared, have every token in their name up to
  case and pass the filters on type, rate, speed and reachability; there are no more of them than asked for; and
  unless the search stopped at that number, every matching file with the tokens among the indexed words of its
  name is one of them.  Nothing else is sent.\<close>

theorem search_answers:
  assumes F: "files_ok s" and run: "fdb_search tokens maxhits q s = (n, t)" and ne: "tokens \<noteq> []"
  shows "\<exists>R. n = int (length R) \<and> distinct R \<and> s_out t = s_out s @ map (answer q s) R \<and>
    (\<forall>f \<in> set R. is_match q s tokens f) \<and> (0 < maxhits \<longrightarrow> n \<le> maxhits) \<and>
    (maxhits \<le> 0 \<or> n < maxhits \<longrightarrow> (\<forall>f. is_match q s tokens f \<and> has_words s tokens f \<longrightarrow> f \<in> set R))"
proof -
  let ?m = "s_misc s"
  have I: "index_ok {} (held (tables s)) ?m" using F by (simp add: files_ok_def store_ok_def)
  note J = index_okD [OF I]
  let ?u = "upd_misc (\<lambda>m. m\<lparr>m_Search_Count := Suc (m_Search_Count m)\<rparr>) s"
  have ac: "acceptable q d ?u = acceptable q d s" for d by (simp add: acceptable_def Let_def)
  have an: "answer q ?u = answer q s"
    by (simp add: fun_eq_iff answer_def send_match_def result_text_def send_cmd_def queue_data_def emit_def Let_def split: option.split)
  have under: "\<forall>w \<in> set tokens. under_word ?m f w" if "is_match q s tokens f" "has_words s tokens f" for f
    using J(4) that unfolding words_ok_def is_match_def has_words_def by auto
  show ?thesis
  proof (cases "smallest ?m tokens None")
    case None
    then have t: "n = 0" "t = ?u" using run by (simp_all add: fdb_search_def Let_def)
    have "\<not> (is_match q s tokens f \<and> has_words s tokens f)" for f
    proof
      assume "is_match q s tokens f \<and> has_words s tokens f"
      then have "\<forall>w \<in> set tokens. hash_lookup (m_File_Table ?m) w \<noteq> None" using under by (auto simp: under_word_def)
      then obtain l where "smallest ?m tokens None = Some l" using smallest_total ne by metis
      then show False using None by simp
    qed
    then show ?thesis using t by (intro exI [of _ "[]"]) simp
  next
    case (Some l)
    obtain w where w: "w \<in> set tokens" "hash_lookup (m_File_Table ?m) w = Some l" using smallest_Some [OF Some] by auto
    then obtain L where L: "m_flists ?m l = Some L" using lookup_list [OF J(1)] by metis
    let ?R = "first_hits maxhits (filter (hit tokens q ?u) (fl_list L))"
    have r: "n = int (length ?R)" "s_out t = s_out s @ map (answer q s) ?R"
      using run L by (auto simp: fdb_search_def Let_def Some search_list_hits an emit_def)
    have hit: "hit tokens q ?u f = is_match q s tokens f" if "f \<in> set (fl_list L)" for f
      using listed_datum [OF I L that] by (auto simp: hit_def is_match_def Let_def ac)
    have all: "f \<in> set ?R" if c: "maxhits \<le> 0 \<or> n < maxhits" and f: "is_match q s tokens f" "has_words s tokens f" for f
    proof -
      have "under_word ?m f w" using under [OF f] w(1) by blast
      then have "f \<in> set (fl_list L)" using w(2) L by (simp add: under_word_def)
      then have "f \<in> set (filter (hit tokens q ?u) (fl_list L))" using hit f(1) by simp
      moreover have "?R = filter (hit tokens q ?u) (fl_list L)" using c r(1) by (intro first_hits_all) simp
      ultimately show ?thesis by simp
    qed
    have sub: "is_match q s tokens f" if "f \<in> set ?R" for f
    proof -
      have "f \<in> set (filter (hit tokens q ?u) (fl_list L))" by (rule subsetD [OF first_hits_length(2) that])
      then have m: "f \<in> set (fl_list L)" "hit tokens q ?u f" by auto
      show ?thesis using hit [OF m(1)] m(2) by blast
    qed
    have "0 < maxhits \<longrightarrow> n \<le> maxhits" using first_hits_length(1) [of maxhits "filter (hit tokens q ?u) (fl_list L)"] r(1) by linarith
    moreover have "distinct ?R" by (rule hits_distinct [OF J(1) L])
    moreover have "\<forall>f \<in> set ?R. is_match q s tokens f" using sub by blast
    moreover have "maxhits \<le> 0 \<or> n < maxhits \<longrightarrow> (\<forall>f. is_match q s tokens f \<and> has_words s tokens f \<longrightarrow> f \<in> set ?R)"
      using all by blast
    ultimately show ?thesis
    proof (intro exI [of _ ?R] conjI)
      show "n = int (length ?R)" by (rule r(1))
      show "s_out t = s_out s @ map (answer q s) ?R" by (rule r(2))
    qed
  qed
qed

text \<open>One file, shared by bob, that alice looks for.\<close>

definition sample_file :: datum where
  "sample_file = \<lparr>d_user = Some 1, d_filename = ''Foo'', d_size = 1000, d_duration = 60, d_bitrate = 13, d_frequency = 4,
     d_type = 0, d_refcount = 0\<rparr>"

definition sample_shared :: srv where
  "sample_shared = insert_datum sample_file 1 sample"

definition sample_search :: search_parms where
  "sample_search = q_parms (new_query 0 0 None sample)"

lemma tokenize_foo: "tokenize F ''Foo'' = (if is_filtered F ''foo'' then [] else [''foo''])"
  by (simp add: tokenize_def tokenize_from.simps WORD_CHAR_def c_isalnum_def strlower_def char_eval)

lemma shared_sharer: "sharer 1 sample" "c_user (cnx sample 1) = 1"
  by (simp_all add: sharer_def owners_def domIff sample_conn_def sample_user_def)

lemma sample_shared_ok:
  "files_ok sample_shared" "\<exists>r. datums sample_shared 0 = Some (sample_file\<lparr>d_refcount := r\<rparr>)"
  "m_Filter (s_misc sample_shared) = None"
proof -
  have d: "d_user sample_file = Some (c_user (cnx sample 1))" "d_refcount sample_file = 0" and m: "m_next_file (s_misc sample) = 0"
    by (simp_all add: sample_file_def shared_sharer del: One_nat_def) (simp add: sample_def)
  note I = insert_datum_store [OF files_ok_sample shared_sharer(1) d]
  show "files_ok sample_shared" "\<exists>r. datums sample_shared 0 = Some (sample_file\<lparr>d_refcount := r\<rparr>)"
    "m_Filter (s_misc sample_shared) = None"
    using I by (simp_all add: sample_shared_def shared_sharer m del: One_nat_def) (simp add: sample_def)
qed

lemma search_answers_witness:
  "0 < fst (fdb_search [''foo''] 10 sample_search sample_shared)"
proof -
  let ?s = sample_shared
  obtain n t where r: "fdb_search [''foo''] 10 sample_search ?s = (n, t)" by fastforce
  obtain R where R: "n = int (length R)" "n < 10 \<longrightarrow> (\<forall>f. is_match sample_search ?s [''foo''] f \<and> has_words ?s [''foo''] f \<longrightarrow> f \<in> set R)"
    using search_answers [OF sample_shared_ok(1) r] by auto
  have ix: "indexed None ''Foo'' = [''foo'']" by (simp add: indexed_def tokenize_foo is_filtered_def)
  have u: "u_port (usr ?s v) = u_port (usr sample v)" "u_speed (usr ?s v) = u_speed (usr sample v)" if "v \<in> {0, 1}" for v
    using that by (auto simp: sample_shared_def insert_datum_def count_file_def share_datum_def Let_def upd_user_def)
  have "acceptable sample_search (sample_file\<lparr>d_refcount := r\<rparr>) ?s" for r
    using u [of 0] u [of 1]
    by (simp add: acceptable_def sample_search_def new_query_def sample_file_def sample_user_def MAX_SPEED_def
        MAX_BITRATE_def MAX_FREQUENCY_def BitRate_def SampleRate_def)
  moreover have "match_tokens [''foo''] ''Foo''"
    by (simp add: match_tokens_def c_toupper_def strncaseeq_def char_eval)
  ultimately have "is_match sample_search ?s [''foo''] 0"
    using sample_shared_ok(2) by (auto simp: is_match_def sample_file_def)
  moreover have "has_words ?s [''foo''] 0" using sample_shared_ok(2,3) by (auto simp: has_words_def sample_file_def ix)
  ultimately have "n < 10 \<longrightarrow> 0 < length R" using R(2) by (auto simp: length_pos_if_in_set)
  then show ?thesis using R(1) r by (cases "n < 10") auto
qed

end
