(* ===== verification/Synch.thy ===== *)
theory Synch
  imports Bans Links
begin

text \<open>
  Telling a server that has just been linked what is known here (\<open>src/synch.c\<close>): the other servers, the
  users with their channels, the channels with their modes, and the bans.
\<close>

section \<open>The operations\<close>


definition time_dec :: "int \<Rightarrow> string" where
  "time_dec t = int_dec (wrap32 t)"

text \<open>\<open>None\<close>: a user with a level but without a registration, whose time stamp is read through \<open>NULL\<close>.\<close>

definition sync_user :: "cid \<Rightarrow> uid \<Rightarrow> srv \<Rightarrow> srv option" where
  "sync_user con user s =
     (let U = usr s user; nick = u_nick U; me = Server_Name (s_cfg s) in
      if u_con U = con then Some s
      else
        let db = hash_lookup (s_User_Db s) nick;
            s = send_cmd con MSG_CLIENT_LOGIN
                  (nick @ '' '' @ u_pass U @ '' '' @ nat_dec (u_port U) @ '' '' @ [dquote] @ u_clientinfo U @ [dquote] @
                   '' '' @ nat_dec (u_speed U) @ '' unknown '' @ time_dec (u_connected U) @ '' '' @
                   nat_dec (unat (u_ip U)) @ '' '' @ u_server U @ '' '' @ nat_dec (u_conport U)) s
        in if u_level U \<noteq> LEVEL_USER \<and> db = None then None
           else
             let s = (if u_level U \<noteq> LEVEL_USER
                      then send_cmd con MSG_CLIENT_SETUSERLEVEL ('':'' @ me @ '' '' @ nick @ '' '' @
                             Levels (u_level U) @ '' '' @ time_dec (db_timestamp (dbs s (the db)))) s
                      else s);
                 s = (if u_cloaked U then send_cmd con MSG_CLIENT_CLOAK ('':'' @ nick @ '' 1'') s else s);
                 s = (if u_shared U \<noteq> 0
                      then send_cmd con MSG_SERVER_USER_SHARING
                             (nick @ '' '' @ nat_dec (u_shared U) @ '' '' @ int_dec (u_libsize U)) s
                      else s);
                 s = fold (\<lambda>c s. send_cmd con MSG_CLIENT_JOIN ('':'' @ nick @ '' '' @ ch_name (chn s c)) s)
                       (u_channels U) s
             in Some (if u_muzzled U then send_cmd con MSG_CLIENT_MUZZLE ('':'' @ me @ '' '' @ nick) s else s))"

text \<open>The format of the modes has three conversions too few for \<open>+INVITE\<close> and \<open>+TOPIC\<close> to be sent.\<close>

definition sync_member :: "cid \<Rightarrow> string \<Rightarrow> chanuser \<Rightarrow> srv \<Rightarrow> srv" where
  "sync_member con name cu s =
     (let text = '':'' @ Server_Name (s_cfg s) @ '' '' @ name @ '' '' @ u_nick (usr s (cu_user cu)) in
      if cu_flags cu AND ON_CHANNEL_VOICE \<noteq> 0 then send_cmd con MSG_CLIENT_CHANNEL_VOICE text s
      else if cu_flags cu AND ON_CHANNEL_MUZZLED \<noteq> 0 then send_cmd con MSG_CLIENT_CHANNEL_MUZZLE text s
      else s)"

definition sync_chan :: "cid \<Rightarrow> chid \<Rightarrow> srv \<Rightarrow> srv" where
  "sync_chan con chan s =
     (let C = chn s chan; head = '':'' @ Server_Name (s_cfg s) @ '' '' @ ch_name C;
          s = (if ch_level C \<noteq> LEVEL_USER
               then send_cmd con MSG_CLIENT_SET_CHAN_LEVEL
                      (head @ '' '' @ Levels (ch_level C) @ '' '' @ time_dec (ch_timestamp C)) s
               else s);
          s = (if int (ch_limit C) \<noteq> Channel_Limit (s_cfg s)
               then send_cmd con MSG_CLIENT_CHANNEL_LIMIT
                      (head @ '' '' @ nat_dec (ch_limit C) @ '' '' @ time_dec (ch_timestamp C)) s
               else s);
          s = (if ch_ops C \<noteq> []
               then send_cmd con MSG_CLIENT_OP (head @ snprintf_to 2048 (concat (map (\<lambda>n. '' '' @ n) (ch_ops C)))) s
               else s);
          s = (if ch_flags C AND (ON_CHANNEL_PRIVATE OR ON_CHANNEL_MODERATED) \<noteq> 0
               then send_cmd con MSG_CLIENT_CHANNEL_MODE
                      (head @ (if ch_flags C AND ON_CHANNEL_PRIVATE \<noteq> 0 then '' +PRIVATE'' else []) @
                       (if ch_flags C AND ON_CHANNEL_MODERATED \<noteq> 0 then '' +MODERATED'' else [])) s
               else s)
      in fold (sync_member con (ch_name C)) (ch_users C) s)"

definition sync_server_list :: "cid \<Rightarrow> srv \<Rightarrow> srv" where
  "sync_server_list con s =
     (let s = fold (\<lambda>serv s.
                if serv \<noteq> con
                then send_cmd con MSG_SERVER_LINK_INFO
                       (Server_Name (s_cfg s) @ '' '' @ nat_dec (c_local_port (cnx s serv)) @ '' '' @
                        c_host (cnx s serv) @ '' '' @ nat_dec (c_port (cnx s serv)) @ '' 1'') s
                else s) (s_Servers s) s
      in fold (\<lambda>l s. send_cmd con MSG_SERVER_LINK_INFO
                (l_server l @ '' '' @ nat_dec (l_port l) @ '' '' @ l_peer l @ '' '' @ nat_dec (l_peerport l) @ '' '' @
                 int_dec (wrap32 (l_hops l + 1))) s) (s_Server_Links s) s)"

definition sync_banlist :: "cid \<Rightarrow> srv \<Rightarrow> srv" where
  "sync_banlist con s =
     fold (\<lambda>b s. send_cmd con MSG_CLIENT_BAN
             ('':'' @ Server_Name (s_cfg s) @ '' '' @ b_target b @ '' '' @ [dquote] @ or_null (b_reason b) @ [dquote] @
              '' '' @ time_dec (b_timeout b)) s) (s_Bans s) s"

definition sync_users :: "cid \<Rightarrow> srv \<Rightarrow> srv option" where
  "sync_users con s = hash_foreach (s_Users s) (\<lambda>u r. Option.bind r (sync_user con u)) (Some s)"

definition synch_server :: "cid \<Rightarrow> srv \<Rightarrow> srv option" where
  "synch_server con s =
     map_option (\<lambda>s. sync_banlist con (hash_foreach (s_Channels s) (sync_chan con) s))
       (sync_users con (sync_server_list con s))"

section \<open>Only messages are sent\<close>

definition only_output :: "srv \<Rightarrow> srv \<Rightarrow> bool" where
  "only_output t s \<longleftrightarrow> (\<exists>fs. t = s\<lparr>s_out := s_out s @ fs\<rparr>)"

lemma only_output_refl [simp]: "only_output s s"
  by (simp add: only_output_def exI [of _ "[]"])

lemma only_output_trans: "only_output t s \<Longrightarrow> only_output s r \<Longrightarrow> only_output t r"
  by (fastforce simp: only_output_def)

lemma only_output_send: "only_output s r \<Longrightarrow> only_output (send_cmd c t m s) r"
  by (auto simp: only_output_def send_cmd_def queue_data_def emit_def)

lemma only_output_fold:
  assumes "\<And>x s. only_output (f x s) s" "only_output s r"
  shows "only_output (fold f xs s) r"
  using assms(2)
proof (induction xs arbitrary: s)
  case (Cons x xs)
  have "only_output (f x s) r" using assms(1) Cons.prems by (rule only_output_trans)
  then show ?case using Cons.IH by simp
qed simp

lemma only_output_parts:
  "only_output s r \<Longrightarrow> only_output (sync_server_list con s) r" "only_output s r \<Longrightarrow> only_output (sync_banlist con s) r"
  "only_output (sync_chan con c s) s"
  unfolding sync_server_list_def sync_banlist_def sync_chan_def Let_def
  by (auto simp: sync_member_def Let_def intro!: only_output_fold only_output_send)

lemma only_output_sync_user: "sync_user con u s = Some t \<Longrightarrow> only_output t s"
  by (auto simp: sync_user_def Let_def intro!: only_output_fold only_output_send split: if_splits)

lemma only_output_users: "fold (\<lambda>u r. Option.bind r (sync_user con u)) us (Some s) = Some t \<Longrightarrow> only_output t s"
proof (induction us arbitrary: s)
  case (Cons u us)
  have none: "fold (\<lambda>u r. Option.bind r (sync_user con u)) vs None = None" for vs by (induction vs) simp_all
  show ?case
  proof (cases "sync_user con u s")
    case None
    then show ?thesis using Cons.prems none by simp
  next
    case (Some v)
    then have "only_output t v" using Cons by simp
    then show ?thesis using only_output_sync_user [OF Some] by (rule only_output_trans)
  qed
qed simp

lemma synch_only_output: "synch_server con s = Some t \<Longrightarrow> only_output t s"
proof -
  assume "synch_server con s = Some t"
  then obtain v where v: "sync_users con (sync_server_list con s) = Some v"
    and t: "t = sync_banlist con (hash_foreach (s_Channels v) (sync_chan con) v)"
    by (auto simp: synch_server_def)
  have "only_output v (sync_server_list con s)" using v only_output_users by (simp add: sync_users_def hash_foreach_def)
  moreover have "only_output (sync_server_list con s) s" by (simp add: only_output_parts)
  ultimately have "only_output v s" by (rule only_output_trans)
  then have "only_output (hash_foreach (s_Channels v) (sync_chan con) v) s"
    unfolding hash_foreach_def by (intro only_output_fold only_output_parts(3))
  then show ?thesis unfolding t by (rule only_output_parts(2))
qed

end
