(* ===== verification/Login.thy ===== *)
theory Login
  imports Queries Connections Sharing Synch
begin

text \<open>
  Logging in and registering (\<open>src/login.c\<close>).  \<open>new\<close> is the address that the allocator gives to the
  user that is created.
\<close>

section \<open>Parts of the login\<close>

definition sync_reginfo :: "userdb \<Rightarrow> srv \<Rightarrow> srv" where
  "sync_reginfo db s =
     pass_message_args None MSG_SERVER_REGINFO
       ('':'' @ Server_Name (s_cfg s) @ '' '' @ db_nick db @ '' '' @ db_password db @ '' '' @ db_email db @ '' '' @
        Levels (db_level db) @ '' '' @ time_dec (db_timestamp db) @ '' '' @ time_dec (db_lastSeen db)) s"

definition kill_client :: "string \<Rightarrow> string \<Rightarrow> srv \<Rightarrow> srv" where
  "kill_client nick text s =
     (let buf = snprintf_to 1024 text; me = Server_Name (s_cfg s);
          s = pass_message_args None MSG_CLIENT_KILL ('':'' @ me @ '' '' @ nick @ '' '' @ [dquote] @ buf @ [dquote]) s
      in notify_mods KILLLOG_MODE (me @ '' killed '' @ nick @ '': '' @ buf) s)"

definition doom :: "cid \<Rightarrow> srv \<Rightarrow> srv" where
  "doom con s = upd_conn con (\<lambda>C. C\<lparr>c_destroy := True\<rparr>) s"

definition reject :: "cid \<Rightarrow> string \<Rightarrow> srv \<Rightarrow> srv" where
  "reject con text s = doom con (send_cmd con MSG_SERVER_ERROR text s)"

definition zap_local_user :: "cid \<Rightarrow> string \<Rightarrow> srv \<Rightarrow> srv" where
  "zap_local_user con reason s =
     (let s = send_cmd con MSG_SERVER_NOSUCH (''You were killed by '' @ Server_Name (s_cfg s) @ '': '' @ reason) s;
          s = send_cmd con MSG_SERVER_DISCONNECTING ''0'' s;
          s = upd_conn con (\<lambda>C. C\<lparr>c_killed := True\<rparr>) s
      in upd_conn con (\<lambda>C. C\<lparr>c_class := CLASS_UNKNOWN, c_destroy := True\<rparr>) (remove_user con s))"

fun clones_in :: "32 word \<Rightarrow> srv \<Rightarrow> cid option list \<Rightarrow> int \<Rightarrow> int" where
  "clones_in ip s [] n = n"
| "clones_in ip s (c # cs) n =
     (case c of
        None \<Rightarrow> clones_in ip s cs n
      | Some d \<Rightarrow>
          if (ISUSER d s \<or> ISUNKNOWN d s) \<and> c_ip (cnx s d) = ip
          then (if Max_Clones (s_cfg s) \<le> n + 1 then n + 1 else clones_in ip s cs (n + 1))
          else clones_in ip s cs n)"

definition count_clones :: "32 word \<Rightarrow> srv \<Rightarrow> int" where
  "count_clones ip s = clones_in ip s (s_Clients s) 0"

text \<open>The client that has been connected for the longest time, of those that share nothing.\<close>

fun find_loser :: "cid \<Rightarrow> srv \<Rightarrow> cid option list \<Rightarrow> cid option \<Rightarrow> int \<Rightarrow> cid option" where
  "find_loser con s [] loser when = loser"
| "find_loser con s (c # cs) loser when =
     (case c of
        None \<Rightarrow> find_loser con s cs loser when
      | Some d \<Rightarrow>
          let U = usr s (c_user (cnx s d)) in
          if ISUSER d s \<and> d \<noteq> con \<and> \<not> u_sharing U \<and> u_connected U < when
          then find_loser con s cs (Some d) (u_connected U) else find_loser con s cs loser when)"

definition eject_client :: "cid \<Rightarrow> srv \<Rightarrow> bool \<times> srv" where
  "eject_client con s =
     (case find_loser con s (s_Clients s) None (s_time s) of
        None \<Rightarrow> (False, s)
      | Some d \<Rightarrow>
          let s = kill_client (u_nick (usr s (c_user (cnx s d)))) ''server full, not sharing'' s;
              s = send_cmd d MSG_SERVER_NOSUCH ''server is full and you are not sharing'' s;
              s = send_cmd d MSG_SERVER_DISCONNECTING ''0'' s
          in (True, upd_conn d (\<lambda>C. C\<lparr>c_killed := True, c_destroy := True\<rparr>) s))"

definition find_server :: "string \<Rightarrow> misc \<Rightarrow> string \<times> misc" where
  "find_server name m =
     (case find (strcaseeq name) (m_Server_Names m) of
        Some n \<Rightarrow> (n, m)
      | None \<Rightarrow> (name, m\<lparr>m_Server_Names := name # m_Server_Names m\<rparr>))"

section \<open>The login\<close>

text \<open>Bans, clones and the number of connections; the result says whether to go on.\<close>

definition admit :: "cid \<Rightarrow> string \<Rightarrow> string \<Rightarrow> userdb option \<Rightarrow> srv \<Rightarrow> bool \<times> srv" where
  "admit con nick host db s =
     (if db \<noteq> None \<and> LEVEL_MODERATOR \<le> db_level (the db) then (True, s)
      else case check_ban con nick host s of
        (True, s) \<Rightarrow> (False, s)
      | (False, s) \<Rightarrow>
          if \<not> ISUNKNOWN con s then (True, s)
          else if 0 < Max_Clones (s_cfg s) \<and> Max_Clones (s_cfg s) \<le> count_clones (c_ip (cnx s con)) s
          then (False, reject con ''Exceeded max connections to this server'' s)
          else if m_Num_Clients (s_misc s) < Max_Connections (s_cfg s) then (True, s)
          else
            (case (if Eject_When_Full (s_cfg s) then eject_client con s else (False, s)) of
               (True, s) \<Rightarrow> (True, s)
             | (False, s) \<Rightarrow>
                 (False, reject con (''This server is full ('' @ int_dec (Max_Connections (s_cfg s)) @
                    '' connections)'') s)))"

text \<open>The speed and the port: a client with one out of range is rejected, from a server it counts as 0.\<close>

definition login_number :: "cid \<Rightarrow> string \<Rightarrow> string \<Rightarrow> int \<Rightarrow> int \<Rightarrow> srv \<Rightarrow> int option \<times> srv" where
  "login_number con what nick v hi s =
     (if 0 \<le> v \<and> v \<le> hi then (Some v, s)
      else if ISUNKNOWN con s then (None, reject con (''invalid '' @ what) s)
      else (Some 0, notify_mods ERROR_MODE (''Invalid '' @ what @ '' '' @ int_dec v @ '' for user '' @ nick @
              '' from server '' @ c_host (cnx s con)) s))"

definition bad_password :: "cid \<Rightarrow> string \<Rightarrow> string \<Rightarrow> userdb \<Rightarrow> srv \<Rightarrow> srv" where
  "bad_password con nick host db s =
     (let me = Server_Name (s_cfg s);
          text = ''Bad password for '' @ db_nick db @ '' ('' @ Levels (db_level db) @ '') from '' @ host;
          s = (if LEVEL_USER < db_level db
               then pass_message_args None MSG_SERVER_NOTIFY_MODS
                      ('':'' @ me @ '' '' @ int_dec 1 @ '' '' @ [dquote] @ text @ [dquote]) (notify_mods ERROR_MODE text s)
               else s)
      in if ISUNKNOWN con s then reject con ''Invalid Password'' s
         else sync_reginfo db (kill_client nick ''invalid password'' s))"

text \<open>
  The registration.  The first component is the tag to go on with, or \<open>None\<close> to stop; the whole is
  \<open>None\<close> when the password in the database is not one that \<open>check_pass\<close> can read.
\<close>

definition login_account :: "cid \<Rightarrow> nat \<Rightarrow> string \<Rightarrow> string \<Rightarrow> string \<Rightarrow> userdb option \<Rightarrow> srv \<Rightarrow> (nat option \<times> srv) option" where
  "login_account con tag nick pass host db s =
     (if tag = MSG_CLIENT_LOGIN \<and> db = None \<and> Registered_Only (s_cfg s)
      then Some (None, reject con ''only registered accounts allowed on this server'' s)
      else
        let tag = (if tag = MSG_CLIENT_LOGIN \<and> db = None \<and> Auto_Register (s_cfg s) then MSG_CLIENT_LOGIN_REGISTER
                   else tag)
        in case db of
             None \<Rightarrow> Some (Some tag, s)
           | Some D \<Rightarrow>
               if tag = MSG_CLIENT_LOGIN_REGISTER then
                 Some (None,
                   if ISUNKNOWN con s then reject con ''account registered to another user'' s
                   else sync_reginfo D (kill_client nick ''account registered to another user'' s))
               else
                 map_option (\<lambda>good. if good then (Some tag, s) else (None, bad_password con nick host D s))
                   (check_pass (db_password D) pass))"

definition drop_user :: "uid \<Rightarrow> string \<Rightarrow> (srv \<Rightarrow> srv) \<Rightarrow> srv \<Rightarrow> srv" where
  "drop_user user reason note s =
     (if ISUSER (user_con s user) s then zap_local_user (user_con s user) reason (note s)
      else users_remove (u_nick (usr s user)) s)"

text \<open>A user of that name who is logged in: a ghost of the same client goes, and of two servers the later user.\<close>

definition login_collision :: "cid \<Rightarrow> string list \<Rightarrow> srv \<Rightarrow> bool \<times> srv" where
  "login_collision con av s =
     (case hash_lookup (s_Users s) (av ! 0) of
        None \<Rightarrow> (True, s)
      | Some user \<Rightarrow>
          let U = usr s user; me = Server_Name (s_cfg s) in
          if ISUNKNOWN con s then
            (if u_ip U = c_ip (cnx s con)
             then (True, drop_user user ''Someone else is logging in as you, disconnecting.''
                     (send_cmd (user_con s user) MSG_SERVER_GHOST [])
                     (kill_client (u_nick U) (''ghost ('' @ u_server U @ '')'') s))
             else (False, reject con (u_nick U @ '' is already active'') s))
          else if atoi (av ! 6) < u_connected U then
            let why = ''nick collision ('' @ av ! 8 @ '' '' @ u_server U @ '')'';
                s = pass_message_args (Some con) MSG_CLIENT_KILL
                      ('':'' @ me @ '' '' @ u_nick U @ '' '' @ [dquote] @ why @ [dquote]) s;
                s = notify_mods KILLLOG_MODE (me @ '' killed '' @ u_nick U @ '': '' @ why) s
            in (True, drop_user user ''nick collision'' (\<lambda>s. s) s)
          else (False, s))"

definition login_register :: "string list \<Rightarrow> srv \<Rightarrow> did \<times> srv" where
  "login_register av s =
     (let (pw, s) = make_pass (av ! 1) s
      in (s_next_db s,
          add_db \<lparr>db_nick = av ! 0, db_password = pw,
                  db_email = (if 5 < length av then av ! 5 else snprintf_to 2048 (''anon@'' @ Server_Name (s_cfg s))),
                  db_level = LEVEL_USER, db_flags = 0, db_timestamp = s_time s, db_lastSeen = 0\<rparr> s))"

definition client_info :: "config \<Rightarrow> string \<Rightarrow> string" where
  "client_info cfg v = (if 0 < Max_Client_String cfg \<and> Max_Client_String cfg < int (length v)
     then take (nat (Max_Client_String cfg)) v else v)"

definition put_user :: "uid \<Rightarrow> user \<Rightarrow> srv \<Rightarrow> srv" where
  "put_user new U s = s\<lparr>s_users := (s_users s)(new \<mapsto> U)\<rparr>"

text \<open>The new user, as the allocator clears it, with the fs that are assigned.\<close>

definition fresh_user :: "cid \<Rightarrow> string list \<Rightarrow> int \<Rightarrow> int \<Rightarrow> 32 word \<Rightarrow> bool \<Rightarrow> int \<Rightarrow> string \<Rightarrow> nat \<Rightarrow> srv \<Rightarrow> user" where
  "fresh_user con av port speed ip local connected server conport s =
     \<lparr>u_nick = av ! 0, u_pass = av ! 1, u_level = LEVEL_USER, u_speed = nat speed, u_local = local,
      u_muzzled = False, u_cloaked = False, u_sharing = False, u_unsharing = False, u_shared = 0, u_libsize = 0,
      u_ip = ip, u_server = server, u_con = con, u_clientinfo = client_info (s_cfg s) (av ! 3), u_uploads = 0,
      u_downloads = 0, u_totalup = 0, u_totaldown = 0, u_port = nat port, u_conport = conport,
      u_connected = connected, u_channels = [], u_invited = []\<rparr>"

definition seat :: "cid \<Rightarrow> uid \<Rightarrow> srv \<Rightarrow> srv" where
  "seat con new s =
     upd_conn con (\<lambda>C. C\<lparr>c_class := CLASS_USER, c_user := new, c_usermode := LOGALL_MODE, c_hotlist := [],
        c_ignore := [], c_files := None\<rparr>) s"

text \<open>The user is made, greeted when it is a local one, and entered into the table.\<close>

definition login_enter :: "uid \<Rightarrow> cid \<Rightarrow> string list \<Rightarrow> int \<Rightarrow> int \<Rightarrow> 32 word \<Rightarrow> did option \<Rightarrow> srv \<Rightarrow> srv" where
  "login_enter new con av port speed ip db s =
     (let s =
        (if ISUNKNOWN con s then
           let U = fresh_user con av port speed ip True (s_time s) (Server_Name (s_cfg s)) (c_port (cnx s con)) s;
               s = seat con new (put_user new U s);
               s = send_cmd con MSG_SERVER_EMAIL
                     (case db of Some d \<Rightarrow> db_email (dbs s d) | None \<Rightarrow> ''anon@'' @ Server_Name (s_cfg s)) s
           in server_stats con 0 [] (show_motd con 0 [] s)
         else
           let (server, m) = find_server (av ! 8) (s_misc s)
           in put_user new (fresh_user con av port speed ip False (atoi (av ! 6)) server
                (nat (atoi (av ! 9) mod 65536)) s) (s\<lparr>s_misc := m\<rparr>));
          U = usr s new;
          s = s\<lparr>s_Users := hash_add (s_Users s) (u_nick U) new\<rparr>
      in pass_message_args (Some con) MSG_CLIENT_LOGIN
           (u_nick U @ '' '' @ av ! 1 @ '' '' @ av ! 2 @ '' '' @ [dquote] @ u_clientinfo U @ [dquote] @ '' '' @ av ! 4 @
            '' '' @ (case db of Some d \<Rightarrow> db_email (dbs s d) | None \<Rightarrow> ''unknown'') @ '' '' @
            time_dec (u_connected U) @ '' '' @ nat_dec (unat (u_ip U)) @ '' '' @ u_server U @ '' '' @
            nat_dec (u_conport U)) s)"

definition login_level :: "cid \<Rightarrow> uid \<Rightarrow> did \<Rightarrow> srv \<Rightarrow> srv" where
  "login_level con new d s =
     (let D = dbs s d; me = Server_Name (s_cfg s); nick = u_nick (usr s new); lvl = Levels (db_level D);
          num = nat_dec (level_num (db_level D)) in
      if db_level D = LEVEL_USER then s
      else
        let s = notify_mods LEVELLOG_MODE (me @ '' set '' @ nick @ [CHR 0x27] @ ''s user level to '' @ lvl @ '' ('' @ num @ '')'') s;
            s = upd_user new (\<lambda>U. U\<lparr>u_level := db_level D\<rparr>) s;
            s = tell_user con (me @ '' set your user level to '' @ lvl @ '' ('' @ num @ '').'') s
        in pass_message_args None MSG_CLIENT_SETUSERLEVEL
             ('':'' @ me @ '' '' @ nick @ '' '' @ lvl @ '' '' @ time_dec (db_timestamp D)) s)"

definition login_flags :: "cid \<Rightarrow> uid \<Rightarrow> did \<Rightarrow> srv \<Rightarrow> srv" where
  "login_flags con new d s =
     (let D = dbs s d; me = Server_Name (s_cfg s); nick = u_nick (usr s new);
          s = (if db_flags D AND ON_MUZZLED \<noteq> 0 then
                 let s = upd_user new (\<lambda>U. U\<lparr>u_muzzled := True\<rparr>) s;
                     s = pass_message_args None MSG_CLIENT_MUZZLE
                           ('':'' @ me @ '' '' @ nick @ '' '' @ [dquote] @ ''quit while muzzled'' @ [dquote]) s;
                     s = tell_user con (''You have been muzzled by '' @ me @ '': quit while muzzled'') s
                 in notify_mods MUZZLELOG_MODE (me @ '' has muzzled '' @ nick @ '': quit while muzzled'') s
               else s)
      in if db_flags D AND ON_CLOAKED \<noteq> 0 then
           let s = upd_user new (\<lambda>U. U\<lparr>u_cloaked := True\<rparr>) s;
               s = tell_user con ''You are now cloaked.'' s;
               s = notify_mods CHANGELOG_MODE (nick @ '' has cloaked'') s
           in pass_message_args None MSG_CLIENT_CLOAK ('':'' @ nick @ '' 1'') s
         else s)"

definition tell_waiting :: "uid \<Rightarrow> srv \<Rightarrow> srv" where
  "tell_waiting new s =
     (case hash_lookup (s_Hotlist s) (u_nick (usr s new)) of
        None \<Rightarrow> s
      | Some h \<Rightarrow>
          fold (\<lambda>c s. send_cmd c MSG_SERVER_USER_SIGNON (u_nick (usr s new) @ '' '' @ nat_dec (u_speed (usr s new))) s)
            (h_users (hot s h)) s)"

definition login_finish :: "uid \<Rightarrow> cid \<Rightarrow> string list \<Rightarrow> int \<Rightarrow> int \<Rightarrow> 32 word \<Rightarrow> did option \<Rightarrow> srv \<Rightarrow> srv" where
  "login_finish new con av port speed ip db s =
     (let s = login_enter new con av port speed ip db s;
          s = (case db of
                 None \<Rightarrow> s
               | Some d \<Rightarrow>
                   login_flags con new d (login_level con new d (upd_db d (\<lambda>D. D\<lparr>db_lastSeen := s_time s\<rparr>) s)))
      in tell_waiting new s)"

text \<open>The address of the client, and the name it is looked up under in the bans.\<close>

definition login_ip :: "cid \<Rightarrow> string list \<Rightarrow> srv \<Rightarrow> 32 word" where
  "login_ip con av s = (if ISUNKNOWN con s then c_ip (cnx s con) else strtoul32 (av ! 7))"

definition login_host :: "cid \<Rightarrow> string list \<Rightarrow> srv \<Rightarrow> string" where
  "login_host con av s = (if ISUNKNOWN con s then c_host (cnx s con) else my_ntoa (login_ip con av s))"

definition login_user :: "uid \<Rightarrow> cid \<Rightarrow> nat \<Rightarrow> string list \<Rightarrow> srv \<Rightarrow> srv option" where
  "login_user new con tag av s =
     (let ip = login_ip con av s; host = login_host con av s; nick = av ! 0; d = hash_lookup (s_User_Db s) nick;
          db = map_option (dbs s) d in
      case admit con nick host db s of
        (False, s) \<Rightarrow> Some s
      | (True, s) \<Rightarrow>
          (case login_number con ''speed'' nick (atoi (av ! 4)) 10 s of
             (None, s) \<Rightarrow> Some s
           | (Some speed, s) \<Rightarrow>
               (case login_number con ''port'' nick (atoi (av ! 2)) 65535 s of
                  (None, s) \<Rightarrow> Some s
                | (Some port, s) \<Rightarrow>
                    (case login_account con tag nick (av ! 1) host db s of
                       None \<Rightarrow> None
                     | Some (None, s) \<Rightarrow> Some s
                     | Some (Some tag, s) \<Rightarrow>
                         (case login_collision con av s of
                            (False, s) \<Rightarrow> Some s
                          | (True, s) \<Rightarrow>
                              (case (if tag = MSG_CLIENT_LOGIN_REGISTER then map_prod Some id (login_register av s)
                                     else (d, s)) of
                                 (d, s) \<Rightarrow> Some (login_finish new con av port speed ip d s)))))))"

definition login :: "uid \<Rightarrow> cid \<Rightarrow> nat \<Rightarrow> string \<Rightarrow> srv \<Rightarrow> srv option" where
  "login new con tag pkt s =
     (let av = get_args 10 (Some pkt) in
      if ISUSER con s then Some (send_cmd con MSG_SERVER_NOSUCH ''you are already logged in'' s)
      else if ISUNKNOWN con s \<and> length av < 5 then Some (doom con (unparsable con s))
      else if \<not> ISUNKNOWN con s \<and> length av < 10
      then Some (if av \<noteq> [] then kill_client (av ! 0) ''bad login message from server'' s else s)
      else if invalid_nick s (av ! 0) then
        Some (if ISUNKNOWN con s then doom con (send_cmd con MSG_SERVER_BAD_NICK [] s)
              else kill_client (av ! 0) ''invalid nick'' s)
      else login_user new con tag av s)"

section \<open>Registered nicks\<close>

text \<open>Deprecated commands that do nothing.\<close>

definition user_ip :: "cid \<Rightarrow> nat \<Rightarrow> string \<Rightarrow> srv \<Rightarrow> srv" where
  "user_ip con tag pkt s = s"

definition check_port :: "cid \<Rightarrow> nat \<Rightarrow> string \<Rightarrow> srv \<Rightarrow> srv" where
  "check_port con tag pkt s = s"

definition register_nick :: "cid \<Rightarrow> nat \<Rightarrow> string \<Rightarrow> srv \<Rightarrow> srv" where
  "register_nick con tag pkt s =
     (if \<not> ISUNKNOWN con s then send_cmd con MSG_SERVER_NOSUCH ''You are already logged in.'' s
      else if hash_lookup (s_User_Db s) pkt \<noteq> None then send_cmd con MSG_SERVER_REGISTER_FAIL [] s
      else if invalid_nick s pkt then send_cmd con MSG_SERVER_BAD_NICK [] s
      else send_cmd con MSG_SERVER_REGISTER_OK [] s)"

text \<open>
  The entry is looked up under \<open>pkt\<close>, which \<open>split_line\<close> has cut after the first field: that field, with
  its opening quote when it has one.
\<close>

definition cut_field :: "string \<Rightarrow> string list \<Rightarrow> string" where
  "cut_field pkt fs = (if hd pkt = dquote then dquote # fs ! 0 else fs ! 0)"

definition blank_db :: "string \<Rightarrow> userdb" where
  "blank_db nick = \<lparr>db_nick = nick, db_password = [], db_email = [], db_level = LEVEL_LEECH, db_flags = 0,
     db_timestamp = 0, db_lastSeen = 0\<rparr>"

definition store_reginfo :: "cid \<Rightarrow> nat \<Rightarrow> string \<Rightarrow> string list \<Rightarrow> did \<Rightarrow> srv \<Rightarrow> srv" where
  "store_reginfo con tag server fs d s =
     (let level = (case get_level (fs ! 3) of None \<Rightarrow> LEVEL_USER | Some l \<Rightarrow> l);
          s = pass_message_args (Some con) tag
                ('':'' @ server @ '' '' @ fs ! 0 @ '' '' @ fs ! 1 @ '' '' @ fs ! 2 @ '' '' @
                 Levels level @ '' '' @ fs ! 4 @ '' '' @ fs ! 5) s
      in upd_db d (\<lambda>D. D\<lparr>db_password := fs ! 1, db_email := fs ! 2, db_level := level,
           db_timestamp := atol (fs ! 4), db_lastSeen := atol (fs ! 5)\<rparr>) s)"

definition reginfo :: "cid \<Rightarrow> nat \<Rightarrow> string \<Rightarrow> srv \<Rightarrow> srv" where
  "reginfo con tag pkt s =
     (if \<not> ISSERVER con s \<or> pkt = [] \<or> hd pkt \<noteq> CHR '':'' then s
      else case next_arg (Some (tl pkt)) of
        (Some server, Some pkt) \<Rightarrow>
          (let fs = get_args 6 (Some pkt) in
           if length fs \<noteq> 6 then s
           else case hash_lookup (s_User_Db s) (cut_field pkt fs) of
             Some d \<Rightarrow>
               if db_timestamp (dbs s d) < atol (fs ! 4) then sync_reginfo (dbs s d) s
               else store_reginfo con tag server fs d s
           | None \<Rightarrow>
               if invalid_nick s (fs ! 0) then s
               else store_reginfo con tag server fs (s_next_db s) (add_db (blank_db (fs ! 0)) s))
      | _ \<Rightarrow> s)"

text \<open>\<open>None\<close>: a server's message that ends after the sender, whose \<open>NULL\<close> packet is split.\<close>

definition register_user :: "cid \<Rightarrow> nat \<Rightarrow> string \<Rightarrow> srv \<Rightarrow> srv option" where
  "register_user con tag pkt s =
     (case pop_user con pkt s of
        None \<Rightarrow> Some s
      | Some (pkt, sender) \<Rightarrow>
          let U = usr s sender in
          if u_level U < LEVEL_ADMIN then Some (permission_denied con s)
          else case pkt of
            None \<Rightarrow> None
          | Some pkt \<Rightarrow>
              let av = get_args 4 (Some pkt);
                  lvl = (if 3 < length av then get_level (av ! 3) else Some LEVEL_USER) in
              if length av < 3 then Some (unparsable con s)
              else if invalid_nick s (av ! 0) then Some (invalid_nick_msg con s)
              else case lvl of
                None \<Rightarrow> Some (tell_user con ''Invalid level'' s)
              | Some lvl \<Rightarrow>
                  if 3 < length av \<and> u_level U < LEVEL_ELITE \<and> u_level U \<le> lvl
                  then Some (permission_denied con s)
                  else if hash_lookup (s_User_Db s) (av ! 0) \<noteq> None
                  then Some (send_user sender MSG_SERVER_NOSUCH
                         (''['' @ Server_Name (s_cfg s) @ ''] '' @ av ! 0 @ '' is already registered'') s)
                  else
                    let s = pass_message_args (Some con) tag
                              ('':'' @ u_nick U @ '' '' @ av ! 0 @ '' '' @ av ! 1 @ '' '' @ av ! 2 @ '' '' @
                               (if 3 < length av then av ! 3 else [])) s;
                        (pw, s) = make_pass (av ! 1) s;
                        s = add_db \<lparr>db_nick = av ! 0, db_password = pw, db_email = av ! 2, db_level = lvl,
                              db_flags = 0, db_timestamp = s_time s, db_lastSeen = s_time s\<rparr> s
                    in Some (notify_mods CHANGELOG_MODE
                         (u_nick U @ '' registered nickname '' @ av ! 0 @ '' ('' @ Levels lvl @ '')'') s))"

definition check_password :: "cid \<Rightarrow> nat \<Rightarrow> string \<Rightarrow> srv \<Rightarrow> srv option" where
  "check_password con tag pkt s =
     (case next_arg (Some pkt) of
        (Some nick, Some pass) \<Rightarrow>
          (case hash_lookup (s_User_Db s) nick of
             None \<Rightarrow> Some s
           | Some d \<Rightarrow>
               map_option (\<lambda>good. if good then send_cmd con MSG_SERVER_PASS_OK [] s else s)
                 (check_pass (db_password (dbs s d)) pass))
      | _ \<Rightarrow> Some (unparsable con s))"

end
