(* ===== verification/Servers.thy ===== *)
theory Servers
  imports Login
begin

text \<open>
  Links between servers: the challenge and response of \<open>src/server_login.c\<close>, the connections that are
  opened and closed (\<open>try_connect\<close>, \<open>complete_connect\<close>, \<open>server_connect\<close> and \<open>server_disconnect\<close> of
  \<open>src/server_connect.c\<close>), and the small commands on servers of the same file.
\<close>

section \<open>The surroundings of the server\<close>

text \<open>
  What a command asks of code outside the repository: addresses that the allocator returns for a new user
  and a new connection, the resolver, the opening of a connection (the address and the local port when the
  socket could be made), the resources of the process, the bytes queued for a connection, constants of the build and of the platform, and the
  texts of the files that \<open>rehash\<close> reads.  \<open>e_fuel\<close> bounds the loop of \<open>join\<close>.
\<close>

record env =
  e_new_user :: "srv \<Rightarrow> uid"
  e_new_con :: "srv \<Rightarrow> cid"
  e_lookup_ip :: "string \<Rightarrow> 32 word"
  e_tcp :: "string \<Rightarrow> nat \<Rightarrow> (32 word \<times> nat) option"
  e_usage :: usage
  e_queued :: "cid \<Rightarrow> nat"
  e_version :: string
  e_fd_setsize :: int
  e_sharedir :: string
  e_fuel :: nat
  e_config_file :: "string list option"
  e_motd_file :: "string list option"
  e_filter_file :: "string list option"

text \<open>The allocator returns addresses that are not in use.\<close>

definition fresh_env :: "env \<Rightarrow> bool" where
  "fresh_env e \<longleftrightarrow>
     (\<forall>s. finite (dom (s_users s)) \<longrightarrow> e_new_user e s \<notin> dom (s_users s)) \<and>
     (\<forall>s. finite (dom (s_conns s)) \<longrightarrow> e_new_con e s \<notin> dom (s_conns s))"

section \<open>Passwords and responses\<close>

text \<open>The lines of the file \<open>servers\<close>; the result is the password for the peer and the one for this server.\<close>

fun find_pass :: "string \<Rightarrow> string \<Rightarrow> string list \<Rightarrow> (string \<times> string) option" where
  "find_pass host own [] = None"
| "find_pass host own (l # ls) =
     (if (l \<noteq> [] \<and> (hd l = CHR ''#'' \<or> hd l = CHR 0x0A \<or> hd l = CHR 0x0D)) \<or> (1 < length l \<and> l ! 1 = CHR 0x0A)
      then find_pass host own ls
      else
        let av = get_args 3 (Some l) in
        if 1 < length av \<and> strcaseeq host (av ! 0)
        then Some (av ! 1, if 2 < length av then av ! 2 else own)
        else find_pass host own ls)"

definition get_server_pass :: "string \<Rightarrow> srv \<Rightarrow> (string \<times> string) option" where
  "get_server_pass host s =
     (case m_servers (s_misc s) of None \<Rightarrow> None | Some ls \<Rightarrow> find_pass host (Server_Pass (s_cfg s)) ls)"

definition challenge :: "string \<Rightarrow> string \<Rightarrow> string \<Rightarrow> string" where
  "challenge a b pass =
     (let hash = md5_finish_ctx (md5_process_bytes pass (md5_process_bytes b (md5_process_bytes a md5_init_ctx)))
      in take 32 (expand_hex (hash @ replicate 17 (CHR 0x00)) 16))"

definition make_nonce :: "srv \<Rightarrow> string \<times> srv" where
  "make_nonce s = (generate_nonce [s_rand s 0, s_rand s 1], s\<lparr>s_rand := (\<lambda>i. s_rand s (i + 2))\<rparr>)"

section \<open>The login of a server\<close>

text \<open>The first login request of the peer is answered by a request of this server.\<close>

definition answer_login :: "cid \<Rightarrow> srv \<Rightarrow> srv" where
  "answer_login con s =
     (if c_server_login (cnx s con) then s
      else
        let (nonce, s) = make_nonce s;
            s = upd_conn con (\<lambda>C. C\<lparr>c_server_login := True, c_nonce := Some nonce, c_sendernonce := None\<rparr>) s
        in send_cmd con MSG_SERVER_LOGIN
             (Server_Name (s_cfg s) @ '' '' @ nonce @ '' '' @ int_dec (c_compress (cnx s con))) s)"

definition server_login :: "env \<Rightarrow> cid \<Rightarrow> nat \<Rightarrow> string \<Rightarrow> srv \<Rightarrow> srv" where
  "server_login e con tag pkt s =
     (let fs = get_args 3 (Some pkt); old = c_host (cnx s con) in
      if \<not> ISUNKNOWN con s then reject con ''reregistration is not supported'' s
      else if length fs \<noteq> 3 then reject con ''wrong number of fields'' s
      else case is_linked con (fs ! 0) s of
        (True, s) \<Rightarrow> s
      | (False, s) \<Rightarrow>
          if e_lookup_ip e (fs ! 0) \<noteq> c_ip (cnx s con)
          then doom con (notify_mods SERVERLOG_MODE (''Failed server connect from '' @ old @ '' != '' @ fs ! 0)
                 (send_cmd con MSG_SERVER_ERROR ''Your IP address does not match that name'' s))
          else
            let s = upd_conn con (\<lambda>C. C\<lparr>c_host := fs ! 0\<rparr>) s;
                s = notify_mods SERVERLOG_MODE (''Server login request from '' @ fs ! 0) s
            in case get_server_pass (fs ! 0) s of
              None \<Rightarrow>
                reject con ''Permission Denied''
                  (notify_mods SERVERLOG_MODE
                    (''Failed server login from '' @ fs ! 0 @ '' ('' @ fs ! 0 @ ''): no entry in servers file'') s)
            | Some (pass, localPass) \<Rightarrow>
                let compress = atoi (fs ! 2) in
                if compress < 0 \<or> 9 < compress
                then reject con (''invalid compression level '' @ int_dec compress)
                       (notify_mods SERVERLOG_MODE
                         (''Failed server login from '' @ fs ! 0 @ '': invalid compression level '' @ fs ! 2) s)
                else
                  let s = upd_conn con (\<lambda>C. C\<lparr>c_compress := min compress (Compression_Level (s_cfg s))\<rparr>) s;
                      s = answer_login con s;
                      s = upd_conn con (\<lambda>C. C\<lparr>c_sendernonce := Some (fs ! 1)\<rparr>) s
                  in send_cmd con MSG_SERVER_LOGIN_ACK (challenge (fs ! 1) (the (c_nonce (cnx s con))) localPass) s)"

definition deny :: "cid \<Rightarrow> string \<Rightarrow> srv \<Rightarrow> srv" where
  "deny con why s =
     reject con ''Permission Denied''
       (notify_mods SERVERLOG_MODE (''Failed server login from '' @ c_host (cnx s con) @ '': '' @ why) s)"

definition link_server :: "cid \<Rightarrow> srv \<Rightarrow> srv option" where
  "link_server con s =
     (let s = upd_conn con (\<lambda>C. C\<lparr>c_nonce := None, c_sendernonce := None, c_server_login := False\<rparr>) s;
          s = s\<lparr>s_Servers := s_Servers s @ [con]\<rparr>;
          s = upd_conn con (\<lambda>C. C\<lparr>c_class := CLASS_SERVER\<rparr>) s;
          s = notify_mods SERVERLOG_MODE (''Server '' @ c_host (cnx s con) @ '' has joined'') s;
          s = pass_message_args (Some con) MSG_SERVER_LINK_INFO
                (Server_Name (s_cfg s) @ '' '' @ nat_dec (c_local_port (cnx s con)) @ '' '' @ c_host (cnx s con) @
                 '' '' @ nat_dec (c_port (cnx s con)) @ '' 1'') s
      in synch_server con s)"

text \<open>\<open>None\<close>: an acknowledgement before the peer's login, whose nonce is read through \<open>NULL\<close>.\<close>

definition server_login_ack :: "cid \<Rightarrow> nat \<Rightarrow> string \<Rightarrow> srv \<Rightarrow> srv option" where
  "server_login_ack con tag pkt s =
     (if \<not> ISUNKNOWN con s then Some (send_cmd con MSG_SERVER_NOSUCH ''reregistration is not supported'' s)
      else if \<not> c_server_login (cnx s con) then Some (reject con ''You must login first'' s)
      else case get_server_pass (c_host (cnx s con)) s of
        None \<Rightarrow> Some (deny con ''no password found'' s)
      | Some (pass, localPass) \<Rightarrow>
          (case (c_nonce (cnx s con), c_sendernonce (cnx s con)) of
             (Some nonce, Some sendernonce) \<Rightarrow>
               if challenge nonce sendernonce pass \<noteq> pkt then Some (deny con ''invalid password'' s)
               else link_server con s
           | _ \<Rightarrow> None))"

section \<open>Opening and closing links\<close>

definition fresh_conn :: "string \<Rightarrow> 32 word \<Rightarrow> nat \<Rightarrow> nat \<Rightarrow> int \<Rightarrow> conn" where
  "fresh_conn host ip port local now =
     \<lparr>c_class = CLASS_UNKNOWN, c_user = 0, c_host = host, c_numerics = False, c_destroy = False, c_killed = False,
      c_flood = 0, c_usermode = 0, c_hotlist = [], c_ignore = [], c_ip = ip, c_port = port, c_local_port = local,
      c_connecting = False, c_server_login = False, c_nonce = None, c_sendernonce = None, c_compress = 0,
      c_timer = now, c_files = None, c_recvbuf = []\<rparr>"

fun first_empty :: "cid \<Rightarrow> cid option list \<Rightarrow> cid option list" where
  "first_empty con [] = []"
| "first_empty con (None # cs) = Some con # cs"
| "first_empty con (Some d # cs) = Some d # first_empty con cs"

definition add_client :: "cid \<Rightarrow> conn \<Rightarrow> srv \<Rightarrow> srv" where
  "add_client con K s =
     s\<lparr>s_conns := (s_conns s)(con \<mapsto> K),
       s_Clients := (if int (length (s_Clients s)) = m_Num_Clients (s_misc s)
                     then s_Clients s @ Some con # replicate 9 None else first_empty con (s_Clients s)),
       s_misc := (s_misc s)\<lparr>m_Num_Clients := m_Num_Clients (s_misc s) + 1\<rparr>\<rparr>"

definition try_connect :: "env \<Rightarrow> string \<Rightarrow> nat \<Rightarrow> srv \<Rightarrow> srv" where
  "try_connect e host port s =
     (case e_tcp e host port of
        None \<Rightarrow> s
      | Some (ip, local) \<Rightarrow>
          let (nonce, s) = make_nonce s
          in add_client (e_new_con e s)
               ((fresh_conn host ip port local (s_time s))\<lparr>c_server_login := True, c_nonce := Some nonce, c_connecting := True\<rparr>) s)"

text \<open>\<open>ok\<close> says whether \<open>check_connect_status\<close> returns 0.\<close>

definition complete_connect :: "bool \<Rightarrow> cid \<Rightarrow> srv \<Rightarrow> srv" where
  "complete_connect ok con s =
     (if c_destroy (cnx s con) \<or> \<not> ok
      then doom con (notify_mods SERVERLOG_MODE (''Server link to '' @ c_host (cnx s con) @ '' failed'') s)
      else
        let s = upd_conn con (\<lambda>C. C\<lparr>c_connecting := False\<rparr>) s
        in send_cmd con MSG_SERVER_LOGIN
             (Server_Name (s_cfg s) @ '' '' @ or_null (c_nonce (cnx s con)) @ '' '' @
              int_dec (Compression_Level (s_cfg s))) s)"

text \<open>\<open>None\<close>: a server's message that ends after the sender.\<close>

definition server_connect :: "env \<Rightarrow> cid \<Rightarrow> nat \<Rightarrow> string \<Rightarrow> srv \<Rightarrow> srv option" where
  "server_connect e con tag pkt s =
     (case pop_user con pkt s of
        None \<Rightarrow> Some s
      | Some (pkt, user) \<Rightarrow>
          let U = usr s user; me = Server_Name (s_cfg s) in
          if u_level U < LEVEL_ADMIN then Some (if ISUSER con s then permission_denied con s else s)
          else case pkt of
            None \<Rightarrow> None
          | Some pkt \<Rightarrow>
              let fs = get_args 3 (Some pkt) in
              if length fs < 2 then Some s
              else if atoi (fs ! 1) < 0 \<or> 65535 < atoi (fs ! 1) then Some (tell_user con ''Invalid port number'' s)
              else case is_linked con (fs ! 0) s of
                (True, s) \<Rightarrow> Some s
              | (False, s) \<Rightarrow>
                  let port = nat (atoi (fs ! 1));
                      note = notify_mods SERVERLOG_MODE
                        (u_nick U @ '' requested server link from '' @ (if length fs = 3 then fs ! 2 else me) @
                         '' to '' @ fs ! 0 @ '':'' @ fs ! 1)
                  in Some
                    (if length fs = 2 \<or> strcaseeq (fs ! 2) me then
                       if list_ex (\<lambda>d. strcaseeq (fs ! 0) (c_host (cnx s d)) \<and> c_port (cnx s d) = port) (s_Servers s)
                       then send_user user MSG_SERVER_NOSUCH
                              (''['' @ me @ ''] '' @ fs ! 0 @ '':'' @ nat_dec port @ '' is already linked'') s
                       else note (try_connect e (fs ! 0) port s)
                     else note (pass_message_args (Some con) MSG_CLIENT_CONNECT
                            ('':'' @ u_nick U @ '' '' @ fs ! 0 @ '' '' @ fs ! 1 @ '' '' @ fs ! 2) s)))"

definition server_disconnect :: "cid \<Rightarrow> nat \<Rightarrow> string \<Rightarrow> srv \<Rightarrow> srv" where
  "server_disconnect con tag pkt s =
     (case pop_user con pkt s of
        None \<Rightarrow> s
      | Some (pkt, user) \<Rightarrow>
          let nick = u_nick (usr s user) in
          if u_level (usr s user) < LEVEL_ADMIN then (if ISUSER con s then permission_denied con s else s)
          else case next_arg pkt of
            (None, _) \<Rightarrow> unparsable con s
          | (Some host, pkt) \<Rightarrow>
              let why = case_option [] (\<lambda>p. p) pkt;
                  s = (case find (\<lambda>d. strcaseeq (c_host (cnx s d)) host) (s_Servers s) of
                         None \<Rightarrow> s
                       | Some d \<Rightarrow> doom d (s\<lparr>s_Servers := list_delete (s_Servers s) d\<rparr>));
                  s = pass_message_args (Some con) MSG_CLIENT_DISCONNECT ('':'' @ nick @ '' '' @ host @ '' '' @ why) s
              in notify_mods SERVERLOG_MODE (nick @ '' disconnected server '' @ host @ '': '' @ why) s)"

section \<open>Small commands\<close>

definition kill_server :: "cid \<Rightarrow> nat \<Rightarrow> string \<Rightarrow> srv \<Rightarrow> srv" where
  "kill_server con tag pkt s =
     (case pop_user con pkt s of
        None \<Rightarrow> s
      | Some (pkt, user) \<Rightarrow>
          let nick = u_nick (usr s user) in
          if u_level (usr s user) < LEVEL_ELITE then permission_denied con s
          else case next_arg pkt of
            (None, _) \<Rightarrow> unparsable con s
          | (Some server, pkt) \<Rightarrow>
              let why = case_option [] (\<lambda>p. p) pkt;
                  s = pass_message_args (Some con) MSG_CLIENT_KILL_SERVER ('':'' @ nick @ '' '' @ server @ '' '' @ why) s;
                  s = notify_mods SERVERLOG_MODE (nick @ '' killed server '' @ server @ '': '' @ why) s
              in if strcaseeq server (Server_Name (s_cfg s)) then s\<lparr>s_misc := (s_misc s)\<lparr>m_SigCaught := True\<rparr>\<rparr> else s)"

text \<open>The handler \<open>remove_server\<close>, whose query is not sent anywhere.\<close>

definition remove_server_cmd :: "cid \<Rightarrow> nat \<Rightarrow> string \<Rightarrow> srv \<Rightarrow> srv" where
  "remove_server_cmd con tag pkt s =
     (if ISUSER con s \<and> u_level (usr s (c_user (cnx s con))) < LEVEL_ELITE then permission_denied con s else s)"

text \<open>\<open>None\<close>: a server's message that ends after the sender.\<close>

definition server_version :: "env \<Rightarrow> cid \<Rightarrow> nat \<Rightarrow> string \<Rightarrow> srv \<Rightarrow> srv option" where
  "server_version e con tag pkt s =
     (case pop_user con pkt s of
        None \<Rightarrow> Some s
      | Some (pkt, user) \<Rightarrow>
          if u_level (usr s user) < LEVEL_MODERATOR then Some (if ISUSER con s then permission_denied con s else s)
          else case pkt of
            None \<Rightarrow> None
          | Some pkt \<Rightarrow>
              if pkt = [] \<or> pkt = Server_Name (s_cfg s)
              then Some (fold (\<lambda>l. send_user user MSG_SERVER_NOSUCH l) [''--'', e_version e, ''--''] s)
              else Some (pass_message_args (Some con) tag ('':'' @ u_nick (usr s user) @ '' '' @ pkt) s))"

definition server_error :: "cid \<Rightarrow> nat \<Rightarrow> string \<Rightarrow> srv \<Rightarrow> srv" where
  "server_error con tag pkt s =
     (if ISSERVER con s
      then notify_mods ERROR_MODE (''server '' @ c_host (cnx s con) @ '' sent error message: '' @ pkt) s else s)"

end
