(* ===== verification/Config.thy ===== *)
theory Config
  imports Servers
begin

text \<open>
  The configuration variables (\<open>src/config.c\<close>): the table of variables, the file that sets them, and the
  commands that query, set and reset them or read the files again.
\<close>

section \<open>The variables\<close>

datatype var_type =
    VAR_TYPE_INT "config \<Rightarrow> int" "int \<Rightarrow> config \<Rightarrow> config"
  | VAR_TYPE_STR "config \<Rightarrow> string" "string \<Rightarrow> config \<Rightarrow> config"
  | VAR_TYPE_BOOL "config \<Rightarrow> bool" "bool \<Rightarrow> config \<Rightarrow> config"
  | VAR_TYPE_LIST "config \<Rightarrow> string list" "string list \<Rightarrow> config \<Rightarrow> config"

text \<open>A default of 0 is none.\<close>

datatype default_value = No_Default | Default_Int int | Default_Str string

type_synonym var = "string \<times> var_type \<times> default_value"

definition int_var :: "string \<Rightarrow> (config \<Rightarrow> int) \<Rightarrow> (int \<Rightarrow> config \<Rightarrow> config) \<Rightarrow> int \<Rightarrow> var" where
  "int_var name g p d = (name, VAR_TYPE_INT g p, if d = 0 then No_Default else Default_Int d)"

definition bool_var :: "string \<Rightarrow> (config \<Rightarrow> bool) \<Rightarrow> (bool \<Rightarrow> config \<Rightarrow> config) \<Rightarrow> var" where
  "bool_var name g p = (name, VAR_TYPE_BOOL g p, No_Default)"

definition Vars :: "env \<Rightarrow> var list" where
  "Vars e =
    [int_var ''client_queue_length'' Client_Queue_Length (\<lambda>v c. c\<lparr>Client_Queue_Length := v\<rparr>) 102400,
     int_var ''max_results'' Max_Search_Results (\<lambda>v c. c\<lparr>Max_Search_Results := v\<rparr>) 100,
     int_var ''max_user_channels'' Max_User_Channels (\<lambda>v c. c\<lparr>Max_User_Channels := v\<rparr>) 5,
     (''server_name'', VAR_TYPE_STR Server_Name (\<lambda>v c. c\<lparr>Server_Name := v\<rparr>), No_Default),
     (''server_password'', VAR_TYPE_STR Server_Pass (\<lambda>v c. c\<lparr>Server_Pass := v\<rparr>), Default_Str ''opensource''),
     (''server_ports'', VAR_TYPE_LIST Server_Ports (\<lambda>v c. c\<lparr>Server_Ports := v\<rparr>), Default_Str ''8888''),
     int_var ''server_queue_length'' Server_Queue_Length (\<lambda>v c. c\<lparr>Server_Queue_Length := v\<rparr>) 1048576,
     int_var ''stat_click'' Stat_Click (\<lambda>v c. c\<lparr>Stat_Click := v\<rparr>) 60,
     bool_var ''strict_channels'' Strict_Channels (\<lambda>v c. c\<lparr>Strict_Channels := v\<rparr>),
     int_var ''max_shared'' Max_Shared (\<lambda>v c. c\<lparr>Max_Shared := v\<rparr>) 5000,
     int_var ''max_connections'' Max_Connections (\<lambda>v c. c\<lparr>Max_Connections := v\<rparr>) (e_fd_setsize e),
     int_var ''nick_expire'' Nick_Expire (\<lambda>v c. c\<lparr>Nick_Expire := v\<rparr>) 2678400,
     (''listen_addr'', VAR_TYPE_STR Listen_Addr (\<lambda>v c. c\<lparr>Listen_Addr := v\<rparr>), Default_Str ''0.0.0.0''),
     int_var ''max_browse_result'' Max_Browse_Result (\<lambda>v c. c\<lparr>Max_Browse_Result := v\<rparr>) 500,
     int_var ''collect_interval'' Collect_Interval (\<lambda>v c. c\<lparr>Collect_Interval := v\<rparr>) 300,
     int_var ''compression_level'' Compression_Level (\<lambda>v c. c\<lparr>Compression_Level := v\<rparr>) 1,
     int_var ''uid'' Uid (\<lambda>v c. c\<lparr>Uid := v\<rparr>) (- 1),
     int_var ''gid'' Gid (\<lambda>v c. c\<lparr>Gid := v\<rparr>) (- 1),
     int_var ''connection_hard_limit'' Connection_Hard_Limit (\<lambda>v c. c\<lparr>Connection_Hard_Limit := v\<rparr>) (e_fd_setsize e),
     int_var ''max_data_size'' Max_Data_Size (\<lambda>v c. c\<lparr>Max_Data_Size := v\<rparr>) (- 1),
     int_var ''max_rss_size'' Max_Rss_Size (\<lambda>v c. c\<lparr>Max_Rss_Size := v\<rparr>) (- 1),
     bool_var ''lock_memory'' Lock_Memory (\<lambda>v c. c\<lparr>Lock_Memory := v\<rparr>),
     int_var ''max_nick_length'' Max_Nick_Length (\<lambda>v c. c\<lparr>Max_Nick_Length := v\<rparr>) 19,
     int_var ''user_db_interval'' User_Db_Interval (\<lambda>v c. c\<lparr>User_Db_Interval := v\<rparr>) 1800,
     int_var ''channel_limit'' Channel_Limit (\<lambda>v c. c\<lparr>Channel_Limit := v\<rparr>) 200,
     int_var ''login_timeout'' Login_Timeout (\<lambda>v c. c\<lparr>Login_Timeout := v\<rparr>) 60,
     int_var ''max_command_length'' Max_Command_Length (\<lambda>v c. c\<lparr>Max_Command_Length := v\<rparr>) 2048,
     (''config_dir'', VAR_TYPE_STR Config_Dir (\<lambda>v c. c\<lparr>Config_Dir := v\<rparr>), Default_Str (e_sharedir e)),
     bool_var ''registered_only'' Registered_Only (\<lambda>v c. c\<lparr>Registered_Only := v\<rparr>),
     bool_var ''auto_register'' Auto_Register (\<lambda>v c. c\<lparr>Auto_Register := v\<rparr>),
     int_var ''max_channel_length'' Max_Channel_Length (\<lambda>v c. c\<lparr>Max_Channel_Length := v\<rparr>) 32,
     int_var ''max_ignore'' Max_Ignore (\<lambda>v c. c\<lparr>Max_Ignore := v\<rparr>) 32,
     int_var ''max_hotlist'' Max_Hotlist (\<lambda>v c. c\<lparr>Max_Hotlist := v\<rparr>) 32,
     int_var ''max_topic'' Max_Topic (\<lambda>v c. c\<lparr>Max_Topic := v\<rparr>) 64,
     int_var ''max_client_string'' Max_Client_String (\<lambda>v c. c\<lparr>Max_Client_String := v\<rparr>) 32,
     int_var ''max_reason'' Max_Reason (\<lambda>v c. c\<lparr>Max_Reason := v\<rparr>) 64,
     int_var ''max_clones'' Max_Clones (\<lambda>v c. c\<lparr>Max_Clones := v\<rparr>) 0,
     int_var ''search_timeout'' Search_Timeout (\<lambda>v c. c\<lparr>Search_Timeout := v\<rparr>) 180,
     int_var ''stats_port'' Stats_Port (\<lambda>v c. c\<lparr>Stats_Port := v\<rparr>) 8889,
     bool_var ''eject_when_full'' Eject_When_Full (\<lambda>v c. c\<lparr>Eject_When_Full := v\<rparr>),
     int_var ''flood_commands'' Flood_Commands (\<lambda>v c. c\<lparr>Flood_Commands := v\<rparr>) 0,
     int_var ''flood_time'' Flood_Time (\<lambda>v c. c\<lparr>Flood_Time := v\<rparr>) 0]"

section \<open>Setting them\<close>

text \<open>Where \<open>strtol\<close> stops.\<close>

definition strtol_end :: "string \<Rightarrow> string" where
  "strtol_end s =
     (let t = skip_space s;
          t = (if t \<noteq> [] \<and> (hd t = CHR ''-'' \<or> hd t = CHR ''+'') then tl t else t)
      in if t \<noteq> [] \<and> c_isdigit (hd t) then dropWhile c_isdigit t else s)"

definition read_int :: "string \<Rightarrow> int option" where
  "read_int val = (if strtol_end val = [] then Some (atoi val) else None)"

definition read_bool :: "string \<Rightarrow> bool option" where
  "read_bool val =
     (if strcaseeq ''yes'' val \<or> strcaseeq ''on'' val then Some True
      else if strcaseeq ''no'' val \<or> strcaseeq ''off'' val then Some False
      else map_option (\<lambda>n. n \<noteq> 0) (read_int val))"

definition read_list :: "string \<Rightarrow> string list" where
  "read_list val = rev (get_args 32 (Some (take 2047 val)))"

text \<open>The outer \<open>None\<close> is a value \<open>NULL\<close>, the inner one the result -1.\<close>

definition set_var :: "env \<Rightarrow> string \<Rightarrow> string option \<Rightarrow> config \<Rightarrow> config option option" where
  "set_var e var val c =
     (case find (\<lambda>v. fst v = var) (Vars e) of
        None \<Rightarrow> Some None
      | Some (_, t, _) \<Rightarrow>
          map_option (\<lambda>val.
            case t of
              VAR_TYPE_INT g p \<Rightarrow> map_option (\<lambda>n. p n c) (read_int val)
            | VAR_TYPE_STR g p \<Rightarrow> Some (p val c)
            | VAR_TYPE_BOOL g p \<Rightarrow> map_option (\<lambda>n. p n c) (read_bool val)
            | VAR_TYPE_LIST g p \<Rightarrow> Some (p (read_list val) c)) val)"

text \<open>A line of the file: the first blank ends the name.\<close>

definition config_line :: "env \<Rightarrow> string \<Rightarrow> config \<Rightarrow> config option" where
  "config_line e line c =
     (let l = skip_space (rstrip line) in
      if l = [] \<or> hd l = CHR ''#'' then Some c
      else
        let (var, val) = break_at (\<lambda>x. x = CHR '' '') l
        in map_option (\<lambda>r. case r of None \<Rightarrow> c | Some c \<Rightarrow> c) (set_var e var (map_option skip_space val) c))"

fun config_lines :: "env \<Rightarrow> string list \<Rightarrow> config \<Rightarrow> config option" where
  "config_lines e [] c = Some c"
| "config_lines e (l # ls) c = Option.bind (config_line e l c) (config_lines e ls)"

definition config_default :: "var \<Rightarrow> config \<Rightarrow> config" where
  "config_default v c =
     (case v of
        (_, VAR_TYPE_STR g p, Default_Str d) \<Rightarrow> p d c
      | (_, VAR_TYPE_INT g p, Default_Int d) \<Rightarrow> p d c
      | (_, VAR_TYPE_LIST g p, Default_Str d) \<Rightarrow> p (read_list d) c
      | (_, VAR_TYPE_BOOL g p, Default_Int d) \<Rightarrow> p (d \<noteq> 0) c
      | _ \<Rightarrow> c)"

definition config_defaults :: "env \<Rightarrow> config \<Rightarrow> config" where
  "config_defaults e c = fold config_default (Vars e) c"

section \<open>The commands\<close>

definition query_var :: "cid \<Rightarrow> var \<Rightarrow> srv \<Rightarrow> srv" where
  "query_var con v s =
     (case v of (name, t, _) \<Rightarrow>
        send_cmd con MSG_SERVER_NOSUCH
          (name @ '' = '' @
           (case t of
              VAR_TYPE_INT g p \<Rightarrow> int_dec (g (s_cfg s))
            | VAR_TYPE_BOOL g p \<Rightarrow> (if g (s_cfg s) then ''on'' else ''off'')
            | VAR_TYPE_LIST g p \<Rightarrow> snprintf_to 1024 (concat (map (\<lambda>x. x @ '' '') (g (s_cfg s))))
            | VAR_TYPE_STR g p \<Rightarrow> g (s_cfg s))) s)"

text \<open>What is left of the packet after \<open>split_line\<close> has cut it after the first field.\<close>

definition cut_packet :: "string \<Rightarrow> string list \<Rightarrow> string" where
  "cut_packet pkt av = takeWhile c_isspace pkt @ cut_field (skip_space pkt) av"

text \<open>\<open>None\<close>: a quote that is not closed leaves an argument that is not initialised.\<close>

definition server_config :: "env \<Rightarrow> cid \<Rightarrow> nat \<Rightarrow> string \<Rightarrow> srv \<Rightarrow> srv option" where
  "server_config e con tag pkt s =
     (if \<not> ISUSER con s then Some s
      else
        let lvl = u_level (usr s (c_user (cnx s con))) in
        if lvl < LEVEL_MODERATOR then Some (permission_denied con s)
        else case split_line 2 pkt of
          Some [] \<Rightarrow> Some (fold (query_var con) (Vars e) s)
        | Some [name] \<Rightarrow>
            (case find (\<lambda>v. strcaseeq name (fst v)) (Vars e) of
               Some v \<Rightarrow> Some (query_var con v s)
             | None \<Rightarrow> Some (send_cmd con MSG_SERVER_NOSUCH (''no such variable '' @ cut_packet pkt [name]) s))
        | av \<Rightarrow>
            if lvl < LEVEL_ELITE then Some (permission_denied con s)
            else (case av of
               Some (name # val # _) \<Rightarrow>
                 map_option (\<lambda>r. case r of
                     None \<Rightarrow> send_cmd con MSG_SERVER_NOSUCH (''error setting variable '' @ name) s
                   | Some c \<Rightarrow> s\<lparr>s_cfg := c\<rparr>) (set_var e name (Some val) (s_cfg s))
             | _ \<Rightarrow> None))"

text \<open>The branch for lists is never reached, since the test for \<open>VAR_TYPE_BOOL\<close> is made twice.\<close>

definition server_reconfig :: "env \<Rightarrow> cid \<Rightarrow> nat \<Rightarrow> string \<Rightarrow> srv \<Rightarrow> srv" where
  "server_reconfig e con tag pkt s =
     (if \<not> ISUSER con s then s
      else if u_level (usr s (c_user (cnx s con))) < LEVEL_ELITE then permission_denied con s
      else case find (\<lambda>v. fst v = pkt) (Vars e) of
        None \<Rightarrow> send_cmd con MSG_SERVER_NOSUCH (''no such variable '' @ pkt) s
      | Some (name, t, d) \<Rightarrow>
          if d = No_Default then send_cmd con MSG_SERVER_NOSUCH (''no default value for '' @ pkt) s
          else case t of
            VAR_TYPE_LIST g p \<Rightarrow> s
          | _ \<Rightarrow> s\<lparr>s_cfg := config_default (name, t, d) (s_cfg s)\<rparr>)"

definition reload :: "env \<Rightarrow> srv \<Rightarrow> srv option" where
  "reload e s =
     map_option (\<lambda>c. upd_misc (\<lambda>m. m\<lparr>m_Filter := Some (load_filter (e_filter_file e))\<rparr>)
         (motd_init (e_motd_file e) (motd_close (s\<lparr>s_cfg := c\<rparr>))))
       (case e_config_file e of None \<Rightarrow> Some (s_cfg s) | Some ls \<Rightarrow> config_lines e ls (s_cfg s))"

definition rehash :: "env \<Rightarrow> cid \<Rightarrow> nat \<Rightarrow> string \<Rightarrow> srv \<Rightarrow> srv option" where
  "rehash e con tag pkt s =
     (case pop_user con pkt s of
        None \<Rightarrow> Some s
      | Some (pkt, sender) \<Rightarrow>
          if u_level (usr s sender) < LEVEL_ELITE then Some (permission_denied con s)
          else
            let nick = u_nick (usr s sender);
                target = (\<lambda>s. if pkt = None \<or> pkt = Some [] then Server_Name (s_cfg s) else the pkt);
                r = notify_mods SERVERLOG_MODE (nick @ '' reloaded configuration on '' @ target s) s
            in map_option (\<lambda>s. pass_message_args (Some con) tag ('':'' @ nick @ '' '' @ target s) s)
                 (if pkt = None \<or> pkt = Some [] \<or> strcaseeq (Server_Name (s_cfg r)) (the pkt) then reload e r else Some r))"

lemma same_shape_query [simp]: "same_shape (query_var con v s) r = same_shape s r"
  by (simp add: query_var_def split: prod.split)

lemma shape_config:
  "server_config e con tag pkt s = Some t \<Longrightarrow> same_shape t s" "same_shape (server_reconfig e con tag pkt s) s"
  by (auto simp: server_config_def server_reconfig_def Let_def same_shape_fold
      split: if_splits option.splits list.splits prod.splits var_type.splits)

lemma shape_rehash: "rehash e con tag pkt s = Some t \<Longrightarrow> same_shape t s"
  by (auto simp: rehash_def reload_def motd_init_def motd_close_def upd_misc_def Let_def
      split: if_splits option.splits prod.splits)

end
