(* ===== verification/Seats.thy ===== *)
theory Seats
  imports Servers Browse Change Public ChanOps
begin

text \<open>
  Which connection a user is behind, and what a connection is used for.  The commands of users leave both
  alone, but for the users that they end.
\<close>

section \<open>The layout\<close>

definition seats :: "srv \<Rightarrow> uid \<rightharpoonup> cid" where
  "seats s v = map_option u_con (s_users s v)"

definition classes :: "srv \<Rightarrow> cid \<rightharpoonup> conn_class \<times> uid" where
  "classes s d = map_option conn_shape (s_conns s d)"

definition layout :: "srv \<Rightarrow> (uid \<rightharpoonup> cid) \<times> (cid \<rightharpoonup> conn_class \<times> uid) \<times> (cid option list \<times> int)" where
  "layout s = (seats s, classes s, roll s)"

text \<open>No user is behind a connection that has not logged in.\<close>

definition seated :: "srv \<Rightarrow> bool" where
  "seated s \<longleftrightarrow> (\<forall>v U. s_users s v = Some U \<longrightarrow> \<not> ISUNKNOWN (u_con U) s)"

text \<open>Users may have gone; nobody has come, and no connection has changed.\<close>

definition stays :: "srv \<Rightarrow> srv \<Rightarrow> bool" where
  "stays t s \<longleftrightarrow> seats t \<subseteq>\<^sub>m seats s \<and> classes t = classes s \<and> roll t = roll s"

lemma classes_class: "classes t = classes s \<Longrightarrow> ISUNKNOWN d t = ISUNKNOWN d s \<and> ISUSER d t = ISUSER d s \<and> ISSERVER d t = ISSERVER d s"
proof -
  assume "classes t = classes s"
  then have "map_option conn_shape (s_conns t d) = map_option conn_shape (s_conns s d)"
    by (metis classes_def)
  then show ?thesis
    by (cases "s_conns t d"; cases "s_conns s d")
      (auto simp: ISUNKNOWN_def ISUSER_def ISSERVER_def conn_shape_def)
qed

lemma classes_dom: "classes t = classes s \<Longrightarrow> dom (s_conns t) = dom (s_conns s)"
proof -
  assume "classes t = classes s"
  then have "map_option conn_shape (s_conns t d) = map_option conn_shape (s_conns s d)" for d
    by (metis classes_def)
  then have "s_conns t d = None \<longleftrightarrow> s_conns s d = None" for d by (metis option.map_disc_iff)
  then show ?thesis by (simp add: dom_def)
qed

lemma stays_seated: "stays t s \<Longrightarrow> seated s \<Longrightarrow> seated t"
proof -
  assume S: "stays t s" and K: "seated s"
  show "seated t"
    unfolding seated_def
  proof (intro allI impI)
    fix v U assume U: "s_users t v = Some U"
    then have "seats t v = Some (u_con U)" by (simp add: seats_def)
    then have "seats s v = Some (u_con U)" using S by (auto simp: stays_def map_le_def dom_def)
    then obtain W where "s_users s v = Some W" "u_con W = u_con U" by (auto simp: seats_def)
    moreover have "\<forall>v U. s_users s v = Some U \<longrightarrow> \<not> ISUNKNOWN (u_con U) s" using K by (simp add: seated_def)
    ultimately have "\<not> ISUNKNOWN (u_con W) s" "u_con W = u_con U" by blast+
    then have "\<not> ISUNKNOWN (u_con U) s" by simp
    moreover have "classes t = classes s" using S by (simp add: stays_def)
    ultimately show "\<not> ISUNKNOWN (u_con U) t" using classes_class by blast
  qed
qed

lemma stays_refl [simp]: "stays s s"
  by (simp add: stays_def)

lemma stays_trans: "stays t s \<Longrightarrow> stays s r \<Longrightarrow> stays t r"
  by (auto simp: stays_def intro: map_le_trans)

lemma stays_layout: "layout t = layout s \<Longrightarrow> stays t s"
  by (simp add: layout_def stays_def)

lemma layout_shape: "same_shape t s \<Longrightarrow> layout t = layout s"
proof -
  assume S: "same_shape t s"
  have "map_option u_con (s_users t v) = map_option u_con (s_users s v)" for v
  proof -
    have "map_option user_shape (s_users t v) = map_option user_shape (s_users s v)"
      using S by (simp add: same_shape_def)
    then show ?thesis by (cases "s_users t v"; cases "s_users s v") (auto simp: user_shape_def)
  qed
  then show ?thesis using S by (simp add: layout_def seats_def classes_def same_shape_def fun_eq_iff)
qed

lemma layout_core: "same_core t s \<Longrightarrow> layout t = layout s"
  by (rule layout_shape) (rule same_shape_core)

lemma layout_eq: "s_users t = s_users s \<Longrightarrow> s_conns t = s_conns s \<Longrightarrow> roll t = roll s \<Longrightarrow> layout t = layout s"
  by (simp add: layout_def seats_def classes_def fun_eq_iff)

lemma layout_users: "same_users s t \<Longrightarrow> s_conns t = s_conns s \<Longrightarrow> roll t = roll s \<Longrightarrow> layout t = layout s"
proof -
  assume S: "same_users s t" "s_conns t = s_conns s" "roll t = roll s"
  have "map_option u_con (s_users t v) = map_option u_con (s_users s v)" for v
  proof -
    have "map_option user_core (s_users t v) = map_option user_core (s_users s v)"
      using S(1) by (simp add: same_users_def)
    then show ?thesis by (cases "s_users t v"; cases "s_users s v") (auto, metis user_core_sel(3))
  qed
  then show ?thesis using S(2,3) by (simp add: layout_def seats_def classes_def fun_eq_iff)
qed

lemma layout_output [simp]:
  "layout (emit fs s) = layout s" "layout (queue_data d t m s) = layout s" "layout (send_cmd d t m s) = layout s"
  "layout (pass_message x t m s) = layout s" "layout (pass_message_args x t m s) = layout s"
  "layout (send_cmd_pre d t p m s) = layout s" "layout (send_user u t m s) = layout s"
  "layout (notify_mods l m s) = layout s" "layout (notify_ops ch m s) = layout s" "layout (nosuchuser d s) = layout s"
  "layout (permission_denied d s) = layout s" "layout (unparsable d s) = layout s" "layout (nosuchchannel d s) = layout s"
  "layout (invalid_channel_msg d s) = layout s" "layout (invalid_nick_msg d s) = layout s"
  "layout (tell_user d m s) = layout s" "layout (upd_db e h s) = layout s" "layout (upd_hot i g s) = layout s"
  "layout (upd_chan c k s) = layout s"
  by (rule layout_eq; simp)+

lemma layout_upd_user: "(\<And>U. u_con (f U) = u_con U) \<Longrightarrow> layout (upd_user u f s) = layout s"
  by (simp add: layout_def seats_def classes_def fun_eq_iff option.map_comp comp_def)

lemma layout_upd_conn: "(\<And>K. conn_shape (f K) = conn_shape K) \<Longrightarrow> layout (upd_conn d f s) = layout s"
  by (simp add: layout_def seats_def classes_def fun_eq_iff option.map_comp comp_def)

lemma layout_part_channel [simp]: "layout (part_channel c u s) = layout s"
  using same_users_part by (intro layout_users) simp_all

lemma layout_channels_remove [simp]: "layout (channels_remove n s) = layout s"
proof -
  have "same_users s (free_channel c t)" if "s_users t = s_users s" for t c
    using same_users_uninvite [of t c "ch_invited (chn t c)"] that
    by (simp add: free_channel_def Let_def same_users_def)
  then have "same_users s (channels_remove n s)"
    by (auto simp: channels_remove_def intro: same_users_eq split: prod.split option.split)
  then show ?thesis by (intro layout_users) simp_all
qed

lemma layout_fold [simp]: "(\<And>x s. layout (f x s) = layout s) \<Longrightarrow> layout (fold f xs s) = layout s"
  by (rule fold_frame)

lemma layout_lists [simp]:
  "layout (forget_channel u c s) = layout s" "layout (snd (create_db u s)) = layout s"
  by (simp_all add: forget_channel_def layout_upd_user layout_core)

lemmas layout_simps = layout_upd_user layout_upd_conn conn_shape_def Let_def

section \<open>The commands of a user\<close>

lemma layout_clear_one [simp]: "layout (clear_one c sender m u s) = layout s"
  by (simp add: clear_one_def Let_def)

lemma layout_leave:
  "layout (part con tag pkt s) = layout s" "layout (kick con tag pkt s) = layout s"
  "layout (clear_channel con tag pkt s) = layout s"
  by (auto simp: part_def kick_def kick_out_def kick_notice_def clear_channel_def Let_def
      split: option.split prod.split)

end
