(* ===== verification/Staying.thy ===== *)
theory Staying
  imports Seats Config
begin

text \<open>
  The commands of users and servers leave the layout alone; the ones that end a user take its seat away.
\<close>

section \<open>Channels\<close>

lemma layout_channel_parts [simp]:
  "layout (set_member c u f s) = layout s" "layout (add_invite u c s) = layout s"
  "layout (invite_notice con tag a u c s) = layout s" "layout (use_invite u c s) = layout s"
  "layout (op_one con tag sender c n s) = layout s" "layout (voice_one con tag n su c k s) = layout s"
  "layout (muzzle_member tag n su c u r s) = layout s" "layout (set_topic con tag n c p s) = layout s"
  "layout (drop_channel c s) = layout s" "layout (announce_mode con tag n c w s) = layout s"
  by (auto simp: set_member_def add_invite_def invite_notice_def use_invite_def op_one_def op_member_def deop_member_def
      voice_one_def muzzle_member_def set_topic_def drop_channel_def announce_mode_def layout_simps
      split: option.split)

lemma layout_channel_commands:
  "layout (channel_ban con tag pkt s) = layout s" "layout (channel_unban con tag pkt s) = layout s"
  "layout (channel_banlist con tag pkt s) = layout s" "layout (channel_clear_bans con tag pkt s) = layout s"
  "layout (channel_op con tag pkt s) = layout s" "layout (channel_op_list con tag pkt s) = layout s"
  "layout (channel_drop con tag pkt s) = layout s" "layout (channel_wallop con tag pkt s) = layout s"
  by (auto simp: channel_ban_def add_channel_ban_def channel_unban_def drop_channel_ban_def channel_banlist_def
      channel_clear_bans_def channel_op_def channel_op_list_def channel_drop_def channel_wallop_def Let_def
      split: option.split prod.split)

lemma layout_member_commands:
  "layout (channel_invite con tag pkt s) = layout s"
  "layout (channel_voice con tag pkt s) = layout s" "layout (channel_muzzle con tag pkt s) = layout s"
  "layout (topic con tag pkt s) = layout s" "layout (channel_limit con tag pkt s) = layout s"
  by (auto simp: channel_invite_def channel_voice_def list_voiced_def channel_muzzle_def topic_def channel_limit_def
      set_channel_limit_def layout_simps split: option.split prod.split)

lemma layout_channel_mode: "layout (channel_mode con tag pkt s) = layout s"
  by (auto simp: channel_mode_def show_mode_def change_mode_def Let_def split: option.split prod.split)

lemma layout_channel_level: "channel_level con tag pkt s = Some t \<Longrightarrow> layout t = layout s"
  by (auto simp: channel_level_def set_channel_level_def Let_def split: option.splits prod.splits if_splits list.splits)

text \<open>A channel that is joined may be made first.\<close>

lemma layout_join:
  assumes "wf s" "join fuel con tag pkt s = Some t"
  shows "layout t = layout s"
  using assms(2)
proof (cases rule: join_cases)
  case 1
  then show ?thesis by (rule layout_core)
next
  case (2 p u c op r)
  obtain q where q: "same_core (join_link u c (use_invite u c r)) q" "same_core (join_grant u c op q) t"
    using join_enter_alt [of u c r op con tag] unfolding 2(4) by blast
  have "layout t = layout (join_grant u c op q)" using layout_core [OF q(2)] by simp
  also have "\<dots> = layout q" by (simp add: join_grant_def)
  also have "\<dots> = layout (join_link u c (use_invite u c r))" using layout_core [OF q(1)] by simp
  also have "\<dots> = layout r" by (simp add: join_link_def layout_upd_user)
  also have "\<dots> = layout s" using join_loop_Go(5,6,8) [OF assms(1) 2(3)] by (rule layout_eq)
  finally show ?thesis .
qed

section \<open>Accounts, lists, searches and links\<close>

lemma layout_level: "layout (level con tag pkt s) = layout s"
proof -
  have u: "layout (level_user sender su u lvl s) = layout s" for sender su u lvl s
    by (simp add: level_user_def decloak_user_def layout_simps)
  have a: "layout (level_apply con tag sender su user lvl d s) = layout s" for sender su user lvl d s
    by (simp add: level_apply_def level_db_def Let_def u split: option.split)
  show ?thesis
  proof (rule level_cases [of con tag pkt s])
    assume "same_core (level con tag pkt s) s"
    then show ?thesis by (rule layout_core)
  next
    fix sender su lvl user d t
    assume "same_core t s" "level con tag pkt s = level_apply con tag sender su user lvl d t"
    then show ?thesis using layout_core [of t s] by (simp add: a)
  qed
qed

lemma layout_muzzle: "layout (muzzle con tag pkt s) = layout s"
  unfolding muzzle_def muzzle_target_def set_muzzle_def muzzle_notices_def Let_def case_prod_beta
  by (auto simp: layout_simps split: option.split)

lemmas layout_core_commands =
  layout_core [OF same_core_ban] layout_core [OF same_core_unban] layout_core [OF same_core_banlist]
  layout_core [OF same_core_public] layout_core [OF same_core_emote]

lemma layout_hot_parts [simp]:
  "layout (stop_waiting con h s) = layout s" "layout (new_hotlist n s) = layout s" "layout (wait_for con h s) = layout s"
proof -
  show "layout (stop_waiting con h s) = layout s" by (rule layout_eq) simp_all
  show "layout (new_hotlist n s) = layout s" by (rule layout_eq) (simp_all add: new_hotlist_def)
  show "layout (wait_for con h s) = layout s" by (simp add: wait_for_def layout_simps)
qed

lemma layout_hotlist: "layout (add_hotlist con tag pkt s) = layout s" "layout (remove_hotlist con tag pkt s) = layout s"
  by (simp_all add: add_hotlist_def remove_hotlist_def join_hotlist_def layout_simps split: option.split)

lemma layout_links:
  "layout (link_info con tag pkt s) = layout s" "layout (server_quit con tag pkt s) = layout s"
  by (rule layout_core;
      simp add: link_info_def server_quit_def Let_def case_prod_beta same_core_link_parts)+

lemma layout_ignores:
  "layout (ignore con tag pkt s) = layout s" "layout (unignore con tag pkt s) = layout s"
  "layout (clear_ignore con tag pkt s) = layout s" "layout (ignore_list con tag pkt s) = layout s"
  by (auto simp: ignore_def unignore_def clear_ignore_def ignore_list_def layout_simps split: option.split)

section \<open>The ends of users\<close>

lemma stays_users_remove: "hash_lookup (s_Users s) n = Some u \<Longrightarrow> stays (users_remove n s) s"
proof -
  assume l: "hash_lookup (s_Users s) n = Some u"
  have "seats (users_remove n s) v = Some c \<Longrightarrow> seats s v = Some c" for v c
    using users_remove_con(2) [OF l, of v] by (fastforce simp: seats_def)
  then have "seats (users_remove n s) \<subseteq>\<^sub>m seats s" by (auto simp: map_le_def dom_def)
  moreover have "classes (users_remove n s) = classes s" by (simp add: classes_def fun_eq_iff)
  ultimately show ?thesis using same_hots_users_remove [of n s] by (simp add: stays_def same_hots_def)
qed

lemma stays_left: "layout s = layout r \<Longrightarrow> stays t s \<Longrightarrow> stays t r"
  using stays_trans stays_layout by blast

text \<open>A remote user quits or is killed.\<close>

lemma stays_client_quit: "wf s \<Longrightarrow> stays (client_quit con tag pkt s) s"
proof -
  assume w: "wf s"
  have "stays (users_remove (u_nick (usr s u)) (pass_message_args (Some con) tag m s)) s"
    if u: "hash_lookup (s_Users s) pkt = Some u" for u m
  proof -
    obtain U where U: "s_users s u = Some U" by (rule wf_lookup_user [OF w u(1)])
    then have "hash_lookup (s_Users (pass_message_args (Some con) tag m s)) (u_nick (usr s u)) = Some u"
      using wf_user_named [OF w U] by simp
    from stays_users_remove [OF this] show ?thesis by (rule stays_left [rotated]) simp
  qed
  then show ?thesis by (auto simp: client_quit_def Let_def split: option.split)
qed

lemma stays_kill_user: "wf s \<Longrightarrow> stays (kill_user con tag pkt s) s"
proof -
  assume w: "wf s"
  have n: "layout (kill_notice con kn u reason s) = layout s" "s_Users (kill_notice con kn u reason s) = s_Users s" for kn u reason
    by (simp_all add: kill_notice_def)
  have rm: "stays (users_remove (u_nick (usr s u)) (kill_notice con kn v reason s)) s"
    if u: "hash_lookup (s_Users s) key = Some u" for u key kn reason v
  proof -
    obtain U where U: "s_users s u = Some U" by (rule wf_lookup_user [OF w u(1)])
    then have "hash_lookup (s_Users (kill_notice con kn v reason s)) (u_nick (usr s u)) = Some u"
      using wf_user_named [OF w U] by (simp add: n)
    from stays_users_remove [OF this] show ?thesis by (rule stays_left [rotated]) (simp add: n)
  qed
  have loc: "layout (kill_local kn k u reason s) = layout s" for kn k u reason s
    by (simp add: kill_local_def layout_simps)
  show ?thesis using rm by (auto simp: kill_user_def Let_def n loc intro!: stays_layout split: option.split prod.split)
qed

section \<open>Connections that end\<close>

lemma remove_user_kept:
  assumes w: "wf s" and con: "s_conns s con = Some K" "c_class K = CLASS_USER"
  shows "wf_upto ({c_user K} \<times> UNIV) (remove_user con s)" "s_users (remove_user con s) (c_user K) = None"
    "stays (remove_user con s) s" "s_users (remove_user con s) v = Some V \<Longrightarrow> u_con V \<noteq> con"
    "s_users (remove_user con s) v = Some V \<Longrightarrow> \<exists>W. s_users s v = Some W \<and> u_nick W = u_nick V"
    "s_conns (remove_user con s) = (s_conns s)(con \<mapsto> K\<lparr>c_hotlist := [], c_ignore := [], c_files := None\<rparr>)"
proof -
  let ?u = "c_user K" and ?f = "\<lambda>C. C\<lparr>c_hotlist := [], c_ignore := [], c_files := None\<rparr>"
  obtain U where U: "s_users s ?u = Some U" "u_con U = con"
    using conn_okD(1) [OF wf_uptoD(4) [OF w] con, of 0] by auto
  have l: "hash_lookup (s_Users s) (u_nick U) = Some ?u" by (rule wf_user_named [OF w U(1)])
  define r where "r = users_remove (u_nick U) s"
  define t where "t = free_files con (fold (stop_waiting con) (c_hotlist K) r)"
  have run: "remove_user con s = upd_conn con ?f t"
    using con U by (simp add: remove_user_def Let_def r_def t_def)
  have tu: "s_users t = s_users r" "s_conns t = s_conns s" by (simp_all add: t_def r_def)
  have tr: "roll t = roll r" by (simp add: t_def)
  have "wf_upto ({?u} \<times> UNIV) r" unfolding r_def by (rule wf_upto_users_remove [OF w l])
  then have "wf_upto ({?u} \<times> UNIV) (fold (stop_waiting con) (c_hotlist K) r)" by simp
  then have "wf_upto ({?u} \<times> UNIV) t" using wf_cong [of t "fold (stop_waiting con) (c_hotlist K) r"] by (simp add: t_def)
  then show "wf_upto ({?u} \<times> UNIV) (remove_user con s)" unfolding run by (rule wf_upd_conn) simp_all
  show none: "s_users (remove_user con s) ?u = None"
    using users_remove_users [OF l, of ?u] by (simp add: run tu r_def)
  have lay: "layout (remove_user con s) = layout r"
    unfolding run by (simp add: layout_simps) (rule layout_eq; use tr in \<open>simp add: tu r_def\<close>)
  show S: "stays (remove_user con s) s"
    using stays_trans [OF stays_layout [OF lay]] stays_users_remove [OF l] by (simp add: r_def)
  show "s_conns (remove_user con s) = (s_conns s)(con \<mapsto> ?f K)" using con by (simp add: run tu)
  show "\<exists>W. s_users s v = Some W \<and> u_nick W = u_nick V" if V: "s_users (remove_user con s) v = Some V"
    using users_remove_con(2) [OF l, of v V] V by (auto simp: run tu r_def)
  show "u_con V \<noteq> con" if V: "s_users (remove_user con s) v = Some V"
  proof
    assume c: "u_con V = con"
    have "seats (remove_user con s) v = Some con" using V c by (simp add: seats_def)
    then have "seats s v = Some con" using S by (auto simp: stays_def map_le_def dom_def)
    then obtain W where W: "s_users s v = Some W" "u_con W = con" by (auto simp: seats_def)
    then have "c_user (cnx s con) = v"
      using conn_okD(3) [OF wf_uptoD(4) [OF w] W(1)] con by (auto simp: ISUSER_def)
    then show False using V none con by simp
  qed
qed

lemma seatedD: "seated s \<Longrightarrow> s_users s v = Some U \<Longrightarrow> \<not> ISUNKNOWN (u_con U) s"
  by (simp add: seated_def)

lemma one_seat:
  assumes "wf s" "s_conns s c = Some K" "c_class K = CLASS_USER" "s_conns s d = Some B" "c_class B = CLASS_USER"
    "c_user B = c_user K"
  shows "d = c"
proof -
  note CO = conn_okD(1) [OF wf_uptoD(4) [OF assms(1)]]
  show ?thesis using CO [OF assms(2,3), of 0] CO [OF assms(4,5), of 0] assms(6) by auto
qed

text \<open>Users behind the connections that stay.\<close>

lemma seated_drop: "seated s \<Longrightarrow> (\<And>v V. s_users s v = Some V \<Longrightarrow> u_con V \<noteq> con) \<Longrightarrow> seated (drop_connection con s)"
  by (auto simp: seated_def drop_connection_def ISUNKNOWN_def)

lemma remove_server_kept:
  assumes w: "wf s" and K: "s_conns s con = Some K" "c_class K = CLASS_SERVER"
  shows "wf (remove_server con s)" "stays (remove_server con s) s"
    "s_users (remove_server con s) v = Some V \<Longrightarrow> u_con V \<noteq> con"
proof -
  define p where "p = remove_links (c_host (cnx s con)) (pass_message_args (Some con) MSG_SERVER_QUIT
      ('':'' @ Server_Name (s_cfg s) @ '' '' @ c_host (cnx s con))
      (notify_mods SERVERLOG_MODE (''Server '' @ c_host (cnx s con) @ '' has quit'') s))"
  define q where "q = p\<lparr>s_Servers := list_delete (s_Servers p) con\<rparr>"
  let ?us = "free_hash (s_Users q)" and ?r = "remove_server con s"
  have qs: "same_core q s" by (simp add: q_def p_def same_core_def remove_links_def)
  then have qc: "s_conns q = s_conns s" "s_users q = s_users s" by (simp_all add: same_core_def)
  have r: "?r = fold (server_split con) ?us q"
    using qs by (simp add: remove_server_def Let_def q_def p_def hash_foreach_values same_core_def)
  have qw: "wf q" using same_core_wf [OF qs] w by simp
  note T = user_table [OF qw]
  have D: "distinct ?us" "set ?us = dom (s_users q)" by (rule table_ok_distinct [OF T]) (rule table_ok_values [OF T])
  have Dq: "set ?us \<subseteq> dom (s_users q)" using D(2) by simp
  have S: "ISSERVER con q" using K by (simp add: ISSERVER_def qc)
  note F = server_split_fold [OF qw D(1) Dq S, folded r]
  show "wf ?r" by (rule F(1))
  show "u_con V \<noteq> con" if V: "s_users ?r v = Some V" using F(3) [OF V] D(2) qc(2) by auto
  have "seats ?r v = Some c \<Longrightarrow> seats s v = Some c" for v c
    using F(3) [of v] qc(2) by (fastforce simp: seats_def)
  then have "seats ?r \<subseteq>\<^sub>m seats s" by (auto simp: map_le_def dom_def)
  moreover have "classes ?r = classes s" using F(2) by (simp add: same_hots_def classes_def fun_eq_iff qc)
  ultimately show "stays ?r s" using F(2) qs by (simp add: stays_def same_hots_def same_core_def)
qed

lemma connection_ends:
  assumes w: "wf s" and k: "seated s" and con: "con \<in> dom (s_conns s)"
  shows "wf (remove_connection con s) \<and> seated (remove_connection con s) \<and> con \<notin> dom (s_conns (remove_connection con s))"
proof -
  obtain K where K: "s_conns s con = Some K" using con by blast
  define c where "c = cancel_search con s"
  note C = cancel_frame [of con s, folded c_def]
  have cw: "wf c" using same_core_wf [OF C(6)] w by simp
  have Kc: "s_conns c con = Some K" using K by (simp add: C)
  have ck: "seated c" using stays_seated [OF stays_layout [OF layout_core [OF C(6)]] k] .
  define r where "r = (if ISUSER con c then remove_user con c else if ISSERVER con c then remove_server con c else c)"
  have run: "remove_connection con s = drop_connection con r" by (simp add: remove_connection_def Let_def r_def c_def)
  have "wf (drop_connection con r) \<and> seated r \<and> (\<forall>v V. s_users r v = Some V \<longrightarrow> u_con V \<noteq> con)"
  proof (cases "c_class K")
    case CLASS_USER
    then have r: "r = remove_user con c" using Kc by (simp add: r_def ISUSER_def)
    note R = remove_user_kept [OF cw Kc CLASS_USER, folded r]
    have "wf (drop_connection con r)"
    proof (rule wf_user_gone [of "c_user K"])
      show "wf_upto ({c_user K} \<times> UNIV) (drop_connection con r)" by (rule wf_drop_connection [OF R(1) R(4)])
      show "s_users (drop_connection con r) (c_user K) = None" using R(2) by (simp add: drop_connection_def)
      show "c_user B \<noteq> c_user K" if "s_conns (drop_connection con r) d = Some B" "c_class B = CLASS_USER" for d B
        using that one_seat [OF cw Kc CLASS_USER, of d B] by (auto simp: drop_connection_def R(6) split: if_splits)
    qed
    then show ?thesis using R(4) stays_seated [OF R(3) ck] by blast
  next
    case CLASS_SERVER
    then have r: "r = remove_server con c" using Kc by (simp add: r_def ISUSER_def ISSERVER_def)
    note R = remove_server_kept [OF cw Kc CLASS_SERVER, folded r]
    have "wf (drop_connection con r)" by (rule wf_drop_connection [OF R(1)]) (rule R(3))
    then show ?thesis using R(3) stays_seated [OF R(2) ck] by blast
  next
    case CLASS_UNKNOWN
    then have r: "r = c" using Kc by (simp add: r_def ISUSER_def ISSERVER_def)
    have no: "u_con V \<noteq> con" if "s_users c v = Some V" for v V
    proof
      assume "u_con V = con"
      then have "\<not> ISUNKNOWN con c" using seatedD [OF ck that] by simp
      then show False using Kc CLASS_UNKNOWN by (simp add: ISUNKNOWN_def)
    qed
    then show ?thesis using wf_drop_connection [OF cw] ck unfolding r by blast
  qed
  then show ?thesis using seated_drop [of r con] by (simp add: run drop_connection_def)
qed

end
