(* ===== verification/Enrolled.thy ===== *)
theory Enrolled
  imports Staying
begin

text \<open>
  The array of clients: every connection has exactly one slot, and the slots that are not empty are counted.
\<close>

definition clients :: "srv \<Rightarrow> cid list" where
  "clients s = List.map_filter id (s_Clients s)"

definition enrolled :: "srv \<Rightarrow> bool" where
  "enrolled s \<longleftrightarrow> distinct (clients s) \<and> set (clients s) = dom (s_conns s) \<and>
     m_Num_Clients (s_misc s) = int (length (clients s))"

lemma map_filter_id [simp]:
  "List.map_filter id [] = []" "List.map_filter id (None # cs) = List.map_filter id cs"
  "List.map_filter id (Some c # cs) = c # List.map_filter id cs"
  "List.map_filter id (replicate n None) = []"
  by (simp_all add: map_filter_def)

lemma map_filter_id_append: "List.map_filter id (xs @ ys) = List.map_filter id xs @ List.map_filter id ys"
  by (simp add: map_filter_def)

lemma enrolled_same: "enrolled s \<Longrightarrow> roll t = roll s \<Longrightarrow> dom (s_conns t) = dom (s_conns s) \<Longrightarrow> enrolled t"
  by (simp add: enrolled_def clients_def)

lemma stays_dom: "stays t s \<Longrightarrow> dom (s_conns t) = dom (s_conns s)"
  by (rule classes_dom) (simp only: stays_def)

lemma enrolled_stays: "enrolled s \<Longrightarrow> stays t s \<Longrightarrow> enrolled t"
proof -
  assume "enrolled s" and S: "stays t s"
  moreover from S have "roll t = roll s" by (simp only: stays_def)
  ultimately show "enrolled t" using stays_dom enrolled_same by blast
qed

lemma enrolled_shape: "enrolled s \<Longrightarrow> same_shape t s \<Longrightarrow> enrolled t"
  using enrolled_stays [OF _ stays_layout [OF layout_shape]] by blast

lemma map_filter_full: "length (List.map_filter id cs) = length cs \<or> None \<in> set cs"
proof (induction cs)
  case (Cons c cs)
  then show ?case by (cases c) auto
qed simp

lemma first_empty_clients:
  "None \<in> set cs \<Longrightarrow> con \<notin> set (List.map_filter id cs) \<Longrightarrow>
   set (List.map_filter id (first_empty con cs)) = insert con (set (List.map_filter id cs)) \<and>
   length (List.map_filter id (first_empty con cs)) = Suc (length (List.map_filter id cs)) \<and>
   (distinct (List.map_filter id cs) \<longrightarrow> distinct (List.map_filter id (first_empty con cs)))"
proof (induction cs)
  case (Cons c cs)
  then show ?case by (cases c) auto
qed simp

lemma enrolledI:
  "distinct (clients s) \<Longrightarrow> set (clients s) = dom (s_conns s) \<Longrightarrow> m_Num_Clients (s_misc s) = int (length (clients s)) \<Longrightarrow>
   enrolled s"
  by (simp add: enrolled_def)

lemma enrolledD:
  assumes "enrolled s"
  shows "distinct (clients s)" "set (clients s) = dom (s_conns s)" "m_Num_Clients (s_misc s) = int (length (clients s))"
  using assms by (simp_all only: enrolled_def)

lemma add_client_fields:
  "clients (add_client con K s) = (if int (length (s_Clients s)) = m_Num_Clients (s_misc s) then clients s @ [con]
     else List.map_filter id (first_empty con (s_Clients s)))"
  "dom (s_conns (add_client con K s)) = insert con (dom (s_conns s))"
  "m_Num_Clients (s_misc (add_client con K s)) = m_Num_Clients (s_misc s) + 1"
  by (simp_all add: add_client_def clients_def map_filter_id_append)

lemma enrolled_add:
  assumes "enrolled s" "con \<notin> dom (s_conns s)"
  shows "enrolled (add_client con K s)"
proof -
  note E = enrolledD [OF assms(1)]
  have new: "con \<notin> set (clients s)" using assms(2) E(2) by simp
  show ?thesis
  proof (cases "int (length (s_Clients s)) = m_Num_Clients (s_misc s)")
    case True
    then show ?thesis using E new by (intro enrolledI) (simp_all only: add_client_fields, simp_all)
  next
    case False
    then have "None \<in> set (s_Clients s)" using E(3) map_filter_full [of "s_Clients s"] by (metis clients_def)
    note first_empty_clients [OF this new [unfolded clients_def]]
    then show ?thesis using E False by (intro enrolledI) (simp_all add: add_client_fields, simp_all add: clients_def)
  qed
qed

lemma map_filter_drop:
  "List.map_filter id (map (\<lambda>c. if c = Some con then None else c) cs) = filter (\<lambda>c. c \<noteq> con) (List.map_filter id cs)"
proof (induction cs)
  case (Cons c cs)
  then show ?case by (cases c) simp_all
qed simp

lemma drop_connection_fields:
  "clients (drop_connection con s) = removeAll con (clients s)"
  "dom (s_conns (drop_connection con s)) = dom (s_conns s) - {con}"
  "m_Num_Clients (s_misc (drop_connection con s)) = m_Num_Clients (s_misc s) - 1"
  by (simp_all add: drop_connection_def clients_def map_filter_drop removeAll_filter_not_eq eq_commute)

lemma enrolled_drop:
  assumes "enrolled s" "con \<in> dom (s_conns s)"
  shows "enrolled (drop_connection con s)"
proof (rule enrolledI)
  note E = enrolledD [OF assms(1)]
  have c: "con \<in> set (clients s)" using assms(2) E(2) by simp
  then have "0 < length (clients s)" by (rule length_pos_if_in_set)
  then have "int (length (clients s) - 1) = int (length (clients s)) - 1" by linarith
  moreover have "length (removeAll con (clients s)) = length (clients s) - 1"
    using c E(1) by (metis distinct_remove1_removeAll length_remove1)
  ultimately show "m_Num_Clients (s_misc (drop_connection con s)) = int (length (clients (drop_connection con s)))"
    using E(3) by (simp add: drop_connection_fields of_nat_diff)
qed (use enrolledD [OF assms(1)] in \<open>simp_all only: drop_connection_fields distinct_removeAll set_removeAll\<close>)

text \<open>The end of a connection frees its slot.\<close>

lemma remove_connection_slots:
  assumes "wf s" "seated s" "con \<in> dom (s_conns s)" "enrolled s"
  shows "enrolled (remove_connection con s) \<and> dom (s_conns (remove_connection con s)) = dom (s_conns s) - {con}"
proof -
  define c where "c = cancel_search con s"
  note C = cancel_frame [of con s, folded c_def]
  define r where "r = (if ISUSER con c then remove_user con c else if ISSERVER con c then remove_server con c else c)"
  have run: "remove_connection con s = drop_connection con r" by (simp add: remove_connection_def Let_def r_def c_def)
  obtain K where K: "s_conns c con = Some K" using assms(3) by (auto simp: C(4))
  have cw: "wf c" using same_core_wf [OF C(6)] assms(1) by simp
  have "stays r c"
  proof (cases "c_class K")
    case CLASS_USER
    then show ?thesis using remove_user_kept(3) [OF cw K CLASS_USER] K by (simp add: r_def ISUSER_def)
  next
    case CLASS_SERVER
    then show ?thesis using remove_server_kept(2) [OF cw K CLASS_SERVER] K by (simp add: r_def ISUSER_def ISSERVER_def)
  next
    case CLASS_UNKNOWN
    then show ?thesis using K by (simp add: r_def ISUSER_def ISSERVER_def)
  qed
  moreover have "stays c s" by (rule stays_layout [OF layout_core [OF C(6)]])
  ultimately have S: "stays r s" by (rule stays_trans)
  note d = stays_dom [OF S]
  have "enrolled (drop_connection con r)"
    by (rule enrolled_drop [OF enrolled_stays [OF assms(4) S]]) (use assms(3) d in simp)
  then show ?thesis using d by (simp add: run drop_connection_def)
qed

end
