(* ===== verification/Admission.thy ===== *)
theory Admission
  imports Staying
begin

text \<open>
  Who gets in.  A login keeps the invariants, and nobody gets in under a registered name without its
  password; a server gets in only with the response to its challenge.
\<close>

section \<open>Until a user is dropped nothing changes its shape\<close>

lemma same_shape_login_parts [simp]:
  "same_shape (sync_reginfo db s) r = same_shape s r" "same_shape (kill_client n t s) r = same_shape s r"
  "same_shape (doom c s) r = same_shape s r" "same_shape (reject c t s) r = same_shape s r"
  "same_shape (bad_password c n h db s) r = same_shape s r"
  by (simp_all add: sync_reginfo_def kill_client_def doom_def reject_def bad_password_def shape_simps)

lemma shape_eject: "same_shape (snd (eject_client con s)) s"
  by (simp add: eject_client_def shape_simps split: option.split)

lemma shape_check_ban: "same_shape (snd (check_ban con nick host s)) s"
  by (auto simp: check_ban_def reject_banned_def shape_simps split: option.split)

lemma shape_admit: "admit con nick host db s = (b, t) \<Longrightarrow> same_shape t s"
proof -
  assume a: "admit con nick host db s = (b, t)"
  have e: "same_shape r s" if "check_ban con nick host s = (b', v)" "eject_client con v = (c, r)" for b' v c r
    using same_shape_trans shape_check_ban [of con nick host s] shape_eject [of con v] that by (metis snd_conv)
  have n: "same_shape v s" if "check_ban con nick host s = (b', v)" for b' v
    using shape_check_ban [of con nick host s] that by simp
  show ?thesis using a by (auto simp: admit_def dest: e n split: if_splits prod.splits bool.splits)
qed

lemma shape_login_number: "login_number con w nick v hi s = (r, t) \<Longrightarrow> same_shape t s"
  by (auto simp: login_number_def split: if_splits)

lemma shape_login_account: "login_account con tag nick pass host db s = Some (r, t) \<Longrightarrow> same_shape t s"
  by (auto simp: login_account_def Let_def split: if_splits option.splits)

section \<open>A user that is dropped\<close>

lemma wf_unclass:
  assumes w: "wf_upto X s" and no: "\<And>v V. s_users s v = Some V \<Longrightarrow> u_con V \<noteq> c"
    and f: "\<And>K. c_class (f K) = CLASS_UNKNOWN"
  shows "wf_upto X (upd_conn c f s)"
proof -
  let ?t = "upd_conn c f s"
  note CO = conn_okD [OF wf_uptoD(4) [OF w]]
  have "conn_ok X ?t"
  proof (rule conn_okI)
    show "\<exists>U. s_users ?t (c_user K) = Some U \<and> u_con U = d \<and> u_local U"
      if "s_conns ?t d = Some K" "c_class K = CLASS_USER" "(c_user K, e) \<notin> X" for d K e
      using that CO(1) [of d K e] f by (auto split: if_splits)
    show "u_con U \<in> dom (s_conns ?t) \<and> (ISUSER (u_con U) ?t \<longrightarrow> c_user (cnx ?t (u_con U)) = u)"
      if "s_users ?t u = Some U" for u U
      using that CO(2,3) [of u U] no [of u U] by (auto simp: ISUSER_def)
  qed
  moreover have "links_ok X ?t" "chan_table_ok ?t" "user_table_ok X ?t"
    using w by (simp_all add: wf_defs)
  ultimately show ?thesis by (intro wf_uptoI)
qed

lemma nick_free:
  assumes ws: "wf s" and wt: "wf t" and u: "s_users s u = Some U" "s_users t u = None"
    and sub: "\<And>v V. s_users t v = Some V \<Longrightarrow> \<exists>W. s_users s v = Some W \<and> u_nick W = u_nick V"
  shows "hash_lookup (s_Users t) (u_nick U) = None"
proof (cases "hash_lookup (s_Users t) (u_nick U)")
  case (Some v)
  obtain V where V: "s_users t v = Some V" "strcaseeq (u_nick U) (u_nick V)" by (rule wf_lookup_user [OF wt Some])
  then obtain W where W: "s_users s v = Some W" "u_nick W = u_nick V" using sub by blast
  note T = user_table_okD(2) [OF wf_uptoD(3) [OF ws], of _ 0]
  have "[v] = [u]" using T [OF _ W(1)] T [OF _ u(1)] hash_stack_cong [OF V(2), of "s_Users s"] W(2) by simp
  then show ?thesis using V(1) u(2) by simp
qed simp

definition dropped :: "uid \<Rightarrow> srv \<Rightarrow> srv \<Rightarrow> bool" where
  "dropped u t s \<longleftrightarrow>
     wf t \<and> seats t \<subseteq>\<^sub>m seats s \<and> s_users t u = None \<and> seated t \<and>
     (\<forall>v V. s_users t v = Some V \<longrightarrow> (\<exists>W. s_users s v = Some W \<and> u_nick W = u_nick V)) \<and>
     (\<forall>d. \<not> ISUSER d s \<longrightarrow> classes t d = classes s d)"

lemma dropped_zap:
  assumes w: "wf s" and k: "seated s" and c: "s_conns s c = Some K" "c_class K = CLASS_USER"
  shows "dropped (c_user K) (zap_local_user c reason s) s"
proof -
  define p where "p = upd_conn c (\<lambda>C. C\<lparr>c_killed := True\<rparr>) (send_cmd c MSG_SERVER_DISCONNECTING ''0''
    (send_cmd c MSG_SERVER_NOSUCH (''You were killed by '' @ Server_Name (s_cfg s) @ '': '' @ reason) s))"
  have ps: "same_shape p s" by (simp add: p_def shape_simps)
  have pw: "wf p" by (rule same_shape_wf [OF ps w])
  have pu: "s_users p = s_users s" "s_conns p = (s_conns s)(c \<mapsto> K\<lparr>c_killed := True\<rparr>)"
    using c(1) by (simp_all add: p_def)
  define r where "r = remove_user c p"
  have "s_conns p c = Some (K\<lparr>c_killed := True\<rparr>)" "c_class (K\<lparr>c_killed := True\<rparr>) = CLASS_USER"
    using c by (simp_all add: pu)
  note R = remove_user_kept [OF pw this, folded r_def]
  let ?t = "upd_conn c (\<lambda>C. C\<lparr>c_class := CLASS_UNKNOWN, c_destroy := True\<rparr>) r"
  have run: "zap_local_user c reason s = ?t" by (simp add: zap_local_user_def Let_def r_def p_def)
  have tu: "s_users ?t = s_users r" by simp
  have tc: "s_conns ?t d = s_conns s d" if "d \<noteq> c" for d using that by (simp add: R(6) pu)
  have wt: "wf ?t"
  proof (rule wf_user_gone [of "c_user K"])
    show "wf_upto ({c_user K} \<times> UNIV) ?t" using wf_unclass [OF R(1) R(4)] by simp
    show "s_users ?t (c_user K) = None" using R(2) by simp
    show "c_user B \<noteq> c_user K" if B: "s_conns ?t d = Some B" "c_class B = CLASS_USER" for d B
    proof
      assume "c_user B = c_user K"
      moreover have "d \<noteq> c" using B by (auto simp: R(6))
      ultimately show False using one_seat [OF w c, of d B] B tc by auto
    qed
  qed
  have "seats r \<subseteq>\<^sub>m seats s" using R(3) pu(1) by (simp add: stays_def seats_def [abs_def])
  then have se: "seats ?t \<subseteq>\<^sub>m seats s" by (simp add: seats_def [abs_def])
  have "seated r" by (rule stays_seated [OF R(3) stays_seated [OF stays_layout [OF layout_shape [OF ps]] k]])
  then have "seated ?t" using R(4) by (auto simp: seated_def ISUNKNOWN_def)
  moreover have "\<exists>W. s_users s v = Some W \<and> u_nick W = u_nick V" if "s_users ?t v = Some V" for v V
    using R(5) [of v V] that pu(1) by simp
  moreover have "classes ?t d = classes s d" if "\<not> ISUSER d s" for d
    using that c tc [of d] by (cases "d = c") (auto simp: ISUSER_def classes_def)
  moreover have "s_users ?t (c_user K) = None" using R(2) by simp
  ultimately show ?thesis unfolding run dropped_def using wt se by blast
qed

lemma dropped_remote:
  assumes w: "wf s" and k: "seated s" and u: "s_users s u = Some U" "\<not> ISUSER (u_con U) s"
  shows "dropped u (users_remove (u_nick U) s) s"
proof -
  have l: "hash_lookup (s_Users s) (u_nick U) = Some u" by (rule wf_user_named [OF w u(1)])
  note S = stays_users_remove [OF l]
  have "\<exists>W. s_users s v = Some W \<and> u_nick W = u_nick V" if "s_users (users_remove (u_nick U) s) v = Some V" for v V
    using users_remove_con(2) [OF l that] by blast
  moreover have "s_users (users_remove (u_nick U) s) u = None" using users_remove_users [OF l, of u] by simp
  ultimately show ?thesis
    using wf_remove_remote [OF w u] S stays_seated [OF S k] by (auto simp: dropped_def stays_def)
qed

lemma dropped_shape:
  assumes "same_shape p s" "dropped u t p"
  shows "dropped u t s"
proof -
  have l: "seats p = seats s" "classes p = classes s" using layout_shape [OF assms(1)] by (simp_all add: layout_def)
  have "\<exists>W. s_users s v = Some W \<and> u_nick W = u_nick V" if "s_users p v = Some V" for v V
    using same_shapeD(1) [OF assms(1) that] by (auto simp: user_shape_def)
  then show ?thesis
    using assms(2) classes_class [OF l(2)] unfolding dropped_def l by metis
qed

lemma dropped_drop_user:
  assumes w: "wf s" and k: "seated s" and u: "u \<in> dom (s_users s)" and n: "\<And>r. same_shape (note r) r"
  shows "dropped u (drop_user u reason note s) s"
proof -
  obtain U where U: "s_users s u = Some U" using u by blast
  show ?thesis
  proof (cases "ISUSER (u_con U) s")
    case False
    then show ?thesis using dropped_remote [OF w k U] U by (simp add: drop_user_def)
  next
    case True
    let ?p = "note s"
    have p: "wf ?p" "seated ?p"
      using same_shape_wf [OF n w] stays_seated [OF stays_layout [OF layout_shape [OF n]] k] by simp_all
    have d: "u_con U \<in> dom (s_conns s)" "c_user (cnx s (u_con U)) = u"
      using conn_okD(2,3) [OF wf_uptoD(4) [OF w] U] True by simp_all
    have "classes ?p = classes s" using layout_shape [OF n] by (simp add: layout_def)
    then have "classes ?p (u_con U) = Some (CLASS_USER, u)" using d True by (auto simp: classes_def conn_shape_def ISUSER_def)
    then obtain K where K: "s_conns ?p (u_con U) = Some K" "c_class K = CLASS_USER" "c_user K = u"
      by (auto simp: classes_def conn_shape_def)
    have "dropped u (zap_local_user (u_con U) reason ?p) ?p" using dropped_zap [OF p K(1,2)] K(3) by simp
    then have "dropped u (zap_local_user (u_con U) reason ?p) s" by (rule dropped_shape [OF n])
    then show ?thesis using True U by (simp add: drop_user_def)
  qed
qed

text \<open>After the check for a collision nobody of that name is logged in.\<close>

definition vacant :: "string \<Rightarrow> srv \<Rightarrow> srv \<Rightarrow> bool" where
  "vacant nick t s \<longleftrightarrow> wf t \<and> seated t \<and> hash_lookup (s_Users t) nick = None \<and> seats t \<subseteq>\<^sub>m seats s \<and>
     (\<forall>d. \<not> ISUSER d s \<longrightarrow> classes t d = classes s d)"

lemma dropped_vacant:
  assumes w: "wf s" and l: "hash_lookup (s_Users s) nick = Some u" and d: "dropped u t s"
  shows "vacant nick t s"
proof -
  obtain U where U: "s_users s u = Some U" "strcaseeq nick (u_nick U)" by (rule wf_lookup_user [OF w l])
  have "hash_lookup (s_Users t) (u_nick U) = None"
    by (rule nick_free [OF w _ U(1)]) (use d in \<open>auto simp: dropped_def\<close>)
  then have "hash_lookup (s_Users t) nick = None"
    using hash_stack_cong [OF U(2), of "s_Users t"] by (simp add: hash_lookup_stack)
  then show ?thesis using d by (simp add: vacant_def dropped_def)
qed

lemma collision_vacant:
  assumes w: "wf s" and k: "seated s" and c: "login_collision con av s = (True, t)"
  shows "vacant (av ! 0) t s"
proof (cases "hash_lookup (s_Users s) (av ! 0)")
  case None
  then show ?thesis using c w k by (simp add: login_collision_def vacant_def)
next
  case (Some u)
  have du: "vacant (av ! 0) (drop_user u reason g p) s" if "same_shape p s" "\<And>r. same_shape (g r) r" for reason g p
  proof (rule dropped_vacant [OF w Some], rule dropped_shape [OF that(1)], rule dropped_drop_user)
    show "wf p" by (rule same_shape_wf [OF that(1) w])
    show "seated p" by (rule stays_seated [OF stays_layout [OF layout_shape [OF that(1)]] k])
    have "map_option user_shape (s_users p u) = map_option user_shape (s_users s u)"
      using that(1) by (simp add: same_shape_def)
    moreover have "u \<in> dom (s_users s)" by (rule wf_lookup_user_dom [OF w Some])
    ultimately show "u \<in> dom (s_users p)" by auto
  qed (rule that(2))
  show ?thesis using c Some by (auto simp: login_collision_def Let_def split: if_splits intro!: du)
qed

lemma collision_stops: "login_collision con av s = (False, t) \<Longrightarrow> same_shape t s"
  by (auto simp: login_collision_def Let_def split: option.splits if_splits)

section \<open>A user that enters\<close>

lemma conn_ok_classes:
  "conn_ok {} s \<longleftrightarrow>
     (\<forall>c u. classes s c = Some (CLASS_USER, u) \<longrightarrow> (\<exists>U. s_users s u = Some U \<and> u_con U = c \<and> u_local U)) \<and>
     (\<forall>u U. s_users s u = Some U \<longrightarrow> (\<exists>k v. classes s (u_con U) = Some (k, v) \<and> (k = CLASS_USER \<longrightarrow> v = u)))"
  unfolding conn_ok_def classes_def conn_shape_def
  by (intro arg_cong2 [where f = conj] iffI allI impI)
     (fastforce simp: ISUSER_def)+

lemma seated_classes:
  "conn_ok {} s \<Longrightarrow> seated s \<longleftrightarrow> (\<forall>v U. s_users s v = Some U \<longrightarrow> (\<forall>w. classes s (u_con U) \<noteq> Some (CLASS_UNKNOWN, w)))"
  unfolding conn_ok_def seated_def classes_def conn_shape_def ISUNKNOWN_def by fastforce

definition entered :: "uid \<Rightarrow> user \<Rightarrow> srv \<Rightarrow> srv" where
  "entered new U s = s\<lparr>s_users := (s_users s)(new \<mapsto> U), s_Users := hash_add (s_Users s) (u_nick U) new\<rparr>"

lemma wf_entered:
  assumes w: "wf s" and k: "seated s" and l: "hash_lookup (s_Users s) (u_nick U) = None" and new: "s_users s new = None"
    and U: "u_channels U = []" "u_invited U = []"
    and t: "same_core p s \<or> p = seat con new s" "t = entered new U p"
    and con: "if u_local U then p = seat con new s \<and> u_con U = con \<and> con \<in> dom (s_conns s) \<and> ISUNKNOWN con s
       else same_core p s \<and> u_con U \<in> dom (s_conns s) \<and> ISSERVER (u_con U) s"
  shows "wf t \<and> seated t"
proof -
  have tu: "s_users t = (s_users s)(new \<mapsto> U)" "s_Users t = hash_add (s_Users s) (u_nick U) new" "s_chans t = s_chans s"
    "s_Channels t = s_Channels s" "s_next t = s_next s"
    using t by (auto simp: entered_def same_core_def seat_def)
  note L = links_okD [OF wf_uptoD(1) [OF w]] and UT = user_table_okD [OF wf_uptoD(3) [OF w]]
  have rel: "memb t = memb s" "inviting t = inviting s" by (simp_all add: memb_def inviting_def fun_eq_iff tu)
  have no: "\<not> memb s c new" "\<not> inviting s c new" for c using L(5,6) [of c new] new by auto
  have "links_ok {} t"
  proof (rule links_okI)
    show "distinct (u_channels V) \<and> distinct (u_invited V)" if "s_users t v = Some V" for v V
      using that L(1,2) [of v V] U by (auto simp: tu split: if_splits)
    show "v \<in> dom (s_users t)" if "memb t c v \<or> inviting t c v" for c v
      using that L(5,6) [of c v] by (auto simp: tu rel)
    show "inch t v c = memb t c v" for v c
      using L(7) [of v c] no(1) [of c] U(1) by (cases "v = new") (auto simp: inch_def tu rel)
    show "invd t v c = inviting t c v" for v c
      using L(8) [of v c] no(2) [of c] U(2) by (cases "v = new") (auto simp: invd_def tu rel)
  qed (use L(3,4) tu(3) in auto)
  moreover have "chan_table_ok t" using wf_uptoD(2) [OF w] by (simp add: chan_table_ok_def tu)
  moreover have "user_table_ok {} t"
  proof (rule user_table_okI)
    show "hash_invar (s_Users t)" using UT(1) by (simp add: tu hash_invar_add)
    have none: "hash_stack (s_Users s) (u_nick U) = []" using l by (simp add: hash_lookup_stack split: list.splits)
    show "hash_stack (s_Users t) (u_nick V) = [v]" if "s_users t v = Some V" for v V
    proof (cases "v = new")
      case True
      then show ?thesis using that none UT(1) by (simp add: tu hash_stack_add)
    next
      case False
      then have V: "hash_stack (s_Users s) (u_nick V) = [v]" using that UT(2) [of v 0 V] by (simp add: tu)
      then have "\<not> strcaseeq (u_nick U) (u_nick V)" using none hash_stack_cong [of "u_nick U" "u_nick V" "s_Users s"] by auto
      then show ?thesis using V UT(1) by (simp add: tu hash_stack_add)
    qed
    show "\<exists>V. s_users t v = Some V \<and> strcaseeq k (u_nick V)" if m: "v \<in> set (hash_stack (s_Users t) k)" for k v
    proof (cases "v \<in> set (hash_stack (s_Users s) k)")
      case True
      then obtain V where "s_users s v = Some V" "strcaseeq k (u_nick V)" using UT(3) by blast
      then show ?thesis using new by (auto simp: tu)
    next
      case False
      then have "v = new \<and> strcaseeq (u_nick U) k" using m UT(1) by (auto simp: tu hash_stack_add split: if_splits)
      then show ?thesis by (simp add: tu strcaseeq_commute)
    qed
  qed
  moreover have "conn_ok {} t \<and> (\<forall>v V. s_users t v = Some V \<longrightarrow> (\<forall>x. classes t (u_con V) \<noteq> Some (CLASS_UNKNOWN, x)))"
  proof -
    have A: "\<And>c u. classes s c = Some (CLASS_USER, u) \<Longrightarrow> \<exists>U. s_users s u = Some U \<and> u_con U = c \<and> u_local U"
      and B: "\<And>u U. s_users s u = Some U \<Longrightarrow> \<exists>k v. classes s (u_con U) = Some (k, v) \<and> (k = CLASS_USER \<longrightarrow> v = u)"
      and C: "\<And>v U w. s_users s v = Some U \<Longrightarrow> classes s (u_con U) \<noteq> Some (CLASS_UNKNOWN, w)"
      using wf_uptoD(4) [OF w] k seated_classes [OF wf_uptoD(4) [OF w]] by (auto simp: conn_ok_classes)
    show ?thesis
    proof (cases "u_local U")
      case True
      then have c: "u_con U = con" "\<exists>x. classes s con = Some (CLASS_UNKNOWN, x)" "p = seat con new s"
        using con by (auto simp: classes_def conn_shape_def ISUNKNOWN_def)
      have ct: "classes t d = (if d = con then Some (CLASS_USER, new) else classes s d)" for d
        using con True by (auto simp: t(2) c(3) entered_def seat_def classes_def conn_shape_def)
      have "u_con V \<noteq> con" if "s_users s v = Some V" for v V using C [OF that] c(2) by auto
      then show ?thesis
        using A B C c new True unfolding conn_ok_classes ct tu by (auto split: if_splits) (metis option.distinct(1))+
    next
      case False
      then have ct: "classes t = classes s" using con by (simp add: t(2) entered_def same_core_def classes_def fun_eq_iff)
      have "\<exists>x. classes s (u_con U) = Some (CLASS_SERVER, x)"
        using con False by (auto simp: classes_def conn_shape_def ISSERVER_def)
      then show ?thesis
        using A B C new unfolding conn_ok_classes ct tu by (auto split: if_splits) (metis option.distinct(1))+
    qed
  qed
  ultimately show ?thesis using seated_classes [of t] by (blast intro: wf_uptoI)
qed

lemma login_enter_local:
  assumes "ISUNKNOWN con s"
  shows "same_shape (login_enter new con av port speed ip db s)
    (entered new (fresh_user con av port speed ip True (s_time s) (Server_Name (s_cfg s)) (c_port (cnx s con)) s) (seat con new s))"
proof -
  let ?U = "fresh_user con av port speed ip True (s_time s) (Server_Name (s_cfg s)) (c_port (cnx s con)) s"
  have h: "same_shape (p\<lparr>s_Users := h\<rparr>) (entered new ?U (seat con new s))"
    if "same_shape p (seat con new (put_user new ?U s))" "h = hash_add (s_Users s) (u_nick ?U) new" for p h
    using that by (simp add: same_shape_def entered_def seat_def put_user_def)
  show ?thesis
    using assms by (simp add: login_enter_def Let_def server_stats_def show_motd_def)
      (rule h; simp add: seat_def put_user_def)
qed

lemma login_enter_remote:
  assumes "\<not> ISUNKNOWN con s"
  shows "\<exists>srvname. same_shape (login_enter new con av port speed ip db s)
    (entered new (fresh_user con av port speed ip False (atoi (av ! 6)) srvname (nat (atoi (av ! 9) mod 65536)) s) s)"
proof -
  obtain srvname m where f: "find_server (av ! 8) (s_misc s) = (srvname, m)" by fastforce
  then have n: "m_Num_Clients m = m_Num_Clients (s_misc s)" by (auto simp: find_server_def split: option.splits)
  let ?U = "fresh_user con av port speed ip False (atoi (av ! 6)) srvname (nat (atoi (av ! 9) mod 65536)) s"
  show ?thesis
    using assms f n by (intro exI [of _ srvname])
      (simp add: login_enter_def Let_def same_shape_def entered_def put_user_def)
qed

lemma same_shape_fold_left: "(\<And>x s. same_shape (f x s) s) \<Longrightarrow> same_shape (fold f xs s) r = same_shape s r"
  using same_shape_left [OF same_shape_fold] by blast

lemma login_finish_enter:
  "same_shape (login_finish new con av port speed ip db s) (login_enter new con av port speed ip db s)"
  by (simp add: login_finish_def login_level_def login_flags_def tell_waiting_def shape_simps same_shape_fold_left
      split: option.split)

section \<open>The login as a whole\<close>

lemma reject_cfg [simp]: "s_cfg (reject c t s) = s_cfg s" "s_cfg (kill_client n t s) = s_cfg s"
  by (simp_all add: reject_def doom_def kill_client_def Let_def)

lemma admit_cfg: "admit con nick host db s = (b, t) \<Longrightarrow> s_cfg t = s_cfg s \<and> s_dbs t = s_dbs s"
proof -
  have b: "s_cfg (snd (check_ban con nick host s)) = s_cfg s \<and> s_dbs (snd (check_ban con nick host s)) = s_dbs s"
    by (auto simp: check_ban_def reject_banned_def Let_def split: option.split)
  have e: "s_cfg (snd (eject_client con v)) = s_cfg v \<and> s_dbs (snd (eject_client con v)) = s_dbs v" for v
    by (auto simp: eject_client_def kill_client_def Let_def split: option.split)
  have b': "s_cfg v = s_cfg s \<and> s_dbs v = s_dbs s" if "check_ban con nick host s = (x, v)" for x v using b that by simp
  have e': "s_cfg r = s_cfg s \<and> s_dbs r = s_dbs s" if "check_ban con nick host s = (y, v)" "eject_client con v = (x, r)" for x y v r
    using e [of v] b' [OF that(1)] that(2) by simp
  assume "admit con nick host db s = (b, t)"
  then show ?thesis
    by (auto simp: admit_def reject_def doom_def dest: e' b' split: if_splits prod.splits bool.splits)
qed

lemma number_cfg: "login_number con w nick v hi s = (Some n, t) \<Longrightarrow> s_cfg t = s_cfg s \<and> s_dbs t = s_dbs s"
  by (auto simp: login_number_def split: if_splits)

text \<open>The login stops, or there is an account for the user, the name is free, and the user enters.\<close>

lemma login_user_cases:
  assumes "login_user new con tag av s = Some t"
  obtains "same_shape t s"
  | speed port tag' r p q q' d where "same_shape r s" "s_cfg r = s_cfg s"
      "login_account con tag (av ! 0) (av ! 1) (login_host con av s)
         (map_option (dbs s) (hash_lookup (s_User_Db s) (av ! 0))) r = Some (Some tag', p)" "same_shape p r"
      "login_collision con av p = (True, q)" "same_core q' q"
      "t = login_finish new con av port speed (login_ip con av s) d q'"
proof -
  let ?d = "hash_lookup (s_User_Db s) (av ! 0)" and ?host = "login_host con av s"
  let ?db = "map_option (dbs s) ?d"
  obtain b s1 where a: "admit con (av ! 0) ?host ?db s = (b, s1)" by fastforce
  note S1 = shape_admit [OF a] and C1 = admit_cfg [OF a]
  obtain n1 s2 where n1: "login_number con ''speed'' (av ! 0) (atoi (av ! 4)) 10 s1 = (n1, s2)" by fastforce
  note S2 = same_shape_trans [OF shape_login_number [OF n1] S1]
  obtain n2 s3 where n2: "login_number con ''port'' (av ! 0) (atoi (av ! 2)) 65535 s2 = (n2, s3)" by fastforce
  note S3 = same_shape_trans [OF shape_login_number [OF n2] S2]
  let ?acc = "login_account con tag (av ! 0) (av ! 1) ?host ?db s3"
  show thesis
  proof (cases "b \<and> n1 \<noteq> None \<and> n2 \<noteq> None")
    case False
    then have "t = s1 \<or> t = s2 \<or> t = s3"
      using assms by (cases b; cases n1; cases n2) (auto simp: login_user_def Let_def a n1 n2)
    then show thesis using that(1) S1 S2 S3 by blast
  next
    case True
    then obtain speed port where T: "b" "n1 = Some speed" "n2 = Some port" by auto
    have C3: "s_cfg s3 = s_cfg s" using C1 number_cfg n1 n2 T by metis
    show thesis
    proof (cases ?acc)
      case None
      then show thesis using assms T by (simp add: login_user_def Let_def a n1 n2)
    next
      case (Some rp)
      then obtain tg p where acc: "?acc = Some (tg, p)" by (cases rp) auto
      note Sp = shape_login_account [OF acc]
      note S4 = same_shape_trans [OF Sp S3]
      obtain c q where col: "login_collision con av p = (c, q)" by fastforce
      show thesis
      proof (cases "tg \<noteq> None \<and> c")
        case False
        then have "t = p \<or> (\<not> c \<and> t = q)"
          using assms T by (cases c; cases tg) (simp_all add: login_user_def Let_def a n1 n2 acc col del: One_nat_def)
        then show thesis using that(1) S4 same_shape_trans [OF collision_stops S4] col by auto
      next
        case True
        then obtain tag' where tg: "tg = Some tag'" and c by auto
        let ?reg = "if tag' = MSG_CLIENT_LOGIN_REGISTER then map_prod Some id (login_register av q) else (?d, q)"
        have t: "t = login_finish new con av port speed (login_ip con av s) (fst ?reg) (snd ?reg)"
          using assms T tg \<open>c\<close> by (cases ?reg) (simp add: login_user_def Let_def a n1 n2 acc col del: One_nat_def)
        have core: "same_core (snd ?reg) q"
          by (simp add: login_register_def make_pass_def add_db_def Let_def same_core_def)
        show thesis
          by (rule that(2) [OF S3 C3 _ Sp _ core t]) (use acc col tg \<open>c\<close> in \<open>simp_all del: One_nat_def\<close>)
      qed
    qed
  qed
qed

text \<open>The user that has entered.\<close>

lemma login_user_enters:
  assumes "login_user new con tag av s = Some t" "\<not> same_shape t s"
  obtains p q q' U where "same_shape p s" "login_collision con av p = (True, q)" "same_core q' q" "u_nick U = av ! 0"
    "u_con U = con" "u_channels U = []" "u_invited U = []" "u_local U = ISUNKNOWN con q'"
    "same_shape t (entered new U (if ISUNKNOWN con q' then seat con new q' else q'))"
  using assms(1)
proof (cases rule: login_user_cases)
  case 1
  then show ?thesis using assms(2) by simp
next
  case (2 speed port tag' r p q q' d)
  let ?e = "login_enter new con av port speed (login_ip con av s) d q'"
  have f: "same_shape t ?e" unfolding 2(7) by (rule login_finish_enter)
  have p: "same_shape p s" by (rule same_shape_trans [OF 2(4,1)])
  show ?thesis
  proof (cases "ISUNKNOWN con q'")
    case True
    note e = same_shape_trans [OF f login_enter_local [OF True]]
    show ?thesis by (rule that [OF p 2(5,6)]) (use e True in \<open>simp_all add: fresh_user_def\<close>)
  next
    case False
    obtain sn where "same_shape ?e (entered new (fresh_user con av port speed (login_ip con av s) False (atoi (av ! 6)) sn
        (nat (atoi (av ! 9) mod 65536)) q') q')" using login_enter_remote [OF False] by blast
    from same_shape_trans [OF f this] show ?thesis
      by (intro that [OF p 2(5,6)]) (use False in \<open>simp_all add: fresh_user_def\<close>)
  qed
qed

lemma wf_login_user:
  assumes w: "wf s" and k: "seated s" and new: "new \<notin> dom (s_users s)" and con: "con \<in> dom (s_conns s)"
    "ISUNKNOWN con s \<or> ISSERVER con s" and run: "login_user new con tag av s = Some t"
  shows "wf t \<and> seated t"
proof (cases "same_shape t s")
  case True
  then show ?thesis using same_shape_wf [OF True w] stays_seated [OF stays_layout [OF layout_shape [OF True]] k] by simp
next
  case False
  show ?thesis
  proof (rule login_user_enters [OF run False])
    fix p q q' U
    assume p: "same_shape p s" and c: "login_collision con av p = (True, q)" and q': "same_core q' q" and
      U: "u_nick U = av ! 0" "u_con U = con" "u_channels U = []" "u_invited U = []" "u_local U = ISUNKNOWN con q'" and
      t: "same_shape t (entered new U (if ISUNKNOWN con q' then seat con new q' else q'))"
    have pl: "seats p = seats s" "classes p = classes s" using layout_shape [OF p] by (simp_all add: layout_def)
    have V: "vacant (av ! 0) q p"
      using same_shape_wf [OF p w] stays_seated [OF stays_layout [OF layout_shape [OF p]] k] by (rule collision_vacant [OF _ _ c])
    have w': "wf q'" using V same_core_wf [OF q'] by (simp add: vacant_def)
    have ql: "seats q' = seats q" "classes q' = classes q" using layout_core [OF q'] by (simp_all add: layout_def)
    have k': "seated q'" using V stays_seated [OF stays_layout [OF layout_core [OF q']]] by (simp add: vacant_def)
    have l: "hash_lookup (s_Users q') (u_nick U) = None" using V q' U(1) by (simp add: vacant_def same_core_def)
    have "seats q' new = None" using V new by (auto simp: ql pl vacant_def map_le_def dom_def seats_def)
    then have n: "s_users q' new = None" by (simp add: seats_def)
    have "\<not> ISUSER con s" using con(2) class_cases by (auto simp: ISUNKNOWN_def ISSERVER_def ISUSER_def)
    then have cc: "classes q' con = classes s con" using V pl classes_class [OF pl(2)] by (simp add: vacant_def ql)
    have cl: "con \<in> dom (s_conns q')" "ISUNKNOWN con q' = ISUNKNOWN con s" "ISSERVER con q' = ISSERVER con s"
      using cc con(1) by (auto simp: classes_def ISUNKNOWN_def ISSERVER_def conn_shape_def)
    let ?p = "if ISUNKNOWN con q' then seat con new q' else q'"
    have "wf (entered new U ?p) \<and> seated (entered new U ?p)"
      by (rule wf_entered [OF w' k' l n U(3,4) _ refl]) (use cl con U in auto)
    then show ?thesis
      using same_shape_wf [OF t] stays_seated [OF stays_layout [OF layout_shape [OF t]]] by simp
  qed
qed

lemma login_cases:
  assumes "login new con tag pkt s = Some t"
  obtains "same_shape t s"
  | "\<not> ISUSER con s" "login_user new con tag (get_args 10 (Some pkt)) s = Some t" "\<not> same_shape t s"
proof (cases "same_shape t s")
  case False
  then have "\<not> ISUSER con s" "login_user new con tag (get_args 10 (Some pkt)) s = Some t"
    using assms by (auto simp: login_def Let_def split: if_splits)
  then show thesis using that(2) False by blast
qed (rule that(1))

lemma wf_login:
  assumes "wf s" "seated s" "new \<notin> dom (s_users s)" "con \<in> dom (s_conns s)" "login new con tag pkt s = Some t"
  shows "wf t \<and> seated t"
  using assms(5)
proof (cases rule: login_cases)
  case 1
  then show ?thesis
    using same_shape_wf [OF 1 assms(1)] stays_seated [OF stays_layout [OF layout_shape [OF 1]] assms(2)] by simp
next
  case 2
  then show ?thesis using wf_login_user [OF assms(1-4)] class_cases by blast
qed

text \<open>A client that logs in becomes a user of the name it gave.  If that name is registered, the client has
  sent the plain login with the password of the registration, and if it is not, the server accepts users
  without a registration or the client has asked for one.\<close>

lemma login_authenticated:
  assumes tag: "tag = MSG_CLIENT_LOGIN \<or> tag = MSG_CLIENT_LOGIN_REGISTER"
    and before: "ISUNKNOWN con s" and run: "login new con tag pkt s = Some t" and after: "ISUSER con t"
  shows "(\<exists>U. s_users t new = Some U \<and> u_nick U = get_args 10 (Some pkt) ! 0 \<and> u_con U = con) \<and>
    (case hash_lookup (s_User_Db s) (get_args 10 (Some pkt) ! 0) of
       Some d \<Rightarrow> tag = MSG_CLIENT_LOGIN \<and> check_pass (db_password (dbs s d)) (get_args 10 (Some pkt) ! 1) = Some True
     | None \<Rightarrow> tag = MSG_CLIENT_LOGIN_REGISTER \<or> \<not> Registered_Only (s_cfg s))"
proof -
  let ?av = "get_args 10 (Some pkt)"
  have no: "\<not> same_shape t s"
    using layout_shape [of t s] classes_class [of t s con] before after
    by (auto simp: layout_def ISUNKNOWN_def ISUSER_def)
  have u: "login_user new con tag ?av s = Some t" using run no by (cases rule: login_cases) simp_all
  show ?thesis
  proof (rule conjI)
    show "case hash_lookup (s_User_Db s) (?av ! 0) of
       Some d \<Rightarrow> tag = MSG_CLIENT_LOGIN \<and> check_pass (db_password (dbs s d)) (?av ! 1) = Some True
     | None \<Rightarrow> tag = MSG_CLIENT_LOGIN_REGISTER \<or> \<not> Registered_Only (s_cfg s)"
      using u
    proof (cases rule: login_user_cases)
      case (2 speed port tag' r p q q' d)
      from 2(3) tag show ?thesis
        by (cases "hash_lookup (s_User_Db s) (?av ! 0)")
          (auto simp: login_account_def Let_def 2(2) split: if_splits)
    qed (use no in simp)
    show "\<exists>U. s_users t new = Some U \<and> u_nick U = ?av ! 0 \<and> u_con U = con"
    proof (rule login_user_enters [OF u no])
      fix q' U
      assume U: "u_nick U = ?av ! 0" "u_con U = con"
        and t: "same_shape t (entered new U (if ISUNKNOWN con q' then seat con new q' else q'))"
      have "s_users (entered new U (if ISUNKNOWN con q' then seat con new q' else q')) new = Some U"
        by (simp add: entered_def)
      then obtain V where "s_users t new = Some V" "user_shape U = user_shape V"
        using same_shapeD(1) [OF same_shape_sym [OF t], of new U] by auto
      then show ?thesis using U by (auto simp: user_shape_def)
    qed
  qed
qed

section \<open>Servers\<close>

lemma same_shape_server_parts [simp]:
  "same_shape (deny c w s) r = same_shape s r" "same_shape (link_collision c a x b y s) r = same_shape s r"
  by (simp_all add: deny_def link_collision_def shape_simps)

lemma shape_is_linked: "is_linked con host s = (b, t) \<Longrightarrow> same_shape t s"
  by (auto simp: is_linked_def split: option.splits)

lemma shape_server_login: "same_shape (server_login e con tag pkt s) s"
proof -
  have a: "same_shape (answer_login con s) r = same_shape s r" for s r
    by (simp add: answer_login_def make_nonce_def shape_simps)
  show ?thesis
    by (auto simp: server_login_def a shape_simps dest: shape_is_linked split: prod.split bool.split option.split)
qed

lemma challenge_digest:
  assumes that: "length a < 2 ^ 32" "length b < 2 ^ 32" "length p < 2 ^ 32"
  shows "challenge a b p = concat (map hex_pair (md5_digest (a @ b @ p)))"
proof -
  have d: "md5_finish_ctx (md5_process_bytes p (md5_process_bytes b (md5_process_bytes a md5_init_ctx))) = md5_digest (a @ b @ p)"
    using md5_fold [of "[a, b, p]"] that by simp
  have l: "length (md5_digest (a @ b @ p)) = 16" using length_md5_finish_ctx unfolding d [symmetric] .
  have r: "replicate 17 (CHR 0x00) = replicate 16 (CHR 0x00) @ [CHR 0x00]" by (simp add: eval_nat_numeral)
  have "expand_hex (md5_digest (a @ b @ p) @ replicate 17 (CHR 0x00)) 16 =
      concat (map hex_pair (md5_digest (a @ b @ p))) @ [CHR 0x00]"
    using expand_loop_hex [of "md5_digest (a @ b @ p)" 16 "replicate 16 (CHR 0x00)" "[CHR 0x00]"] l
    unfolding expand_hex_def r by simp
  then show ?thesis using l by (simp add: challenge_def Let_def d)
qed

text \<open>A connection becomes a server only by sending the digest of both nonces and the password that the file
  \<open>servers\<close> has for its host.\<close>

lemma server_needs_password:
  assumes before: "ISUNKNOWN con s" and run: "server_login_ack con tag pkt s = Some t" and after: "ISSERVER con t"
  shows "\<exists>nonce peernonce pass own. c_nonce (cnx s con) = Some nonce \<and> c_sendernonce (cnx s con) = Some peernonce \<and>
    get_server_pass (c_host (cnx s con)) s = Some (pass, own) \<and>
    (length nonce < 2 ^ 32 \<and> length peernonce < 2 ^ 32 \<and> length pass < 2 ^ 32 \<longrightarrow>
      pkt = concat (map hex_pair (md5_digest (nonce @ peernonce @ pass))))"
proof -
  have no: "\<not> same_shape t s"
    using layout_shape [of t s] classes_class [of t s con] before after
    by (auto simp: layout_def ISUNKNOWN_def ISSERVER_def)
  obtain nonce peernonce pass own where P: "c_nonce (cnx s con) = Some nonce" "c_sendernonce (cnx s con) = Some peernonce"
    "get_server_pass (c_host (cnx s con)) s = Some (pass, own)" "challenge nonce peernonce pass = pkt"
    using run no before by (auto simp: server_login_ack_def split: option.splits if_splits)
  then show ?thesis using challenge_digest by blast
qed

text \<open>
  The response of this server to a login that gives its own nonce as the peer's is the response that it
  waits for, when the passwords of the two directions are the same.
\<close>

lemma handshake_reflects:
  assumes fs: "get_args 3 (Some pkt) = [host, nonce, clev]" and "is_linked con host s = (False, s)" "con \<in> dom (s_conns s)"
    "ISUNKNOWN con s" "e_lookup_ip e host = c_ip (cnx s con)" "get_server_pass host s = Some (pass, pass)"
    "0 \<le> atoi clev" "atoi clev \<le> 9" "c_server_login (cnx s con)" "c_nonce (cnx s con) = Some nonce"
  shows "\<exists>r q. server_login e con tag pkt s = send_cmd con MSG_SERVER_LOGIN_ACK r q \<and>
    server_login_ack con tag' r (send_cmd con MSG_SERVER_LOGIN_ACK r q) = link_server con (send_cmd con MSG_SERVER_LOGIN_ACK r q)"
proof -
  obtain K where K: "s_conns s con = Some K" using assms(3) by blast
  let ?r = "challenge nonce nonce pass"
  let ?p = "notify_mods SERVERLOG_MODE (''Server login request from '' @ host) (upd_conn con (\<lambda>C. C\<lparr>c_host := host\<rparr>) s)"
  let ?q = "upd_conn con (\<lambda>C. C\<lparr>c_sendernonce := Some nonce\<rparr>)
    (upd_conn con (\<lambda>C. C\<lparr>c_compress := min (atoi clev) (Compression_Level (s_cfg ?p))\<rparr>) ?p)"
  have g: "get_server_pass host t = Some (pass, pass)" if "s_misc t = s_misc s" "s_cfg t = s_cfg s" for t
    using assms(6) that by (cases "m_servers (s_misc s)") (simp_all add: get_server_pass_def)
  have "get_server_pass host ?p = Some (pass, pass)" by (rule g) simp_all
  then have "server_login e con tag pkt s = send_cmd con MSG_SERVER_LOGIN_ACK ?r ?q"
    using assms K by (simp add: server_login_def Let_def answer_login_def)
  moreover have "get_server_pass host (send_cmd con MSG_SERVER_LOGIN_ACK ?r ?q) = Some (pass, pass)" by (rule g) simp_all
  then have "server_login_ack con tag' ?r (send_cmd con MSG_SERVER_LOGIN_ACK ?r ?q) =
      link_server con (send_cmd con MSG_SERVER_LOGIN_ACK ?r ?q)"
    using assms K by (simp add: server_login_ack_def ISUNKNOWN_def)
  ultimately show ?thesis by blast
qed

text \<open>The linked server; a connection that is opened.\<close>

lemma class_changed:
  assumes w: "wf s" and k: "seated s" and no: "\<And>v V. s_users s v = Some V \<Longrightarrow> u_con V \<noteq> con"
    and t: "s_users t = s_users s" "s_Users t = s_Users s" "s_chans t = s_chans s" "s_Channels t = s_Channels s" "s_next t = s_next s"
    and c: "\<And>d. d \<noteq> con \<Longrightarrow> classes t d = classes s d" "classes t con = Some (k', x)" "k' \<noteq> CLASS_USER"
  shows "wf t \<and> seated t"
proof -
  have A: "\<And>c u. classes s c = Some (CLASS_USER, u) \<Longrightarrow> \<exists>U. s_users s u = Some U \<and> u_con U = c \<and> u_local U"
    and B: "\<And>u U. s_users s u = Some U \<Longrightarrow> \<exists>k v. classes s (u_con U) = Some (k, v) \<and> (k = CLASS_USER \<longrightarrow> v = u)"
    and C: "\<And>v U w. s_users s v = Some U \<Longrightarrow> classes s (u_con U) \<noteq> Some (CLASS_UNKNOWN, w)"
    using wf_uptoD(4) [OF w] k seated_classes [OF wf_uptoD(4) [OF w]] by (auto simp: conn_ok_classes)
  have "links_ok {} t" "chan_table_ok t" "user_table_ok {} t"
    using w by (simp_all add: wf_upto_def links_ok_def chan_table_ok_def user_table_ok_def memb_def inch_def invd_def inviting_def t)
  moreover have "conn_ok {} t"
    unfolding conn_ok_classes t(1)
  proof (intro conjI allI impI)
    show "\<exists>U. s_users s u = Some U \<and> u_con U = d \<and> u_local U" if d: "classes t d = Some (CLASS_USER, u)" for d u
      using d c A [of d u] by (cases "d = con") auto
    show "\<exists>k v. classes t (u_con U) = Some (k, v) \<and> (k = CLASS_USER \<longrightarrow> v = u)" if "s_users s u = Some U" for u U
      using B [OF that] c(1) [OF no [OF that]] by simp
  qed
  moreover have "\<forall>v V. s_users t v = Some V \<longrightarrow> (\<forall>w. classes t (u_con V) \<noteq> Some (CLASS_UNKNOWN, w))"
    using C c(1) no by (auto simp: t(1))
  ultimately show ?thesis using seated_classes [of t] by (blast intro: wf_uptoI)
qed

lemma wf_server_login_ack:
  assumes "wf s" "seated s" "con \<in> dom (s_conns s)" "server_login_ack con tag pkt s = Some t"
  shows "wf t \<and> seated t"
proof (cases "same_shape t s")
  case True
  then show ?thesis
    using same_shape_wf [OF True assms(1)] stays_seated [OF stays_layout [OF layout_shape [OF True]] assms(2)] by simp
next
  case False
  then have u: "ISUNKNOWN con s" and l: "link_server con s = Some t"
    using assms(4) by (auto simp: server_login_ack_def split: option.splits if_splits)
  obtain K where K: "s_conns s con = Some K" using assms(3) by blast
  from l obtain q where q: "only_output t q" "s_users q = s_users s" "s_Users q = s_Users s" "s_chans q = s_chans s"
    "s_Channels q = s_Channels s" "s_next q = s_next s"
    "s_conns q = (s_conns s)(con \<mapsto> K\<lparr>c_nonce := None, c_sendernonce := None, c_server_login := False, c_class := CLASS_SERVER\<rparr>)"
    unfolding link_server_def Let_def using K by (auto dest!: synch_only_output)
  then show ?thesis
    using seatedD [OF assms(2)] u
    by (intro class_changed [OF assms(1,2), of con _ CLASS_SERVER "c_user K"])
      (auto simp: only_output_def classes_def conn_shape_def)
qed

lemma wf_add_client:
  assumes "wf s" "seated s" "con \<notin> dom (s_conns s)" "c_class K = CLASS_UNKNOWN"
  shows "wf (add_client con K s) \<and> seated (add_client con K s)"
  using assms(3,4) conn_okD(2) [OF wf_uptoD(4) [OF assms(1)]]
  by (intro class_changed [OF assms(1,2), of con _ CLASS_UNKNOWN "c_user K"])
    (auto simp: add_client_def classes_def conn_shape_def)

lemma wf_try_connect:
  assumes "wf s" "seated s" "fresh_env e" "finite (dom (s_conns s))"
  shows "wf (try_connect e host port s) \<and> seated (try_connect e host port s) \<and> finite (dom (s_conns (try_connect e host port s)))"
proof -
  let ?t = "snd (make_nonce s)"
  have m: "same_shape ?t s" "s_conns ?t = s_conns s" by (simp_all add: make_nonce_def)
  have w: "wf ?t" "seated ?t"
    using same_shape_wf [OF m(1) assms(1)] stays_seated [OF stays_layout [OF layout_shape [OF m(1)]] assms(2)] by simp_all
  have f: "finite (dom (s_conns ?t))" using assms(4) m(2) by simp
  have n: "e_new_con e ?t \<notin> dom (s_conns ?t)" using assms(3) f unfolding fresh_env_def by blast
  have "wf (add_client (e_new_con e ?t) K ?t) \<and> seated (add_client (e_new_con e ?t) K ?t) \<and>
      finite (dom (s_conns (add_client (e_new_con e ?t) K ?t)))" if "c_class K = CLASS_UNKNOWN" for K
    using wf_add_client [OF w n that] assms(4) m(2) by (simp add: add_client_def)
  then show ?thesis
    using assms by (auto simp: try_connect_def fresh_conn_def case_prod_beta split: option.split)
qed

lemma server_connect_cases:
  assumes "server_connect e con tag pkt s = Some t"
  obtains "same_shape t s" | host port lv m r where "same_shape r s" "t = notify_mods lv m (try_connect e host port r)"
proof -
  define Q where "Q v \<longleftrightarrow> same_shape v s \<or>
    (\<exists>host port lv m r. same_shape r s \<and> v = notify_mods lv m (try_connect e host port r))" for v
  have l: "same_shape r s" if "is_linked con h s = (b, r)" for h b r using shape_is_linked that by blast
  have "Q v" if "same_shape v s" for v using that by (simp add: Q_def)
  moreover have "Q (notify_mods lv m (try_connect e h p r))" if "is_linked con h' s = (b, r)" for lv m h h' p b r
    using l [OF that] unfolding Q_def by blast
  ultimately have "Q t"
    using assms unfolding server_connect_def Let_def by (auto dest: l split: option.splits prod.splits if_splits bool.splits)
  then show thesis using that unfolding Q_def by blast
qed

lemma wf_server_connect:
  assumes "wf s" "seated s" "fresh_env e" "finite (dom (s_conns s))" "server_connect e con tag pkt s = Some t"
  shows "wf t \<and> seated t \<and> finite (dom (s_conns t))"
  using assms(5)
proof (cases rule: server_connect_cases)
  case 1
  have "classes t = classes s" using layout_shape [OF 1] by (simp add: layout_def)
  then have "dom (s_conns t) = dom (s_conns s)" by (rule classes_dom)
  then show ?thesis
    using same_shape_wf [OF 1 assms(1)] stays_seated [OF stays_layout [OF layout_shape [OF 1]] assms(2)] assms(4) by simp
next
  case (2 host port lv m r)
  have "classes r = classes s" using layout_shape [OF 2(1)] by (simp add: layout_def)
  then have "dom (s_conns r) = dom (s_conns s)" by (rule classes_dom)
  then have "wf (try_connect e host port r) \<and> seated (try_connect e host port r) \<and> finite (dom (s_conns (try_connect e host port r)))"
    using same_shape_wf [OF 2(1) assms(1)] stays_seated [OF stays_layout [OF layout_shape [OF 2(1)]] assms(2)] assms(3,4)
    by (intro wf_try_connect) simp_all
  then show ?thesis unfolding 2(2) by (simp add: seated_def ISUNKNOWN_def)
qed

end
