(* ===== verification/Dispatch.thy ===== *)
theory Dispatch
  imports Admission
begin

text \<open>
  The table of commands and its binary search, and the calling of a handler (\<open>src/handler.c\<close>).  A handler
  sees its packet up to the first NUL byte; \<open>encapsulated\<close> alone also forwards what follows it.
\<close>

section \<open>Encapsulated messages\<close>

definition cstring :: "string \<Rightarrow> string" where
  "cstring pkt = takeWhile (\<lambda>c. c \<noteq> CHR 0x00) pkt"

text \<open>
  What is queued for a connection without a header of its own is a frame with this number, which is no
  16-bit tag.
\<close>

definition raw_tag :: nat where
  "raw_tag = 65536"

definition frame_bytes :: "nat \<Rightarrow> string \<Rightarrow> string" where
  "frame_bytes tag pkt = (if tag = raw_tag then pkt else set_val (length pkt) @ set_val tag @ pkt)"

definition encapsulated :: "cid \<Rightarrow> nat \<Rightarrow> string \<Rightarrow> srv \<Rightarrow> srv" where
  "encapsulated con tag pkt s =
     (let p = cstring pkt in
      if \<not> ISSERVER con s \<or> p = [] \<or> hd p \<noteq> CHR '':'' then s
      else case break_at (\<lambda>c. c = CHR '' '') (tl p) of
        (_, None) \<Rightarrow> s
      | (sender, Some r) \<Rightarrow>
          (case break_at (\<lambda>c. c = CHR '' '') r of
             (_, None) \<Rightarrow> s
           | (nick, Some _) \<Rightarrow>
               (case hash_lookup (s_Users s) nick of
                  None \<Rightarrow> s
                | Some user \<Rightarrow>
                    if u_local (usr s user)
                    then queue_data (user_con s user) raw_tag (drop (length sender + length nick + 3) pkt) s
                    else pass_message (Some con) tag pkt s)))"

section \<open>The table\<close>

definition total :: "(cid \<Rightarrow> nat \<Rightarrow> string \<Rightarrow> srv \<Rightarrow> srv) \<Rightarrow> command" where
  "total h = (\<lambda>con tag pkt s. Some (h con tag (cstring pkt) s))"

definition partial :: "command \<Rightarrow> command" where
  "partial h = (\<lambda>con tag pkt s. h con tag (cstring pkt) s)"

definition Protocol :: "env \<Rightarrow> command \<Rightarrow> (nat \<times> command) list" where
  "Protocol e dispatch =
    [(MSG_CLIENT_LOGIN, partial (\<lambda>con tag pkt s. login (e_new_user e s) con tag pkt s)),
     (MSG_CLIENT_LOGIN_REGISTER, partial (\<lambda>con tag pkt s. login (e_new_user e s) con tag pkt s)),
     (MSG_CLIENT_REGISTER, total register_nick), (MSG_CLIENT_CHECK_PASS, partial check_password),
     (MSG_CLIENT_ADD_FILE, total add_file), (MSG_CLIENT_REMOVE_FILE, total remove_file),
     (MSG_CLIENT_SEARCH, total search), (MSG_CLIENT_DOWNLOAD, total download),
     (MSG_CLIENT_PRIVMSG, partial (privmsg dispatch)), (MSG_CLIENT_ADD_HOTLIST, total add_hotlist),
     (MSG_CLIENT_ADD_HOTLIST_SEQ, total add_hotlist), (MSG_CLIENT_BROWSE, total browse),
     (MSG_SERVER_STATS, total server_stats), (MSG_CLIENT_RESUME_REQUEST, total resume),
     (MSG_CLIENT_DOWNLOAD_START, total download_start), (MSG_CLIENT_DOWNLOAD_END, total download_end),
     (MSG_CLIENT_UPLOAD_START, total upload_start), (MSG_CLIENT_UPLOAD_END, total upload_end),
     (MSG_CLIENT_CHECK_PORT, total check_port), (MSG_CLIENT_REMOVE_HOTLIST, total remove_hotlist),
     (MSG_CLIENT_IGNORE_LIST, total ignore_list), (MSG_CLIENT_IGNORE_USER, total ignore),
     (MSG_CLIENT_UNIGNORE_USER, total unignore), (MSG_CLIENT_CLEAR_IGNORE, total clear_ignore),
     (MSG_CLIENT_JOIN, partial (join (e_fuel e))), (MSG_CLIENT_PART, total part), (MSG_CLIENT_PUBLIC, partial public),
     (MSG_SERVER_PUBLIC, partial public), (MSG_SERVER_NOSUCH, total server_error), (MSG_SERVER_TOPIC, total topic),
     (MSG_CLIENT_CHANNEL_BAN_LIST, total channel_banlist), (MSG_CLIENT_CHANNEL_BAN, total channel_ban),
     (MSG_CLIENT_CHANNEL_UNBAN, total channel_unban), (MSG_CLIENT_CHANNEL_CLEAR_BANS, total channel_clear_bans),
     (MSG_CLIENT_DOWNLOAD_FIREWALL, total download), (MSG_CLIENT_USERSPEED, total user_speed),
     (MSG_CLIENT_WHOIS, total whois), (MSG_CLIENT_SETUSERLEVEL, total level),
     (MSG_SERVER_UPLOAD_REQUEST, total upload_request), (MSG_CLIENT_UPLOAD_OK, total upload_ok),
     (MSG_CLIENT_KILL, total kill_user), (MSG_CLIENT_NUKE, total nuke), (MSG_CLIENT_BAN, total ban),
     (MSG_CLIENT_ALTER_PORT, total alter_port), (MSG_CLIENT_UNBAN, total unban), (MSG_CLIENT_BANLIST, total banlist),
     (MSG_CLIENT_LIST_CHANNELS, total list_channels), (MSG_CLIENT_LIMIT, total queue_limit),
     (MSG_CLIENT_MOTD, total show_motd), (MSG_CLIENT_MUZZLE, total muzzle), (MSG_CLIENT_UNMUZZLE, total muzzle),
     (MSG_CLIENT_ALTER_SPEED, partial alter_speed), (MSG_CLIENT_DATA_PORT_ERROR, partial data_port_error),
     (MSG_CLIENT_WALLOP, total wallop), (MSG_CLIENT_ANNOUNCE, total announce), (MSG_CLIENT_CLOAK, total cloak),
     (MSG_CLIENT_CHANGE_SPEED, partial change_speed), (MSG_CLIENT_CHANGE_PASS, total change_pass),
     (MSG_CLIENT_CHANGE_EMAIL, total change_email), (MSG_CLIENT_CHANGE_DATA_PORT, partial change_data_port),
     (MSG_CLIENT_PING_SERVER, total ping_server), (MSG_CLIENT_PING, partial ping), (MSG_CLIENT_PONG, partial ping),
     (MSG_CLIENT_ALTER_PASS, total alter_pass), (MSG_CLIENT_SERVER_RECONFIG, total (server_reconfig e)),
     (MSG_CLIENT_SERVER_VERSION, partial (server_version e)), (MSG_CLIENT_SERVER_CONFIG, partial (server_config e)),
     (MSG_CLIENT_CLEAR_CHANNEL, total clear_channel), (MSG_CLIENT_REDIRECT, partial redirect_client),
     (MSG_CLIENT_CYCLE, partial cycle_client), (MSG_CLIENT_SET_CHAN_LEVEL, partial channel_level),
     (MSG_CLIENT_EMOTE, partial emote), (MSG_CLIENT_CHANNEL_LIMIT, total channel_limit),
     (MSG_CLIENT_FULL_CHANNEL_LIST, total full_channel_list), (MSG_CLIENT_KICK, total kick),
     (MSG_CLIENT_NAMES_LIST, total list_users), (MSG_CLIENT_GLOBAL_USER_LIST, total global_user_list),
     (MSG_CLIENT_ADD_DIRECTORY, total add_directory), (MSG_CLIENT_QUIT, total client_quit),
     (MSG_SERVER_LOGIN, total (server_login e)), (MSG_SERVER_LOGIN_ACK, partial server_login_ack),
     (MSG_SERVER_USER_SHARING, total user_sharing), (MSG_SERVER_USER_IP, total user_ip),
     (MSG_SERVER_REGINFO, total reginfo), (MSG_SERVER_REMOTE_SEARCH, total remote_search),
     (MSG_SERVER_REMOTE_SEARCH_RESULT, total remote_search_result),
     (MSG_SERVER_REMOTE_SEARCH_END, total remote_search_end),
     (MSG_SERVER_ENCAPSULATED, (\<lambda>con tag pkt s. Some (encapsulated con tag pkt s))),
     (MSG_SERVER_LINK_INFO, total link_info), (MSG_SERVER_QUIT, total server_quit),
     (MSG_SERVER_NOTIFY_MODS, partial remote_notify_mods), (MSG_CLIENT_CONNECT, partial (server_connect e)),
     (MSG_CLIENT_DISCONNECT, total server_disconnect), (MSG_CLIENT_KILL_SERVER, total kill_server),
     (MSG_CLIENT_REMOVE_SERVER, total remove_server_cmd), (MSG_CLIENT_LINKS, total (server_links (e_queued e))),
     (MSG_CLIENT_USAGE_STATS, total (server_usage (e_usage e))), (MSG_CLIENT_REHASH, partial (rehash e)),
     (MSG_CLIENT_REGISTER_USER, partial register_user), (MSG_CLIENT_CHANNEL_LEVEL, partial channel_level),
     (MSG_CLIENT_KICK_USER, total kick), (MSG_CLIENT_USER_MODE, total user_mode_cmd),
     (MSG_CLIENT_OP, total channel_op), (MSG_CLIENT_DEOP, total channel_op),
     (MSG_CLIENT_OP_LIST, total channel_op_list), (MSG_CLIENT_DROP_CHANNEL, total channel_drop),
     (MSG_CLIENT_CHANNEL_WALLOP, total channel_wallop), (MSG_CLIENT_CHANNEL_MODE, total channel_mode),
     (MSG_CLIENT_CHANNEL_INVITE, total channel_invite), (MSG_CLIENT_CHANNEL_VOICE, total channel_voice),
     (MSG_CLIENT_CHANNEL_UNVOICE, total channel_voice), (MSG_CLIENT_CHANNEL_MUZZLE, total channel_muzzle),
     (MSG_CLIENT_CHANNEL_UNMUZZLE, total channel_muzzle), (MSG_CLIENT_SHARE_FILE, total share_file),
     (MSG_CLIENT_BROWSE_NEW, partial browse_new)]"

text \<open>The binary search; \<open>tags\<close> are the numbers in the table.  The inner \<open>None\<close> is the result -1.\<close>

partial_function (option) find_loop :: "bool \<Rightarrow> nat list \<Rightarrow> nat \<Rightarrow> nat \<Rightarrow> nat \<Rightarrow> nat option option" where
  "find_loop caught tags tag lo hi =
     (if caught then Some None
      else
        let try = (hi + lo) div 2 in
        if tag = tags ! try then Some (Some try)
        else if lo = hi then Some None
        else if tag < tags ! try
        then (if try = lo then Some None else find_loop caught tags tag lo (try - 1))
        else (if try = hi then Some None else find_loop caught tags tag (try + 1) hi))"

definition find_handler :: "nat list \<Rightarrow> nat \<Rightarrow> srv \<Rightarrow> nat option option" where
  "find_handler tags tag s = find_loop (m_SigCaught (s_misc s)) tags tag 0 (length tags - 1)"

section \<open>The dispatcher\<close>

definition dispatch_with :: "env \<Rightarrow> command \<Rightarrow> command" where
  "dispatch_with e dispatch con tag pkt s =
     (let table = Protocol e dispatch in
      case find_handler (map fst table) tag s of
        None \<Rightarrow> None
      | Some None \<Rightarrow> Some (send_cmd con MSG_SERVER_NOSUCH (''Unknown command code '' @ nat_dec tag) s)
      | Some (Some l) \<Rightarrow> snd (table ! l) con tag pkt s)"

text \<open>
  \<open>privmsg\<close> calls the dispatcher again for the commands of the services, which do not include \<open>privmsg\<close>; so
  two levels are enough.
\<close>

definition refuses :: command where
  "refuses con tag pkt s = None"

definition dispatch_command :: "env \<Rightarrow> command" where
  "dispatch_command e = dispatch_with e (dispatch_with e refuses)"

section \<open>The search finds the handler\<close>

lemma find_loop_finds:
  assumes "sorted_wrt (<) tags" "lo \<le> hi" "hi < length tags"
  shows "\<exists>l. find_loop False tags tag lo hi = Some l \<and>
    (case l of Some i \<Rightarrow> i < length tags \<and> tags ! i = tag | None \<Rightarrow> \<forall>i. lo \<le> i \<and> i \<le> hi \<longrightarrow> tags ! i \<noteq> tag)"
  using assms(2,3)
proof (induction "hi - lo" arbitrary: lo hi rule: less_induct)
  case less
  define m where "m = (hi + lo) div 2"
  have m: "lo \<le> m" "m \<le> hi" using less.prems by (auto simp: m_def)
  have run: "find_loop False tags tag lo hi =
     (if tag = tags ! m then Some (Some m)
      else if lo = hi then Some None
      else if tag < tags ! m then (if m = lo then Some None else find_loop False tags tag lo (m - 1))
      else (if m = hi then Some None else find_loop False tags tag (m + 1) hi))"
    by (subst find_loop.simps) (simp add: m_def Let_def)
  have mono: "tags ! i < tags ! j" if "i < j" "j \<le> hi" for i j
    using sorted_wrt_nth_less [OF assms(1), of i j] that less.prems by simp
  show ?case
  proof (cases "tag = tags ! m \<or> lo = hi")
    case True
    then show ?thesis using m less.prems by (auto simp: run)
  next
    case False
    show ?thesis
    proof (cases "tag < tags ! m")
      case True
      have above: "tags ! i \<noteq> tag" if "m \<le> i" "i \<le> hi" for i
        using mono [of m i] that True by (cases "i = m") auto
      show ?thesis
      proof (cases "m = lo")
        case True
        then show ?thesis using False \<open>tag < tags ! m\<close> above by (auto simp: run)
      next
        case ne: False
        have "\<exists>l. find_loop False tags tag lo (m - 1) = Some l \<and>
          (case l of Some i \<Rightarrow> i < length tags \<and> tags ! i = tag | None \<Rightarrow> \<forall>i. lo \<le> i \<and> i \<le> m - 1 \<longrightarrow> tags ! i \<noteq> tag)"
          by (rule less.hyps) (use ne m less.prems False in auto)
        then obtain l where l: "find_loop False tags tag lo (m - 1) = Some l"
          "case l of Some i \<Rightarrow> i < length tags \<and> tags ! i = tag | None \<Rightarrow> \<forall>i. lo \<le> i \<and> i \<le> m - 1 \<longrightarrow> tags ! i \<noteq> tag"
          by blast
        have "tags ! i \<noteq> tag" if "l = None" "lo \<le> i" "i \<le> hi" for i
          using l(2) that above [of i] by (cases "m \<le> i") auto
        then show ?thesis using l ne False \<open>tag < tags ! m\<close> by (auto simp: run split: option.splits)
      qed
    next
      case gt: False
      have below: "tags ! i \<noteq> tag" if "i \<le> m" for i
        using mono [of i m] m that gt False by (cases "i = m") auto
      show ?thesis
      proof (cases "m = hi")
        case True
        then show ?thesis using False gt below by (auto simp: run)
      next
        case ne: False
        have "\<exists>l. find_loop False tags tag (m + 1) hi = Some l \<and>
          (case l of Some i \<Rightarrow> i < length tags \<and> tags ! i = tag | None \<Rightarrow> \<forall>i. m + 1 \<le> i \<and> i \<le> hi \<longrightarrow> tags ! i \<noteq> tag)"
          by (rule less.hyps) (use ne m less.prems False in auto)
        then obtain l where l: "find_loop False tags tag (m + 1) hi = Some l"
          "case l of Some i \<Rightarrow> i < length tags \<and> tags ! i = tag | None \<Rightarrow> \<forall>i. m + 1 \<le> i \<and> i \<le> hi \<longrightarrow> tags ! i \<noteq> tag"
          by blast
        have "tags ! i \<noteq> tag" if "l = None" "lo \<le> i" "i \<le> hi" for i
          using l(2) that below [of i] by (cases "i \<le> m") auto
        then show ?thesis using l ne False gt by (auto simp: run split: option.splits)
      qed
    qed
  qed
qed

fun increasing :: "nat list \<Rightarrow> bool" where
  "increasing (a # b # r) = (a < b \<and> increasing (b # r))"
| "increasing r = True"

lemma increasing_sorted: "increasing r \<Longrightarrow> sorted_wrt (<) r"
proof (induction r rule: increasing.induct)
  case (1 a b r)
  then have "a < b" "sorted_wrt (<) (b # r)" by simp_all
  then show ?case by (auto intro: less_trans)
qed simp_all

lemma Protocol_sorted: "sorted_wrt (<) (map fst (Protocol e d))"
  by (rule increasing_sorted) (simp add: Protocol_def)

lemma Protocol_tags: "map fst (Protocol e d) = map fst (Protocol e' d')"
  by (simp only: Protocol_def list.map fst_conv)

lemma find_handler_spec:
  "\<exists>l. find_handler (map fst (Protocol e d)) tag s = Some l \<and>
    (case l of
       Some i \<Rightarrow> i < length (Protocol e d) \<and> fst (Protocol e d ! i) = tag
     | None \<Rightarrow> m_SigCaught (s_misc s) \<or> tag \<notin> set (map fst (Protocol e d)))"
proof (cases "m_SigCaught (s_misc s)")
  case True
  then show ?thesis by (simp add: find_handler_def) (subst find_loop.simps, simp)
next
  case False
  let ?tags = "map fst (Protocol e d)"
  have n: "0 < length ?tags" by (simp add: Protocol_def)
  then obtain l where l: "find_loop False ?tags tag 0 (length ?tags - 1) = Some l"
    "case l of Some i \<Rightarrow> i < length ?tags \<and> ?tags ! i = tag | None \<Rightarrow> \<forall>i. 0 \<le> i \<and> i \<le> length ?tags - 1 \<longrightarrow> ?tags ! i \<noteq> tag"
    using find_loop_finds [OF Protocol_sorted, of 0 "length ?tags - 1" e d tag] by auto
  have "tag \<notin> set ?tags" if "l = None"
  proof
    assume "tag \<in> set ?tags"
    then obtain i where "i < length ?tags" "?tags ! i = tag" by (metis in_set_conv_nth)
    then show False using l(2) that n by auto
  qed
  then show ?thesis using l False by (cases l) (auto simp: find_handler_def)
qed

lemma find_handler_cases:
  obtains (found) i where "find_handler (map fst (Protocol e d)) tag s = Some (Some i)" "i < length (Protocol e d)"
      "fst (Protocol e d ! i) = tag"
  | (missing) "find_handler (map fst (Protocol e d)) tag s = Some None"
      "m_SigCaught (s_misc s) \<or> tag \<notin> set (map fst (Protocol e d))"
proof -
  obtain l where l: "find_handler (map fst (Protocol e d)) tag s = Some l"
    "case l of Some i \<Rightarrow> i < length (Protocol e d) \<and> fst (Protocol e d ! i) = tag
     | None \<Rightarrow> m_SigCaught (s_misc s) \<or> tag \<notin> set (map fst (Protocol e d))"
    using find_handler_spec by blast
  show thesis
  proof (cases l)
    case None
    show thesis by (rule missing) (use l None in \<open>simp_all only: option.case\<close>)
  next
    case (Some i)
    show thesis by (rule found [of i]) (use l Some in simp_all)
  qed
qed

text \<open>C39: The binary search for a handler ends.  It finds the entry of the command's number, and says that there
  is none only if the table has none or the server is stopping.\<close>

theorem find_handler_correct:
  "\<exists>l. find_handler (map fst (Protocol e d)) tag s = Some l \<and>
    (case l of
       Some i \<Rightarrow> i < length (Protocol e d) \<and> fst (Protocol e d ! i) = tag
     | None \<Rightarrow> m_SigCaught (s_misc s) \<or> tag \<notin> set (map fst (Protocol e d)))"
  by (rule find_handler_spec)

theorem find_handler_correct_witness:
  "\<forall>e. \<exists>i. find_handler (map fst (Protocol e refuses)) MSG_CLIENT_PRIVMSG sample = Some (Some i) \<and>
     fst (Protocol e refuses ! i) = MSG_CLIENT_PRIVMSG"
proof
  fix e
  have "\<not> m_SigCaught (s_misc sample)" "MSG_CLIENT_PRIVMSG \<in> set (map fst (Protocol e refuses))"
    by (simp_all add: sample_def Protocol_def)
  then show "\<exists>i. find_handler (map fst (Protocol e refuses)) MSG_CLIENT_PRIVMSG sample = Some (Some i) \<and>
      fst (Protocol e refuses ! i) = MSG_CLIENT_PRIVMSG"
    using find_handler_correct [of e refuses MSG_CLIENT_PRIVMSG sample] by (auto split: option.splits)
qed

end
