(* ===== verification/Commands.thy ===== *)
theory Commands
  imports Dispatch Enrolled
begin

text \<open>
  Every command keeps the invariants of users, channels and connections.  The last step of each proof is the
  one of its handler's theory; here they are collected for the table, and the dispatcher is shown to be what
  \<open>privmsg\<close> relies on for the services.
\<close>

section \<open>The invariant\<close>

text \<open>\<open>D\<close> are connections that stay in the table.\<close>

definition kept :: "cid set \<Rightarrow> srv \<Rightarrow> bool" where
  "kept D s \<longleftrightarrow> wf s \<and> seated s \<and> enrolled s \<and> D \<subseteq> dom (s_conns s)"

text \<open>The numbers that \<open>handle_connection\<close> passes on for a client that has not logged in.\<close>

definition open_tags :: "nat set" where
  "open_tags = {MSG_CLIENT_LOGIN, MSG_CLIENT_LOGIN_REGISTER, MSG_CLIENT_REGISTER, MSG_SERVER_LOGIN, MSG_SERVER_LOGIN_ACK,
     MSG_SERVER_ERROR, 4, 300, 11}"

lemma kept_stays:
  assumes "stays t s" "wf t" "kept D s"
  shows "kept D t"
proof -
  note stays_dom [OF assms(1)]
  moreover have "seated t" by (rule stays_seated [OF assms(1)]) (use assms(3) in \<open>simp only: kept_def\<close>)
  moreover have "enrolled t" by (rule enrolled_stays [OF _ assms(1)]) (use assms(3) in \<open>simp only: kept_def\<close>)
  ultimately show ?thesis using assms(2,3) unfolding kept_def by metis
qed

lemma kept_wf: "kept D s \<Longrightarrow> wf s"
  by (simp only: kept_def)

lemma kept_shape: "same_shape t s \<Longrightarrow> kept D s \<Longrightarrow> kept D t"
  by (rule kept_stays [OF stays_layout [OF layout_shape] same_shape_wf [OF _ kept_wf]])

lemma kept_core: "same_core t s \<Longrightarrow> kept D s \<Longrightarrow> kept D t"
  by (rule kept_shape [OF same_shape_core])

lemma kept_finite: "kept D s \<Longrightarrow> finite (dom (s_conns s))"
  by (metis List.finite_set enrolled_def kept_def)

lemma kept_layout: "layout t = layout s \<Longrightarrow> wf t \<Longrightarrow> kept D s \<Longrightarrow> kept D t"
  by (rule kept_stays [OF stays_layout])

section \<open>Handlers\<close>

definition keeps :: "nat \<times> command \<Rightarrow> bool" where
  "keeps th \<longleftrightarrow> (\<forall>D con pkt s s'. kept D s \<longrightarrow> con \<in> dom (s_conns s) \<longrightarrow> registered con s \<or> fst th \<in> open_tags \<longrightarrow>
     snd th con (fst th) pkt s = Some s' \<longrightarrow> kept D s')"

lemma keepsI:
  assumes "\<And>D con pkt s s'. kept D s \<Longrightarrow> con \<in> dom (s_conns s) \<Longrightarrow> registered con s \<or> tag \<in> open_tags \<Longrightarrow>
    h con tag pkt s = Some s' \<Longrightarrow> kept D s'"
  shows "keeps (tag, h)"
  unfolding keeps_def fst_conv snd_conv using assms by blast

text \<open>By what a handler leaves alone.\<close>

lemma shape_total: "(\<And>con tag pkt s. same_shape (h con tag pkt s) s) \<Longrightarrow> keeps (tag, total h)"
  by (rule keepsI) (metis total_def option.inject kept_shape)

lemma shape_partial: "(\<And>con tag pkt s t. h con tag pkt s = Some t \<Longrightarrow> same_shape t s) \<Longrightarrow> keeps (tag, partial h)"
  by (rule keepsI) (metis partial_def kept_shape)

lemma core_total: "(\<And>con tag pkt s. same_core (h con tag pkt s) s) \<Longrightarrow> keeps (tag, total h)"
  by (rule keepsI) (metis total_def option.inject kept_core)

lemma core_partial: "(\<And>con tag pkt s t. h con tag pkt s = Some t \<Longrightarrow> same_core t s) \<Longrightarrow> keeps (tag, partial h)"
  by (rule keepsI) (metis partial_def kept_core)

lemma stays_total:
  assumes "\<And>con tag pkt s. wf s \<Longrightarrow> wf (h con tag pkt s)" "\<And>con tag pkt s. wf s \<Longrightarrow> stays (h con tag pkt s) s"
  shows "keeps (tag, total h)"
proof (rule keepsI)
  fix D con pkt s s'
  assume k: "kept D s" and s': "total h con tag pkt s = Some s'"
  have "wf s" using k by (simp add: kept_def)
  then have "kept D (h con tag (cstring pkt) s)" using kept_stays [OF assms(2) assms(1) k] by simp
  then show "kept D s'" using s' by (simp add: total_def)
qed

lemma layout_total:
  "(\<And>con tag pkt s. wf s \<Longrightarrow> wf (h con tag pkt s)) \<Longrightarrow> (\<And>con tag pkt s. layout (h con tag pkt s) = layout s) \<Longrightarrow>
   keeps (tag, total h)"
  by (rule stays_total) (auto intro: stays_layout)

lemma shape_servers:
  "same_shape (server_disconnect con tag pkt s) s" "same_shape (kill_server con tag pkt s) s"
  "same_shape (remove_server_cmd con tag pkt s) s" "same_shape (server_error con tag pkt s) s"
  "server_version e con tag pkt s = Some t \<Longrightarrow> same_shape t s"
  by (auto simp: server_disconnect_def kill_server_def remove_server_cmd_def server_error_def server_version_def doom_def
      shape_simps split: option.splits prod.splits if_splits)

lemma shape_login_commands:
  "same_shape (register_nick con tag pkt s) s" "same_shape (reginfo con tag pkt s) s"
  "same_shape (user_ip con tag pkt s) s" "same_shape (check_port con tag pkt s) s"
  "register_user con tag pkt s = Some t \<Longrightarrow> same_shape t s" "check_password con tag pkt s = Some t \<Longrightarrow> same_shape t s"
  by (auto simp: register_nick_def reginfo_def store_reginfo_def sync_reginfo_def user_ip_def check_port_def register_user_def
      make_pass_def check_password_def Let_def split: option.splits prod.splits if_splits)

lemma shape_search_answers:
  "same_shape (remote_search_result con tag pkt s) s" "same_shape (remote_search_end con tag pkt s) s"
  using same_core_find_search
  by (auto simp: remote_search_result_def remote_search_end_def Let_def intro: same_shape_core split: prod.splits option.splits)

lemma shape_encapsulated: "same_shape (encapsulated con tag pkt s) s"
  by (auto simp: encapsulated_def Let_def split: prod.split option.split)

section \<open>The table\<close>

text \<open>Handlers that change the membership of channels or the set of users.\<close>

lemma keeps_stays:
  "keeps (tag, total client_quit)" "keeps (tag, total kill_user)"
  by (rule stays_total; simp add: wf_client_quit stays_client_quit wf_kill_user stays_kill_user)+

lemma keeps_layout:
  "keeps (tag, total channel_ban)" "keeps (tag, total channel_unban)" "keeps (tag, total channel_banlist)"
  "keeps (tag, total channel_clear_bans)" "keeps (tag, total channel_op)" "keeps (tag, total channel_op_list)"
  "keeps (tag, total channel_drop)" "keeps (tag, total channel_wallop)" "keeps (tag, total channel_invite)"
  "keeps (tag, total channel_voice)" "keeps (tag, total channel_muzzle)" "keeps (tag, total topic)"
  "keeps (tag, total channel_limit)" "keeps (tag, total channel_mode)" "keeps (tag, total kick)"
  "keeps (tag, total clear_channel)"
  by (rule layout_total;
      simp add: layout_channel_commands layout_member_commands layout_channel_mode layout_leave wf_channel_ban
        wf_channel_unban wf_channel_banlist wf_channel_clear_bans wf_channel_op wf_channel_op_list wf_channel_drop
        wf_channel_wallop wf_channel_invite wf_channel_voice wf_channel_muzzle wf_topic wf_channel_limit
        wf_channel_mode wf_kick wf_clear_channel)+

lemma keeps_layout_accounts:
  "keeps (tag, total level)" "keeps (tag, total muzzle)" "keeps (tag, total add_hotlist)"
  "keeps (tag, total remove_hotlist)" "keeps (tag, total link_info)" "keeps (tag, total server_quit)"
  "keeps (tag, total ignore)" "keeps (tag, total unignore)" "keeps (tag, total clear_ignore)"
  "keeps (tag, total ignore_list)"
  by (rule layout_total;
      simp add: wf_level layout_level wf_muzzle layout_muzzle wf_hotlist layout_hotlist wf_links layout_links
        wf_ignores layout_ignores)+

lemma keeps_channel_level: "keeps (tag, partial channel_level)"
proof (rule keepsI)
  fix D con pkt s s'
  assume k: "kept D s" and "partial channel_level con tag pkt s = Some s'"
  then have run: "channel_level con tag (cstring pkt) s = Some s'" by (simp add: partial_def)
  then have "wf s'" using wf_channel_level [of s con tag "cstring pkt" s'] k by (simp add: kept_def)
  then show "kept D s'" by (rule kept_layout [OF layout_channel_level [OF run] _ k])
qed

lemma keeps_joins:
  assumes "tag \<notin> open_tags"
  shows "keeps (tag, total part)" "keeps (tag, partial (join fuel))"
proof -
  show "keeps (tag, total part)"
  proof (rule keepsI)
    fix D con pkt s s'
    assume k: "kept D s" and r: "registered con s \<or> tag \<in> open_tags" and "total part con tag pkt s = Some s'"
    then have "s' = part con tag (cstring pkt) s" by (simp add: total_def)
    moreover have "wf (part con tag (cstring pkt) s)" using wf_part k r assms by (simp add: kept_def)
    ultimately show "kept D s'" using kept_layout [OF layout_leave(1) _ k] by simp
  qed
  show "keeps (tag, partial (join fuel))"
  proof (rule keepsI)
    fix D con pkt s s'
    assume k: "kept D s" and r: "registered con s \<or> tag \<in> open_tags" and "partial (join fuel) con tag pkt s = Some s'"
    then have run: "join fuel con tag (cstring pkt) s = Some s'" by (simp add: partial_def)
    have w: "wf s" using k by (simp add: kept_def)
    have "wf s'" using wf_join [OF w _ run] r assms by simp
    then show "kept D s'" by (rule kept_layout [OF layout_join [OF w run] _ k])
  qed
qed

text \<open>No connection comes or goes in a login.\<close>

lemma dom_upd_conn [simp]: "dom (s_conns (upd_conn d f s)) = dom (s_conns s)"
  by (auto simp: upd_conn_def domIff)

lemma dom_shape: "same_shape t s \<Longrightarrow> dom (s_conns t) = dom (s_conns s)"
  using layout_shape [of t s] classes_dom [of t s] by (simp add: layout_def)

definition same_conns :: "srv \<Rightarrow> srv \<Rightarrow> bool" where
  "same_conns t s \<longleftrightarrow> dom (s_conns t) = dom (s_conns s) \<and> roll t = roll s"

lemma same_conns_roll: "same_conns t s \<Longrightarrow> enrolled s \<Longrightarrow> enrolled t \<and> dom (s_conns t) = dom (s_conns s)"
  using enrolled_same [of s t] by (simp add: same_conns_def)

lemma shape_same_conns: "same_shape t s \<Longrightarrow> same_conns t s"
  using dom_shape [of t s] by (simp add: same_conns_def same_shape_def)

lemma same_conns_trans: "same_conns t s \<Longrightarrow> same_conns s r \<Longrightarrow> same_conns t r"
  by (simp add: same_conns_def)

lemma same_conns_shape: "same_shape t s \<Longrightarrow> same_conns t r = same_conns s r"
  using shape_same_conns [of t s] by (auto simp: same_conns_def)

lemma same_conns_upd [simp]: "same_conns (upd_conn d f s) r = same_conns s r"
proof -
  have "roll (upd_conn d f s) = roll s" by simp
  then show ?thesis by (simp only: same_conns_def dom_upd_conn)
qed

lemma same_conns_users_remove [simp]: "same_conns (users_remove n s) r = same_conns s r"
  using same_hots_users_remove [of n s] by (simp add: same_conns_def same_hots_def)

lemma same_conns_remove_user [simp]: "same_conns (remove_user c s) r = same_conns s r"
proof -
  have "same_conns (free_files c (fold (stop_waiting c) hs t)) r = same_conns t r" for hs t by (simp add: same_conns_def)
  then show ?thesis by (simp add: remove_user_def Let_def)
qed

lemma same_conns_drop_user:
  assumes "same_shape p s" "\<And>r. same_shape (g r) r"
  shows "same_conns (drop_user u reason g p) s"
proof -
  have o: "same_conns (send_cmd d t m r) s = same_conns r s" for d t m r by (rule same_conns_shape) simp
  show ?thesis
    using same_conns_shape [OF assms(2)] shape_same_conns [OF assms(1)]
    by (simp add: drop_user_def zap_local_user_def Let_def o)
qed

lemma conns_collision: "login_collision con av s = (True, t) \<Longrightarrow> same_conns t s"
  by (auto simp: login_collision_def Let_def kill_client_def intro!: same_conns_drop_user split: option.splits if_splits)
    (simp add: same_conns_def)

lemma conns_login:
  assumes "con \<in> dom (s_conns s)" "login new con tag pkt s = Some t"
  shows "same_conns t s"
  using assms(2)
proof (cases rule: login_cases)
  case 1
  then show ?thesis by (rule shape_same_conns)
next
  case 2
  show ?thesis
  proof (rule login_user_enters [OF 2(2,3)])
    fix p q q' U
    assume "same_shape p s" "login_collision con (get_args 10 (Some pkt)) p = (True, q)" "same_core q' q"
      and t: "same_shape t (entered new U (if ISUNKNOWN con q' then seat con new q' else q'))"
    then have q: "same_conns q' s"
      using shape_same_conns same_shape_core conns_collision same_conns_trans by meson
    then have "same_conns (entered new U (if ISUNKNOWN con q' then seat con new q' else q')) s"
      using assms(1) by (auto simp: entered_def seat_def same_conns_def)
    then show ?thesis using shape_same_conns [OF t] same_conns_trans by blast
  qed
qed

lemma conns_link_server: "con \<in> dom (s_conns s) \<Longrightarrow> link_server con s = Some t \<Longrightarrow> same_conns t s"
  by (auto simp: same_conns_def link_server_def Let_def only_output_def dest!: synch_only_output split: if_splits)

lemma enrolled_server_connect:
  assumes e: "fresh_env e" and s: "enrolled s" and run: "server_connect e con tag pkt s = Some t"
  shows "enrolled t \<and> dom (s_conns s) \<subseteq> dom (s_conns t)"
  using run
proof (cases rule: server_connect_cases)
  case 1
  then show ?thesis using same_conns_roll [OF shape_same_conns s] by blast
next
  case (2 host port lv m r)
  have r: "enrolled r" "dom (s_conns r) = dom (s_conns s)" using same_conns_roll [OF shape_same_conns [OF 2(1)] s] by simp_all
  let ?t = "snd (make_nonce r)"
  have n: "enrolled ?t" "s_conns ?t = s_conns r" using enrolled_same [OF r(1), of ?t] by (simp_all add: make_nonce_def)
  have f: "e_new_con e ?t \<notin> dom (s_conns ?t)"
    using e n(1) unfolding fresh_env_def by (metis List.finite_set enrolled_def)
  have "enrolled (try_connect e host port r) \<and> dom (s_conns r) \<subseteq> dom (s_conns (try_connect e host port r))"
    using enrolled_add [OF n(1) f] n(2) r(1)
    by (auto simp: try_connect_def case_prod_beta add_client_def split: option.split)
  moreover have "enrolled (notify_mods lv m q) = enrolled q" for q by (simp add: enrolled_def clients_def)
  ultimately show ?thesis using r(2) 2(2) by simp
qed

lemma keeps_login:
  assumes e: "fresh_env e"
  shows "keeps (tag, partial (\<lambda>con tag pkt s. login (e_new_user e s) con tag pkt s))"
    "keeps (tag, partial server_login_ack)" "keeps (tag, partial (server_connect e))"
proof -
  have dom: "finite (dom (s_users s))" if "wf s" for s
    using table_ok_values [OF user_table [OF that]] by (metis List.finite_set)
  show "keeps (tag, partial (\<lambda>con tag pkt s. login (e_new_user e s) con tag pkt s))"
  proof (rule keepsI)
    fix D con pkt s s'
    assume k: "kept D s" and c: "con \<in> dom (s_conns s)"
      and "partial (\<lambda>con tag pkt s. login (e_new_user e s) con tag pkt s) con tag pkt s = Some s'"
    then have run: "login (e_new_user e s) con tag (cstring pkt) s = Some s'" by (simp add: partial_def)
    have w: "wf s" "seated s" using k by (simp_all add: kept_def)
    have new: "e_new_user e s \<notin> dom (s_users s)" using e dom [OF w(1)] by (simp add: fresh_env_def)
    show "kept D s'" using wf_login [OF w new c run] same_conns_roll [OF conns_login [OF c run]] k by (simp add: kept_def)
  qed
  show "keeps (tag, partial server_login_ack)"
  proof (rule keepsI)
    fix D con pkt s s'
    assume k: "kept D s" and c: "con \<in> dom (s_conns s)" and "partial server_login_ack con tag pkt s = Some s'"
    then have run: "server_login_ack con tag (cstring pkt) s = Some s'" by (simp add: partial_def)
    have "same_shape s' s \<or> link_server con s = Some s'"
      using run by (auto simp: server_login_ack_def split: option.splits if_splits)
    then have "same_conns s' s" using shape_same_conns conns_link_server [OF c] by blast
    then show "kept D s'" using wf_server_login_ack [OF _ _ c run] same_conns_roll k by (simp add: kept_def)
  qed
  show "keeps (tag, partial (server_connect e))"
  proof (rule keepsI)
    fix D con pkt s s'
    assume k: "kept D s" and "partial (server_connect e) con tag pkt s = Some s'"
    then have run: "server_connect e con tag (cstring pkt) s = Some s'" by (simp add: partial_def)
    have "wf s'" "seated s'" using wf_server_connect [OF _ _ e kept_finite [OF k] run] k by (simp_all add: kept_def)
    moreover have "enrolled s'" "dom (s_conns s) \<subseteq> dom (s_conns s')"
      using enrolled_server_connect [OF e _ run] k by (simp_all add: kept_def)
    moreover have "D \<subseteq> dom (s_conns s)" using k by (simp add: kept_def)
    ultimately show "kept D s'" unfolding kept_def by (metis subset_trans)
  qed
qed

text \<open>Handlers that only send and assign.\<close>

lemmas keeps_shape =
  shape_servers(1-4) [THEN shape_total] shape_servers(5) [THEN shape_partial]
  shape_login_commands(1-4) [THEN shape_total] shape_login_commands(5-6) [THEN shape_partial]
  shape_search_answers [THEN shape_total] shape_server_login [THEN shape_total]
  shape_change(1-2) [THEN shape_partial] shape_change(3-6) [THEN shape_total]
  shape_change(7) [THEN shape_partial] shape_change(8-10) [THEN shape_total]
  shape_queries(1-2) [THEN shape_total] shape_queries(3-4) [THEN shape_partial]
  shape_queries(5-6) [THEN shape_total] shape_queries(7-8) [THEN shape_partial]
  shape_queries(9-13) [THEN shape_total] shape_queries(14) [THEN shape_partial]
  shape_transfers [THEN shape_total] shape_add_file [THEN shape_total] shape_share_file [THEN shape_total]
  shape_user_sharing [THEN shape_total] shape_add_directory [THEN shape_total]
  shape_remove_file [THEN shape_total] shape_search [THEN shape_total] shape_browse [THEN shape_total]
  shape_browse_new [THEN shape_partial] shape_transfer_setup [THEN shape_total]
  shape_config(1) [THEN shape_partial] shape_config(2) [THEN shape_total] shape_rehash [THEN shape_partial]

lemmas keeps_core =
  same_core_ban [THEN core_total] same_core_unban [THEN core_total] same_core_banlist [THEN core_total]
  same_core_public [THEN core_partial] same_core_emote [THEN core_partial] same_core_lists [THEN core_total]

section \<open>The dispatcher\<close>

lemma keeps_privmsg:
  assumes "\<And>D. commands d (kept D) (kept D)" "tag \<notin> open_tags"
  shows "keeps (tag, partial (privmsg d))"
proof (rule keepsI)
  fix D con pkt s s'
  assume "kept D s" "registered con s \<or> tag \<in> open_tags" "partial (privmsg d) con tag pkt s = Some s'"
  then show "kept D s'" using commands.privmsg_keeps [OF assms(1), of con tag "cstring pkt" s s'] assms(2)
    by (simp add: partial_def)
qed

lemma Protocol_keeps:
  assumes e: "fresh_env e" and d: "\<And>D. commands d (kept D) (kept D)"
  shows "list_all keeps (Protocol e d)"
proof -
  have enc: "keeps (tag, \<lambda>con tag pkt s. Some (encapsulated con tag pkt s))" for tag
    by (rule keepsI) (metis option.inject kept_shape shape_encapsulated)
  have closed: "400 \<notin> open_tags" "401 \<notin> open_tags" "205 \<notin> open_tags" by (simp_all add: open_tags_def)
  show ?thesis
    unfolding Protocol_def list.pred_inject
    by (simp only: list.pred_inject enc keeps_login [OF e] keeps_stays keeps_layout keeps_layout_accounts
        keeps_channel_level keeps_joins [OF closed(1)] keeps_joins [OF closed(2)] keeps_privmsg [OF d closed(3)]
        keeps_shape keeps_core simp_thms)
qed

lemma dispatch_cases:
  assumes "dispatch_with e d con tag pkt s = Some s'"
  obtains "same_core s' s"
  | h where "(tag, h) \<in> set (Protocol e d)" "h con tag pkt s = Some s'"
proof (cases rule: find_handler_cases [of e d tag s])
  case (found i)
  have "(tag, snd (Protocol e d ! i)) \<in> set (Protocol e d)" using found(2,3) by (metis nth_mem prod.collapse)
  moreover have "snd (Protocol e d ! i) con tag pkt s = Some s'"
    using assms found(1) by (simp add: dispatch_with_def Let_def)
  ultimately show thesis by (rule that(2))
next
  case missing
  then have "s' = send_cmd con MSG_SERVER_NOSUCH (''Unknown command code '' @ nat_dec tag) s"
    using assms by (simp add: dispatch_with_def Let_def)
  then show thesis using that(1) by simp
qed

lemma dispatch_with_keeps:
  assumes "fresh_env e" "\<And>D. commands d (kept D) (kept D)" "kept D s" "con \<in> dom (s_conns s)" "registered con s \<or> tag \<in> open_tags"
    "dispatch_with e d con tag pkt s = Some s'"
  shows "kept D s'"
  using assms(6)
proof (cases rule: dispatch_cases)
  case 1
  then show ?thesis using kept_core assms(3) by blast
next
  case (2 h)
  have "keeps (tag, h)" using Protocol_keeps [OF assms(1,2)] 2(1) by (auto simp: list_all_iff)
  then show ?thesis using assms(3-5) 2(2) unfolding keeps_def fst_conv snd_conv by blast
qed

text \<open>What the services forward is executed by the dispatcher itself.\<close>

lemma privmsg_cong:
  assumes "\<And>tag p. tag \<in> service_commands \<Longrightarrow> d con tag p s = d' con tag p s"
  shows "privmsg d con tag pkt s = privmsg d' con tag pkt s"
  using assms service_tag_command
  by (auto simp: privmsg_def operserv_def chanserv_def Let_def split: prod.split option.split)

lemma Protocol_others:
  "filter (\<lambda>p. fst p \<noteq> MSG_CLIENT_PRIVMSG) (Protocol e d) = filter (\<lambda>p. fst p \<noteq> MSG_CLIENT_PRIVMSG) (Protocol e d')"
  by (simp add: Protocol_def)

lemma Protocol_distinct: "distinct (map fst (Protocol e d))"
  using Protocol_sorted strict_sorted_iff by blast

lemma Protocol_at:
  assumes "i < length (Protocol e d)" "fst (Protocol e d ! i) = tag" "(tag, h) \<in> set (Protocol e d)"
  shows "snd (Protocol e d ! i) = h"
proof (rule eq_key_imp_eq_value [OF Protocol_distinct])
  show "(tag, snd (Protocol e d ! i)) \<in> set (Protocol e d)" using assms(1,2) by (metis nth_mem prod.collapse)
qed (rule assms(3))

text \<open>The dispatcher does the same with two tables that have the same handler at this number.\<close>

lemma dispatch_with_same:
  assumes "\<And>h. (tag, h) \<in> set (Protocol e d) \<Longrightarrow> \<exists>h'. (tag, h') \<in> set (Protocol e d') \<and> h con tag pkt s = h' con tag pkt s"
  shows "dispatch_with e d con tag pkt s = dispatch_with e d' con tag pkt s"
proof (cases rule: find_handler_cases [of e d tag s])
  case (found i)
  let ?h = "snd (Protocol e d ! i)"
  have "(tag, ?h) \<in> set (Protocol e d)" using found(2,3) by (metis nth_mem prod.collapse)
  then obtain h' where h': "(tag, h') \<in> set (Protocol e d')" "?h con tag pkt s = h' con tag pkt s" using assms by blast
  have "i < length (Protocol e d')" "fst (Protocol e d' ! i) = tag"
    using found(2,3) Protocol_tags [of e d e d'] by (metis nth_map length_map)+
  then have "snd (Protocol e d' ! i) = h'" by (rule Protocol_at [OF _ _ h'(1)])
  then show ?thesis
    using h'(2) found(1) Protocol_tags [of e d e d'] by (simp add: dispatch_with_def Let_def)
next
  case missing
  then show ?thesis using Protocol_tags [of e d e d'] by (simp add: dispatch_with_def Let_def)
qed

lemma dispatch_with_cong:
  assumes "tag \<noteq> MSG_CLIENT_PRIVMSG"
  shows "dispatch_with e d con tag pkt s = dispatch_with e d' con tag pkt s"
proof (rule dispatch_with_same)
  fix h assume "(tag, h) \<in> set (Protocol e d)"
  then have "(tag, h) \<in> set (filter (\<lambda>p. fst p \<noteq> MSG_CLIENT_PRIVMSG) (Protocol e d))" using assms by simp
  then have "(tag, h) \<in> set (Protocol e d')" by (subst (asm) Protocol_others [of e d d']) simp
  then show "\<exists>h'. (tag, h') \<in> set (Protocol e d') \<and> h con tag pkt s = h' con tag pkt s" by blast
qed

lemma Protocol_privmsg: "(MSG_CLIENT_PRIVMSG, partial (privmsg d)) \<in> set (Protocol e d)"
  by (simp add: Protocol_def)

lemma service_commands_others: "MSG_CLIENT_PRIVMSG \<notin> service_commands"
  by (simp add: service_commands_def operserv_tags_def chanserv_tags_def)

lemma dispatch_command_service:
  "tag \<noteq> MSG_CLIENT_PRIVMSG \<Longrightarrow> dispatch_with e refuses con tag pkt s = dispatch_command e con tag pkt s"
  unfolding dispatch_command_def by (rule dispatch_with_cong)

theorem dispatch_command_rec: "dispatch_command e con tag pkt s = dispatch_with e (dispatch_command e) con tag pkt s"
proof (cases "tag = MSG_CLIENT_PRIVMSG")
  case False
  then show ?thesis unfolding dispatch_command_def by (rule dispatch_with_cong)
next
  case True
  have P: "partial (privmsg (dispatch_with e refuses)) con tag pkt s = partial (privmsg (dispatch_command e)) con tag pkt s"
    unfolding partial_def using service_commands_others
    by (intro privmsg_cong dispatch_command_service) auto
  have "dispatch_with e (dispatch_with e refuses) con tag pkt s = dispatch_with e (dispatch_command e) con tag pkt s"
  proof (rule dispatch_with_same)
    fix h assume "(tag, h) \<in> set (Protocol e (dispatch_with e refuses))"
    then have "h = partial (privmsg (dispatch_with e refuses))"
      using eq_key_imp_eq_value [OF Protocol_distinct] Protocol_privmsg True by metis
    then show "\<exists>h'. (tag, h') \<in> set (Protocol e (dispatch_command e)) \<and> h con tag pkt s = h' con tag pkt s"
      using P Protocol_privmsg True by metis
  qed
  then show ?thesis by (subst dispatch_command_def)
qed

lemma commands_level:
  assumes "fresh_env e" "\<And>D. commands d (kept D) (kept D)"
  shows "commands (dispatch_with e d) (kept D) (kept D)"
proof
  show "kept D s'" if "kept D s" "registered con s" "dispatch_with e d con tag pkt s = Some s'" for tag s con pkt s'
    using dispatch_with_keeps [OF assms that(1) _ _ that(3)] that(2) unfolding registered_def by blast
qed (rule kept_core)

lemma commands_refuses: "commands refuses (kept D) (kept D)"
  by unfold_locales (auto simp: refuses_def intro: kept_core)

lemma dispatch_keeps:
  assumes "fresh_env e" "kept D s" "con \<in> dom (s_conns s)" "registered con s \<or> tag \<in> open_tags"
    "dispatch_command e con tag pkt s = Some s'"
  shows "kept D s'"
  using dispatch_with_keeps [OF assms(1) commands_level [OF assms(1) commands_refuses] assms(2-4)] assms(5)
  by (simp add: dispatch_command_def)

text \<open>The dispatcher is what \<open>privmsg\<close> calls for the services.\<close>

interpretation service: commands "dispatch_command e" "\<lambda>s. fresh_env e \<and> kept D s" "kept D"
proof
  show "kept D s'" if "fresh_env e \<and> kept D s" "registered con s" "dispatch_command e con tag pkt s = Some s'" for tag s con pkt s'
    using dispatch_keeps that by (meson registered_def)
  show "kept D s'" if "fresh_env e \<and> kept D s" "same_core s' s" for s s'
    using that kept_core by blast
qed

end
