(* ===== verification/Reading.thy ===== *)
theory Reading
  imports Commands "HOL-Library.Signed_Division"
begin

text \<open>
  The input of a connection (\<open>handle_connection\<close> of \<open>src/handler.c\<close>): reading from the socket, cutting the input
  into packets, and what is done with a packet before it is dispatched.
\<close>

section \<open>The socket\<close>

text \<open>
  What a socket has to offer to \<open>read\<close>: the bytes that have arrived, and what \<open>read\<close> returns after them.  The
  count of the bytes received, which only feeds the statistics, is left out.
\<close>

datatype pending = Would_Block | End_Of_File | Failed

record sock =
  sk_bytes :: string
  sk_end :: pending

definition sock_read :: "nat \<Rightarrow> sock \<Rightarrow> (string + pending) \<times> sock" where
  "sock_read n sk =
     (if sk_bytes sk = [] then (Inr (sk_end sk), sk)
      else (Inl (take n (sk_bytes sk)), sk\<lparr>sk_bytes := drop n (sk_bytes sk)\<rparr>))"

text \<open>The connection goes on with what it has read, or waits for more, or is lost.\<close>

datatype reading = Ready | Pause | Lost

definition stopped :: "pending \<Rightarrow> reading" where
  "stopped p = (if p = Would_Block then Pause else Lost)"

function read_header :: "string \<Rightarrow> sock \<Rightarrow> reading \<times> string \<times> sock" where
  "read_header buf sk =
     (if 4 \<le> length buf then (Ready, buf, sk)
      else case sock_read (4 - length buf) sk of
        (Inr p, sk) \<Rightarrow> (stopped p, buf, sk)
      | (Inl d, sk) \<Rightarrow> read_header (buf @ d) sk)"
  by pat_completeness auto
termination
  by (relation "measure (\<lambda>(buf, sk). 4 - length buf)") (auto simp: sock_read_def neq_Nil_conv min_def split: if_splits)

declare read_header.simps [simp del]

definition read_client :: "int \<Rightarrow> string \<Rightarrow> sock \<Rightarrow> reading \<times> string \<times> sock" where
  "read_client limit buf sk =
     (case read_header buf sk of
        (Ready, buf, sk) \<Rightarrow>
          let len = get_val (buf ! 0) (buf ! 1) in
          if len = 0 then (Ready, buf, sk)
          else if limit < int len then (Lost, buf, sk)
          else (case sock_read (len + 4 - length buf) sk of
                  (Inr p, sk) \<Rightarrow> (stopped p, buf, sk)
                | (Inl d, sk) \<Rightarrow> (Ready, buf @ d, sk))
      | r \<Rightarrow> r)"

text \<open>The bytes of another server are inflated; \<open>inflate\<close> is what \<open>buffer_decompress\<close> makes of them.\<close>

definition read_server :: "(string \<Rightarrow> string option) \<Rightarrow> string \<Rightarrow> sock \<Rightarrow> reading \<times> string \<times> sock" where
  "read_server inflate buf sk =
     (case sock_read 2048 sk of
        (Inr p, sk) \<Rightarrow> (Lost, buf, sk)
      | (Inl d, sk) \<Rightarrow> (case inflate d of None \<Rightarrow> (Lost, buf, sk) | Some p \<Rightarrow> (Ready, buf @ p, sk)))"

section \<open>Packets\<close>

definition split_packet :: "string \<Rightarrow> (nat \<times> string \<times> string) option" where
  "split_packet buf =
     (if length buf < 4 then None
      else let len = get_val (buf ! 0) (buf ! 1) in
        if length buf < 4 + len then None
        else Some (get_val (buf ! 2) (buf ! 3), take len (drop 4 buf), drop (4 + len) buf))"

definition flood_check :: "cid \<Rightarrow> nat \<Rightarrow> srv \<Rightarrow> srv" where
  "flood_check con tag s =
     (if ISUSER con s \<and> 0 < Flood_Commands (s_cfg s) \<and> tag \<notin> {MSG_CLIENT_ADD_FILE, MSG_CLIENT_SHARE_FILE, MSG_CLIENT_REMOVE_FILE}
      then
        let s = upd_conn con (\<lambda>C. C\<lparr>c_flood := max (c_flood C) (s_time s) + Flood_Time (s_cfg s) sdiv Flood_Commands (s_cfg s)\<rparr>) s;
            nick = u_nick (usr s (c_user (cnx s con)))
        in if s_time s + Flood_Time (s_cfg s) \<le> c_flood (cnx s con) \<and> m_LastFlooder (s_misc s) \<noteq> nick
           then let s = notify_mods FLOODLOG_MODE
                      (''Flooding from '' @ nick @ ''!'' @ c_host (cnx s con) @ '' (numeric = '' @ nat_dec tag @ '')'') s
                in s\<lparr>s_misc := (s_misc s)\<lparr>m_LastFlooder := take 63 nick\<rparr>\<rparr>
           else s
      else s)"

text \<open>The end of a sequence of added or removed files is told to the other servers.\<close>

definition end_of_sharing :: "cid \<Rightarrow> nat \<Rightarrow> srv \<Rightarrow> srv" where
  "end_of_sharing con tag s =
     (if s_Servers s \<noteq> [] \<and> ISUSER con s then
        let u = c_user (cnx s con); U = usr s u;
            tell = pass_message_args (Some con) MSG_SERVER_USER_SHARING
                     (u_nick U @ '' '' @ nat_dec (u_shared U) @ '' '' @ int_dec (u_libsize U)) s
        in if u_sharing U then
             (if tag \<notin> {MSG_CLIENT_ADD_FILE, MSG_CLIENT_SHARE_FILE, MSG_CLIENT_ADD_DIRECTORY}
              then upd_user u (\<lambda>V. V\<lparr>u_sharing := False\<rparr>) tell else s)
           else if u_unsharing U then
             (if tag \<noteq> MSG_CLIENT_REMOVE_FILE then upd_user u (\<lambda>V. V\<lparr>u_unsharing := False\<rparr>) tell else s)
           else s
      else s)"

definition take_packet :: "env \<Rightarrow> cid \<Rightarrow> nat \<Rightarrow> string \<Rightarrow> srv \<Rightarrow> srv option" where
  "take_packet e con tag pkt s = dispatch_command e con tag pkt (end_of_sharing con tag (flood_check con tag s))"

text \<open>
  The loop over the complete packets in the buffer: whether it was stopped by a command before the login, what
  is left in the buffer, and the state.
\<close>

function packets :: "env \<Rightarrow> cid \<Rightarrow> string \<Rightarrow> srv \<Rightarrow> (bool \<times> string \<times> srv) option" where
  "packets e con buf s =
     (case split_packet buf of
        None \<Rightarrow> Some (False, buf, s)
      | Some (tag, pkt, rest) \<Rightarrow>
          if ISUNKNOWN con s \<and> tag \<notin> open_tags
          then Some (True, buf, doom con (send_cmd con MSG_SERVER_ERROR ''invalid command'' s))
          else (case take_packet e con tag pkt s of None \<Rightarrow> None | Some s \<Rightarrow> packets e con rest s))"
  by pat_completeness auto
termination
  by (relation "measure (\<lambda>(e, con, buf, s). length buf)") (auto simp: split_packet_def Let_def split: if_splits)

declare packets.simps [simp del]

definition handle_connection :: "env \<Rightarrow> (string \<Rightarrow> string option) \<Rightarrow> cid \<Rightarrow> sock \<Rightarrow> srv \<Rightarrow> (sock \<times> srv) option" where
  "handle_connection e inflate con sk s =
     (let buf = c_recvbuf (cnx s con);
          (r, buf, sk) = (if ISSERVER con s then read_server inflate buf sk
                          else read_client (Max_Command_Length (s_cfg s)) buf sk);
          s = upd_conn con (\<lambda>C. C\<lparr>c_recvbuf := buf\<rparr>) s
      in case r of
           Pause \<Rightarrow> Some (sk, s)
         | Lost \<Rightarrow> Some (sk, doom con s)
         | Ready \<Rightarrow>
             (case packets e con buf s of
                None \<Rightarrow> None
              | Some (stop, buf, s) \<Rightarrow> Some (sk, upd_conn con (\<lambda>C. C\<lparr>c_recvbuf := buf\<rparr>) s)))"

section \<open>The framing\<close>

lemma split_packet_append: "split_packet a = Some (tag, pkt, rest) \<Longrightarrow> split_packet (a @ b) = Some (tag, pkt, rest @ b)"
  by (auto simp: split_packet_def Let_def nth_append split: if_splits)

lemma split_packet_frame:
  assumes "tag < 65536" "length pkt < 65536"
  shows "split_packet (frame_bytes tag pkt @ rest) = Some (tag, pkt, rest)"
proof -
  have v: "get_val (set_val v ! 0) (set_val v ! 1) = v" if "v < 65536" for v
    by (rule get_set_val [OF that]) (simp add: set_val_def)
  have l: "length (set_val v) = 2" for v by (simp add: set_val_def)
  have "frame_bytes tag pkt = set_val (length pkt) @ set_val tag @ pkt" using assms by (simp add: frame_bytes_def raw_tag_def)
  then show ?thesis
    using v [OF assms(1)] v [OF assms(2)] by (simp add: split_packet_def Let_def nth_append l)
qed

lemma split_packet_length: "split_packet buf = Some (tag, pkt, rest) \<Longrightarrow> length rest < length buf"
  by (auto simp: split_packet_def Let_def split: if_splits)

lemma packets_done: "split_packet buf = None \<Longrightarrow> packets e con buf s = Some (False, buf, s)"
  by (subst packets.simps) simp

lemma packets_stop:
  "split_packet buf = Some (tag, pkt, rest) \<Longrightarrow> ISUNKNOWN con s \<Longrightarrow> tag \<notin> open_tags \<Longrightarrow>
   packets e con buf s = Some (True, buf, doom con (send_cmd con MSG_SERVER_ERROR ''invalid command'' s))"
  by (subst packets.simps) simp

lemma packets_step:
  "split_packet buf = Some (tag, pkt, rest) \<Longrightarrow> \<not> (ISUNKNOWN con s \<and> tag \<notin> open_tags) \<Longrightarrow>
   packets e con buf s = (case take_packet e con tag pkt s of None \<Rightarrow> None | Some t \<Rightarrow> packets e con rest t)"
  by (subst packets.simps) (auto split: option.split)

text \<open>It makes no difference in which pieces the input arrives.\<close>

lemma packets_append:
  "packets e con (a @ b) s =
     (case packets e con a s of
        None \<Rightarrow> None
      | Some (stop, rest, t) \<Rightarrow> if stop then Some (True, rest @ b, t) else packets e con (rest @ b) t)"
proof (induction e con a s rule: packets.induct)
  case (1 e con a s)
  show ?case
  proof (cases "split_packet a")
    case None
    then show ?thesis by (simp add: packets_done)
  next
    case (Some p)
    obtain tag pkt rest where p: "p = (tag, pkt, rest)" by (cases p) auto
    note A = Some [unfolded p] and B = split_packet_append [OF Some [unfolded p], of b]
    show ?thesis
    proof (cases "ISUNKNOWN con s \<and> tag \<notin> open_tags")
      case True
      then show ?thesis by (simp add: packets_stop [OF A] packets_stop [OF B])
    next
      case False
      then show ?thesis
        using 1 [OF A refl refl False]
        by (simp add: packets_step [OF A False] packets_step [OF B False] split: option.split)
    qed
  qed
qed

text \<open>The packets of a list, one after the other, until a command that may not come before the login.\<close>

fun serve :: "env \<Rightarrow> cid \<Rightarrow> (nat \<times> string) list \<Rightarrow> srv \<Rightarrow> (bool \<times> (nat \<times> string) list \<times> srv) option" where
  "serve e con [] s = Some (False, [], s)"
| "serve e con ((tag, pkt) # ps) s =
     (if ISUNKNOWN con s \<and> tag \<notin> open_tags
      then Some (True, (tag, pkt) # ps, doom con (send_cmd con MSG_SERVER_ERROR ''invalid command'' s))
      else (case take_packet e con tag pkt s of None \<Rightarrow> None | Some t \<Rightarrow> serve e con ps t))"

definition frames :: "(nat \<times> string) list \<Rightarrow> string" where
  "frames ps = concat (map (\<lambda>(tag, pkt). frame_bytes tag pkt) ps)"

definition sendable :: "nat \<times> string \<Rightarrow> bool" where
  "sendable p \<longleftrightarrow> fst p < 65536 \<and> length (snd p) < 65536"

lemma packets_serve:
  assumes "list_all sendable ps" "split_packet tail = None"
  shows "packets e con (frames ps @ tail) s =
    map_option (\<lambda>(stop, qs, t). (stop, frames qs @ tail, t)) (serve e con ps s)"
  using assms(1)
proof (induction ps arbitrary: s)
  case Nil
  then show ?case using assms(2) by (simp add: frames_def packets_done)
next
  case (Cons p ps)
  obtain tag pkt where p: "p = (tag, pkt)" by (cases p) auto
  have F: "frames (p # ps) @ tail = frame_bytes tag pkt @ (frames ps @ tail)" by (simp add: frames_def p)
  have S: "split_packet (frames (p # ps) @ tail) = Some (tag, pkt, frames ps @ tail)"
    unfolding F by (rule split_packet_frame) (use Cons.prems p in \<open>simp_all add: sendable_def\<close>)
  show ?case
  proof (cases "ISUNKNOWN con s \<and> tag \<notin> open_tags")
    case True
    then show ?thesis using packets_stop [OF S [unfolded p]] by (simp add: p)
  next
    case False
    have "packets e con (frames ps @ tail) t = map_option (\<lambda>(stop, qs, t). (stop, frames qs @ tail, t)) (serve e con ps t)" for t
      using Cons by simp
    then show ?thesis using False by (simp add: packets_step [OF S [unfolded p] False] p)
      (auto split: option.split)
  qed
qed

section \<open>A client's stream\<close>

text \<open>What is buffered for a client is a part of one packet.\<close>

definition within :: "string \<Rightarrow> bool" where
  "within buf \<longleftrightarrow> length buf \<le> 4 \<or> length buf \<le> 4 + get_val (buf ! 0) (buf ! 1)"

lemma sock_read_stream:
  "sock_read n sk = (Inl d, sk') \<Longrightarrow> d @ sk_bytes sk' = sk_bytes sk \<and> length d \<le> n \<and> d = take n (sk_bytes sk)"
  "sock_read n sk = (Inr p, sk') \<Longrightarrow> sk' = sk \<and> sk_bytes sk = []"
  by (auto simp: sock_read_def split: if_splits)

lemma read_header_stream:
  "read_header buf sk = (r, buf', sk') \<Longrightarrow> length buf \<le> 4 \<Longrightarrow>
   buf' @ sk_bytes sk' = buf @ sk_bytes sk \<and> length buf' \<le> 4 \<and> (r = Ready \<longrightarrow> length buf' = 4) \<and>
   (r \<noteq> Ready \<longrightarrow> sk_bytes sk' = [])"
proof (induction buf sk rule: read_header.induct)
  case (1 buf sk)
  show ?case
  proof (cases "4 \<le> length buf")
    case True
    then show ?thesis using 1 by (auto simp: read_header.simps [of buf sk])
  next
    case False
    obtain g k where g: "sock_read (4 - length buf) sk = (g, k)" by fastforce
    show ?thesis
    proof (cases g)
      case (Inr p)
      then show ?thesis
        using 1(2,3) False g sock_read_stream(2) [of "4 - length buf" sk p k]
        by (auto simp: read_header.simps [of buf sk] stopped_def split: if_splits)
    next
      case (Inl d)
      then show ?thesis
        using 1(2,3) False g sock_read_stream(1) [of "4 - length buf" sk d k] 1(1) [OF False g [symmetric] Inl]
        by (auto simp: read_header.simps [of buf sk])
    qed
  qed
qed

lemma read_header_long: "4 \<le> length buf \<Longrightarrow> read_header buf sk = (Ready, buf, sk)"
  by (simp add: read_header.simps)

lemma read_header_within:
  assumes "read_header buf sk = (r, buf', sk')" "within buf"
  shows "buf' @ sk_bytes sk' = buf @ sk_bytes sk \<and> within buf' \<and> (r = Ready \<longrightarrow> 4 \<le> length buf') \<and>
    (r \<noteq> Ready \<longrightarrow> sk_bytes sk' = [])"
proof (cases "length buf \<le> 4")
  case True
  then show ?thesis using read_header_stream [OF assms(1)] by (auto simp: within_def)
next
  case False
  then show ?thesis using assms by (simp add: read_header_long)
qed

text \<open>Reading loses no byte, and reads no further than to the end of the packet.\<close>

lemma read_client_stream:
  assumes "read_client limit buf sk = (r, buf', sk')" "within buf"
  shows "buf' @ sk_bytes sk' = buf @ sk_bytes sk \<and> within buf'"
proof -
  obtain r1 b1 k1 where h: "read_header buf sk = (r1, b1, k1)" by (cases "read_header buf sk") auto
  note H = read_header_within [OF h assms(2)]
  show ?thesis
  proof (cases "r1 = Ready")
    case False
    then show ?thesis using assms(1) h H by (cases r1) (auto simp: read_client_def)
  next
    case True
    let ?len = "get_val (b1 ! 0) (b1 ! 1)"
    obtain g k2 where g: "sock_read (?len + 4 - length b1) k1 = (g, k2)" by fastforce
    show ?thesis
    proof (cases g)
      case (Inr p)
      then show ?thesis
        using assms(1) True h H g sock_read_stream(2) [of "?len + 4 - length b1" k1 p k2]
        by (auto simp: read_client_def Let_def split: if_splits)
    next
      case (Inl d)
      then have "within (b1 @ d)"
        using H True g sock_read_stream(1) [of "?len + 4 - length b1" k1 d k2]
        by (auto simp: within_def nth_append)
      then show ?thesis
        using assms(1) True h H g Inl sock_read_stream(1) [of "?len + 4 - length b1" k1 d k2]
        by (auto simp: read_client_def Let_def split: if_splits)
    qed
  qed
qed

lemma within_one:
  assumes "within buf" "split_packet buf = Some (tag, pkt, rest)"
  shows "rest = []"
  using assms by (auto simp: within_def split_packet_def Let_def split: if_splits)

lemma split_packet_bytes:
  assumes "split_packet buf = Some (tag, pkt, rest)"
  shows "buf = frame_bytes tag pkt @ rest \<and> tag < 65536 \<and> length pkt < 65536"
proof -
  let ?len = "get_val (buf ! 0) (buf ! 1)"
  have l: "4 + ?len \<le> length buf" "tag = get_val (buf ! 2) (buf ! 3)" "pkt = take ?len (drop 4 buf)" "rest = drop (4 + ?len) buf"
    using assms by (auto simp: split_packet_def Let_def split: if_splits)
  obtain a b c d r where buf: "buf = a # b # c # d # r"
    using l(1) by (cases buf; cases "tl buf"; cases "tl (tl buf)"; cases "tl (tl (tl buf))") auto
  have "tag < 65536" using get_val_less l(2) by simp
  moreover have d: "drop (4 + k) (a # b # c # d # r) = drop k r" for k
    by (simp add: drop_Suc numeral_Bit0 numeral_One flip: add_Suc_right)
  moreover have "length pkt = ?len" using l(1,3) by simp
  moreover have "set_val tag = [c, d]" "set_val ?len = [a, b]" using l(2) buf by (simp_all add: set_get_val)
  ultimately show ?thesis
    using l(3,4) buf get_val_less d by (simp add: frame_bytes_def raw_tag_def)
qed

text \<open>A packet that has arrived as a whole is read to its end, and no further.\<close>

lemma take_frame: "length b \<le> 4 + length pkt \<Longrightarrow> b @ d = frame_bytes tag pkt @ later \<Longrightarrow> tag < 65536 \<Longrightarrow>
  b @ take (4 + length pkt - length b) d = frame_bytes tag pkt \<and> drop (4 + length pkt - length b) d = later"
proof -
  assume l: "length b \<le> 4 + length pkt" and e: "b @ d = frame_bytes tag pkt @ later" and t: "tag < 65536"
  have n: "length (frame_bytes tag pkt) = 4 + length pkt" using t by (simp add: frame_bytes_def raw_tag_def set_val_def)
  have "take (4 + length pkt) (b @ d) = frame_bytes tag pkt" "drop (4 + length pkt) (b @ d) = later"
    unfolding e using n by simp_all
  then show ?thesis using l by simp
qed

lemma frame_header:
  assumes "b @ d = frame_bytes tag pkt @ later" "4 \<le> length b" "tag < 65536" "length pkt < 65536"
  shows "get_val (b ! 0) (b ! 1) = length pkt"
proof -
  have f: "frame_bytes tag pkt = set_val (length pkt) @ set_val tag @ pkt" using assms(3) by (simp add: frame_bytes_def raw_tag_def)
  have "b ! i = (frame_bytes tag pkt @ later) ! i" if "i < 2" for i
    using assms(2) that by (simp flip: assms(1) add: nth_append)
  then have "b ! 0 = set_val (length pkt) ! 0" "b ! 1 = set_val (length pkt) ! 1"
    by (simp_all add: f set_val_def)
  then show ?thesis using get_set_val [OF assms(4)] by (simp add: set_val_def)
qed

lemma read_header_arrived:
  assumes "4 \<le> length buf + length (sk_bytes sk)"
  shows "read_header buf sk = (Ready, buf @ take (4 - length buf) (sk_bytes sk), sk\<lparr>sk_bytes := drop (4 - length buf) (sk_bytes sk)\<rparr>)"
proof (cases "4 \<le> length buf")
  case True
  then show ?thesis by (simp add: read_header_long)
next
  case False
  then have "sk_bytes sk \<noteq> []" using assms by auto
  then have "read_header buf sk = read_header (buf @ take (4 - length buf) (sk_bytes sk)) (sk\<lparr>sk_bytes := drop (4 - length buf) (sk_bytes sk)\<rparr>)"
    using False by (subst read_header.simps) (simp add: sock_read_def)
  then show ?thesis using assms by (simp add: read_header_long)
qed

lemma read_client_arrived:
  assumes e: "buf @ sk_bytes sk = frame_bytes tag pkt @ later" and w: "within buf" and i: "split_packet buf = None"
    and t: "tag < 65536" "length pkt < 65536" "int (length pkt) \<le> limit"
  shows "read_client limit buf sk = (Ready, frame_bytes tag pkt, sk\<lparr>sk_bytes := later\<rparr>)"
proof -
  have n: "length (frame_bytes tag pkt) = 4 + length pkt" using t by (simp add: frame_bytes_def raw_tag_def set_val_def)
  have len: "4 + length pkt \<le> length buf + length (sk_bytes sk)"
    using n arg_cong [OF e, of length] by simp
  define b1 where "b1 = buf @ take (4 - length buf) (sk_bytes sk)"
  define k1 where "k1 = sk\<lparr>sk_bytes := drop (4 - length buf) (sk_bytes sk)\<rparr>"
  have h: "read_header buf sk = (Ready, b1, k1)" "b1 @ sk_bytes k1 = buf @ sk_bytes sk" "4 \<le> length b1"
    "length b1 = max 4 (length buf)"
    using read_header_arrived [of buf sk] len by (auto simp: b1_def k1_def)
  have k1: "k1\<lparr>sk_bytes := x\<rparr> = sk\<lparr>sk_bytes := x\<rparr>" for x by (simp add: k1_def)
  have v: "get_val (b1 ! 0) (b1 ! 1) = length pkt" by (rule frame_header [OF _ h(3) t(1,2)]) (use e h(2) in simp)
  have b1: "length b1 \<le> 4 + length pkt"
    using w h(4) frame_header [OF e _ t(1,2)] by (cases "4 \<le> length buf") (auto simp: within_def)
  note T = take_frame [OF b1 _ t(1), of "sk_bytes k1" later]
  have T': "b1 @ take (4 + length pkt - length b1) (sk_bytes k1) = frame_bytes tag pkt"
    "drop (4 + length pkt - length b1) (sk_bytes k1) = later" using T e h(2) by simp_all
  show ?thesis
  proof (cases "pkt = []")
    case True
    then have "b1 = frame_bytes tag pkt" "sk_bytes k1 = later" using T' b1 h(3) by simp_all
    then show ?thesis using h(1) v True k1 [of later] by (simp add: read_client_def) (metis sock.surjective sock.update_convs(1))
  next
    case False
    have "length b1 < 4 + length pkt"
    proof (rule ccontr)
      assume "\<not> ?thesis"
      then have l: "length b1 = 4 + length pkt" using b1 by simp
      then have "length buf = 4 + length pkt" using h(4) False by (cases pkt) (auto simp: max_def split: if_splits)
      then show False using i frame_header [OF e _ t(1,2)] by (simp add: split_packet_def Let_def)
    qed
    then have "sk_bytes k1 \<noteq> []" using len h(2) arg_cong [OF h(2), of length] by auto
    then show ?thesis using h(1) v T' t(3) False k1 by (simp add: read_client_def Let_def sock_read_def add.commute)
  qed
qed

text \<open>C37: When all of a client's next packet has arrived, however it was cut on the way, the packet is executed, and the
  bytes behind it are left in the socket for the next time.\<close>

theorem client_packet:
  assumes "\<not> ISSERVER con s" "s_conns s con = Some C" "within (c_recvbuf C)" "split_packet (c_recvbuf C) = None"
    "c_recvbuf C @ sk_bytes sk = frame_bytes tag pkt @ later" "tag < 65536" "length pkt < 65536"
    "int (length pkt) \<le> Max_Command_Length (s_cfg s)" "ISUNKNOWN con s \<longrightarrow> tag \<in> open_tags"
  shows "handle_connection e inflate con sk s =
    map_option (\<lambda>t. (sk\<lparr>sk_bytes := later\<rparr>, upd_conn con (\<lambda>C. C\<lparr>c_recvbuf := []\<rparr>) t))
      (take_packet e con tag pkt (upd_conn con (\<lambda>C. C\<lparr>c_recvbuf := frame_bytes tag pkt\<rparr>) s))"
proof -
  let ?s = "upd_conn con (\<lambda>C. C\<lparr>c_recvbuf := frame_bytes tag pkt\<rparr>) s"
  have r: "read_client (Max_Command_Length (s_cfg s)) (c_recvbuf (cnx s con)) sk = (Ready, frame_bytes tag pkt, sk\<lparr>sk_bytes := later\<rparr>)"
    using read_client_arrived [OF assms(5,3,4,6,7,8)] assms(2) by simp
  have S: "split_packet (frame_bytes tag pkt) = Some (tag, pkt, [])"
    using split_packet_frame [OF assms(6,7), of "[]"] by simp
  have E: "split_packet [] = None" by (simp add: split_packet_def)
  have u: "ISUNKNOWN con ?s = ISUNKNOWN con s" using assms(2) by (simp add: ISUNKNOWN_def)
  have "packets e con (frame_bytes tag pkt) ?s = map_option (\<lambda>t. (False, [], t)) (take_packet e con tag pkt ?s)"
    by (subst packets_step [OF S]) (use assms(9) u in \<open>auto simp: packets_done [OF E] split: option.split\<close>)
  then show ?thesis
    using assms(1) r by (simp add: handle_connection_def Let_def split: option.split)
qed

section \<open>The invariant\<close>

lemma shape_before: "same_shape (end_of_sharing con tag (flood_check con tag s)) s"
proof -
  have "same_shape (end_of_sharing con tag r) r" for r
    by (simp add: end_of_sharing_def Let_def shape_simps)
  moreover have "same_shape (flood_check con tag s) s"
    by (simp add: flood_check_def Let_def shape_simps)
  ultimately show ?thesis by (rule same_shape_trans)
qed

lemma shape_class: "same_shape t s \<Longrightarrow> ISUNKNOWN d t = ISUNKNOWN d s \<and> ISUSER d t = ISUSER d s \<and> ISSERVER d t = ISSERVER d s"
  using layout_shape [of t s] by (intro classes_class) (simp add: layout_def)

lemma take_packet_keeps:
  assumes "fresh_env e" "kept D s" "con \<in> dom (s_conns s)" "\<not> (ISUNKNOWN con s \<and> tag \<notin> open_tags)"
    "take_packet e con tag pkt s = Some t"
  shows "kept D t"
proof (rule dispatch_keeps [OF assms(1) kept_shape [OF shape_before assms(2)] _ _ assms(5) [unfolded take_packet_def]])
  let ?r = "end_of_sharing con tag (flood_check con tag s)"
  show c: "con \<in> dom (s_conns ?r)" using assms(3) dom_shape [OF shape_before, of con tag s] by simp
  show "registered con ?r \<or> tag \<in> open_tags"
    using assms(4) c class_cases [of con ?r] shape_class [OF shape_before, of con con tag s] by (auto simp: registered_def)
qed

lemma packets_keeps:
  "packets e con buf s = Some (stop, rest, t) \<Longrightarrow> fresh_env e \<Longrightarrow> kept D s \<Longrightarrow> con \<in> D \<Longrightarrow> kept D t"
proof (induction e con buf s rule: packets.induct)
  case (1 e con buf s)
  show ?case
  proof (cases "split_packet buf")
    case None
    then show ?thesis using "1.prems" by (simp add: packets_done)
  next
    case (Some p)
    obtain tag pkt r where p: "p = (tag, pkt, r)" by (cases p) auto
    note S = Some [unfolded p]
    show ?thesis
    proof (cases "ISUNKNOWN con s \<and> tag \<notin> open_tags")
      case True
      then have t: "t = doom con (send_cmd con MSG_SERVER_ERROR ''invalid command'' s)"
        using "1.prems"(1) packets_stop [OF S] by simp
      have "same_shape t s" unfolding t by (simp add: doom_def shape_simps)
      then show ?thesis using "1.prems"(3) by (rule kept_shape)
    next
      case False
      then obtain q where q: "take_packet e con tag pkt s = Some q" "packets e con r q = Some (stop, rest, t)"
        using "1.prems"(1) packets_step [OF S False] by (auto split: option.splits)
      have "con \<in> dom (s_conns s)" using "1.prems"(3,4) by (auto simp: kept_def simp del: domIff)
      then have "kept D q" using take_packet_keeps [OF "1.prems"(2,3) _ False q(1)] by simp
      then show ?thesis using "1.IH" [OF S refl refl False q(1,2)] "1.prems"(2,4) by simp
    qed
  qed
qed

lemma handle_connection_keeps:
  assumes "fresh_env e" "kept D s" "con \<in> D" "handle_connection e inflate con sk s = Some (sk', t)"
  shows "kept D t"
proof -
  have u: "same_shape (upd_conn con (\<lambda>C. C\<lparr>c_recvbuf := b\<rparr>) q) q" "same_shape (doom con q) q" for b q
    by (simp_all add: doom_def shape_simps)
  obtain r buf k where r: "(if ISSERVER con s then read_server inflate (c_recvbuf (cnx s con)) sk
      else read_client (Max_Command_Length (s_cfg s)) (c_recvbuf (cnx s con)) sk) = (r, buf, k)"
    by (metis prod_cases3)
  let ?s = "upd_conn con (\<lambda>C. C\<lparr>c_recvbuf := buf\<rparr>) s"
  have k: "kept D ?s" by (rule kept_shape [OF u(1) assms(2)])
  show ?thesis
  proof (cases r)
    case Ready
    then obtain stop b q where "packets e con buf ?s = Some (stop, b, q)" "t = upd_conn con (\<lambda>C. C\<lparr>c_recvbuf := b\<rparr>) q"
      using assms(4) r by (auto simp: handle_connection_def split: option.splits)
    then show ?thesis using packets_keeps [OF _ assms(1) k assms(3)] kept_shape [OF u(1)] by blast
  next
    case Pause
    then show ?thesis using assms(4) r k by (simp add: handle_connection_def)
  next
    case Lost
    then have "t = doom con ?s" using assms(4) r by (simp add: handle_connection_def)
    then show ?thesis using kept_shape [OF u(2) k] by simp
  qed
qed

end
