(* ===== verification/Gate.thy ===== *)
theory Gate
  imports Reading Sample
begin

text \<open>
  What a connection that has not logged in can bring about, from its packets to its class; and the messages
  that a server forwards to the users of another one.
\<close>

section \<open>Commands before the login\<close>

lemma open_handlers:
  "filter (\<lambda>p. fst p \<in> open_tags) (Protocol e d) =
     [(MSG_CLIENT_LOGIN, partial (\<lambda>con tag pkt s. login (e_new_user e s) con tag pkt s)),
      (MSG_CLIENT_LOGIN_REGISTER, partial (\<lambda>con tag pkt s. login (e_new_user e s) con tag pkt s)),
      (MSG_CLIENT_REGISTER, total register_nick), (MSG_CLIENT_CHECK_PASS, partial check_password),
      (MSG_CLIENT_CHECK_PORT, total check_port), (MSG_SERVER_LOGIN, total (server_login e)),
      (MSG_SERVER_LOGIN_ACK, partial server_login_ack)]"
  by (simp add: Protocol_def open_tags_def)

lemma dispatch_at:
  assumes "(tag, h) \<in> set (Protocol e d)" "\<not> m_SigCaught (s_misc s)"
  shows "dispatch_with e d con tag pkt s = h con tag pkt s"
proof (cases rule: find_handler_cases [of e d tag s])
  case (found i)
  then show ?thesis using Protocol_at [OF found(2,3) assms(1)] by (simp add: dispatch_with_def Let_def)
next
  case missing
  then show ?thesis using assms by (force simp: image_iff)
qed

text \<open>Only the logins change more than output and the fields that the shape leaves out.\<close>

lemma open_packet:
  assumes "ISUNKNOWN con s" "tag \<in> open_tags" "take_packet e con tag pkt s = Some t"
  obtains "same_shape t s"
  | "tag = MSG_CLIENT_LOGIN \<or> tag = MSG_CLIENT_LOGIN_REGISTER" "login (e_new_user e s) con tag (cstring pkt) s = Some t"
  | "tag = MSG_SERVER_LOGIN_ACK" "server_login_ack con tag (cstring pkt) s = Some t"
proof -
  have "\<not> ISUSER con s" using assms(1) by (simp add: ISUNKNOWN_def ISUSER_def)
  then have "dispatch_with e (dispatch_with e refuses) con tag pkt s = Some t"
    using assms(3) by (simp add: take_packet_def flood_check_def end_of_sharing_def dispatch_command_def)
  then show thesis
  proof (cases rule: dispatch_cases)
    case 1
    then show thesis using that(1) same_shape_core by blast
  next
    case (2 h)
    then have "(tag, h) \<in> set (filter (\<lambda>p. fst p \<in> open_tags) (Protocol e (dispatch_with e refuses)))"
      using assms(2) by simp
    then show thesis
      using 2(2) that shape_login_commands shape_server_login
      unfolding open_handlers by (auto simp: total_def partial_def)
  qed
qed

lemma login_no_server:
  assumes k: "kept {con} s" and u: "ISUNKNOWN con s" and run: "login new con tag pkt s = Some t"
  shows "\<not> ISSERVER con t"
  using run
proof (cases rule: login_cases)
  case 1
  then show ?thesis using shape_class [of t s con] u by (simp add: ISUNKNOWN_def ISSERVER_def)
next
  case 2
  show ?thesis
  proof (rule login_user_enters [OF 2(2,3)])
    fix p q q' U
    assume p: "same_shape p s" and c: "login_collision con (get_args 10 (Some pkt)) p = (True, q)" and q: "same_core q' q"
      and t: "same_shape t (entered new U (if ISUNKNOWN con q' then seat con new q' else q'))"
    have kp: "kept {con} p" by (rule kept_shape [OF p k])
    have up: "ISUNKNOWN con p" using shape_class [OF p] u by simp
    have "\<not> ISUSER con p" using up by (simp add: ISUNKNOWN_def ISUSER_def)
    then have "classes q con = classes p con" using collision_vacant [OF _ _ c] kp by (simp add: vacant_def kept_def)
    then have cl: "classes q' con = classes p con" using layout_core [OF q] by (simp add: layout_def)
    have d: "con \<in> dom (s_conns p)" using kp by (simp add: kept_def)
    then have uq: "ISUNKNOWN con q'" using cl up by (auto simp: classes_def conn_shape_def ISUNKNOWN_def)
    have "ISUSER con (seat con new q')" using cl d by (auto simp: seat_def ISUSER_def classes_def)
    then have "ISUSER con t" using shape_class [OF t, of con] uq by (simp add: entered_def ISUSER_def)
    then show ?thesis by (simp add: ISUSER_def ISSERVER_def)
  qed
qed

lemma link_class: "con \<in> dom (s_conns s) \<Longrightarrow> link_server con s = Some t \<Longrightarrow> ISSERVER con t"
  unfolding link_server_def Let_def by (auto dest!: synch_only_output simp: only_output_def ISSERVER_def)

lemma ack_no_user:
  assumes "con \<in> dom (s_conns s)" "ISUNKNOWN con s" "server_login_ack con tag pkt s = Some t"
  shows "\<not> ISUSER con t"
proof (cases "same_shape t s")
  case True
  then show ?thesis using shape_class [OF True, of con] assms(2) by (simp add: ISUNKNOWN_def ISUSER_def)
next
  case False
  then have "link_server con s = Some t"
    using assms(3) by (auto simp: server_login_ack_def split: option.splits if_splits)
  then show ?thesis using link_class [OF assms(1)] by (simp add: ISUSER_def ISSERVER_def)
qed

text \<open>C33: A connection that has not logged in becomes a user only by one of the two logins, under the name that it
  gave.  If that name is registered, it was the plain login with the password of the registration; if not, the
  server accepts users without registration or the client asked for one.\<close>

theorem user_admitted:
  assumes "ISUNKNOWN con s" "tag \<in> open_tags" "take_packet e con tag pkt s = Some t" "ISUSER con t"
    "con \<in> dom (s_conns s)"
  shows "(\<exists>U. s_users t (e_new_user e s) = Some U \<and> u_nick U = get_args 10 (Some (cstring pkt)) ! 0 \<and> u_con U = con) \<and>
    (case hash_lookup (s_User_Db s) (get_args 10 (Some (cstring pkt)) ! 0) of
       Some d \<Rightarrow> tag = MSG_CLIENT_LOGIN \<and>
         check_pass (db_password (dbs s d)) (get_args 10 (Some (cstring pkt)) ! 1) = Some True
     | None \<Rightarrow> tag = MSG_CLIENT_LOGIN_REGISTER \<or> tag = MSG_CLIENT_LOGIN \<and> \<not> Registered_Only (s_cfg s))"
  using assms(1-3)
proof (cases rule: open_packet)
  case 1
  then show ?thesis using shape_class [of t s con] assms(1,4) by (simp add: ISUNKNOWN_def ISUSER_def)
next
  case 2
  then show ?thesis using login_authenticated [OF 2(1) assms(1) 2(2) assms(4)] by (auto split: option.splits)
next
  case 3
  then show ?thesis using ack_no_user [OF assms(5,1)] assms(4) by blast
qed

text \<open>C34: A connection that has not logged in becomes a server only by sending the digest of both nonces and the
  password that the file \<open>servers\<close> has for its host.\<close>

theorem server_admitted:
  assumes "ISUNKNOWN con s" "tag \<in> open_tags" "take_packet e con tag pkt s = Some t" "ISSERVER con t" "kept {con} s"
  shows "tag = MSG_SERVER_LOGIN_ACK \<and>
    (\<exists>nonce peernonce pass own. c_nonce (cnx s con) = Some nonce \<and> c_sendernonce (cnx s con) = Some peernonce \<and>
      get_server_pass (c_host (cnx s con)) s = Some (pass, own) \<and>
      (length nonce < 2 ^ 32 \<and> length peernonce < 2 ^ 32 \<and> length pass < 2 ^ 32 \<longrightarrow>
        cstring pkt = concat (map hex_pair (md5_digest (nonce @ peernonce @ pass)))))"
  using assms(1-3)
proof (cases rule: open_packet)
  case 1
  then show ?thesis using shape_class [of t s con] assms(1,4) by (simp add: ISUNKNOWN_def ISSERVER_def)
next
  case 2
  then show ?thesis using login_no_server [OF assms(5,1)] assms(4) by blast
next
  case 3
  then show ?thesis using server_needs_password [OF assms(1) 3(2) assms(4)] by simp
qed

text \<open>C35: Whatever else a connection sends before it has logged in, the answer is one error message, and the connection
  is marked to be closed; nothing of the command, and nothing behind it, is executed.\<close>

theorem stranger_refused:
  assumes "s_conns s con = Some C" "ISUNKNOWN con s" "tag \<notin> open_tags"
    and buf: "split_packet buf = Some (tag, pkt, rest)"
    and read: "read_client (Max_Command_Length (s_cfg s)) (c_recvbuf C) sk = (Ready, buf, sk')"
  shows "\<exists>t. handle_connection e inflate con sk s = Some (sk', t) \<and>
    t = upd_conn con (\<lambda>C. C\<lparr>c_recvbuf := buf, c_destroy := True\<rparr>) (send_cmd con MSG_SERVER_ERROR ''invalid command'' s)"
proof -
  let ?s = "upd_conn con (\<lambda>C. C\<lparr>c_recvbuf := buf\<rparr>) s"
  have "\<not> ISSERVER con s" "ISUNKNOWN con ?s" using assms(1,2) by (simp_all add: ISUNKNOWN_def ISSERVER_def)
  then have "handle_connection e inflate con sk s =
      Some (sk', upd_conn con (\<lambda>C. C\<lparr>c_recvbuf := buf\<rparr>) (doom con (send_cmd con MSG_SERVER_ERROR ''invalid command'' ?s)))"
    using assms(1) read packets_stop [OF buf _ assms(3), of con ?s e] by (simp add: handle_connection_def)
  moreover have "upd_conn con (\<lambda>C. C\<lparr>c_recvbuf := buf\<rparr>) (doom con (send_cmd con MSG_SERVER_ERROR ''invalid command'' ?s)) =
      upd_conn con (\<lambda>C. C\<lparr>c_recvbuf := buf, c_destroy := True\<rparr>) (send_cmd con MSG_SERVER_ERROR ''invalid command'' s)"
    using assms(1) by (simp add: doom_def upd_conn_def send_cmd_def queue_data_def emit_def fun_eq_iff)
  ultimately show ?thesis by simp
qed

section \<open>The order of the packets\<close>

text \<open>C36: The packets that are in the buffer are executed one after the other in the order in which they were sent, each
  with the number and the data it was sent with; what is left over is the beginning of the next packet.  The cut
  of the input into reads makes no difference.\<close>

theorem packets_in_order:
  assumes "list_all sendable ps" "split_packet tail = None"
  shows "packets e con (frames ps @ tail) s = map_option (\<lambda>(stop, qs, t). (stop, frames qs @ tail, t)) (serve e con ps s) \<and>
    packets e con (a @ b) s = (case packets e con a s of
        None \<Rightarrow> None
      | Some (stop, rest, t) \<Rightarrow> if stop then Some (True, rest @ b, t) else packets e con (rest @ b) t)"
  using packets_serve [OF assms] packets_append by blast

section \<open>Messages to the users of other servers\<close>

definition plain :: "string \<Rightarrow> bool" where
  "plain w \<longleftrightarrow> CHR '' '' \<notin> set w \<and> CHR 0x00 \<notin> set w"

lemma break_plain: "plain w \<Longrightarrow> break_at (\<lambda>c. c = CHR '' '') (w @ CHR '' '' # r) = (w, Some r)"
  by (rule break_at_Some) (auto simp: plain_def)

lemma cstring_plain:
  "plain n \<Longrightarrow> plain m \<Longrightarrow> cstring ('':'' @ n @ '' '' @ m @ '' '' @ r) = '':'' @ n @ '' '' @ m @ '' '' @ cstring r"
  by (auto simp: cstring_def plain_def takeWhile_append)

lemma drop_words: "drop (length n + length m + 3) (CHR '':'' # n @ CHR '' '' # m @ CHR '' '' # r) = r"
proof -
  have "length n + length m + 3 = Suc (length n + Suc (length m + Suc 0))" by simp
  then show ?thesis by (simp only: drop_Suc_Cons drop_append drop_all append_Nil) simp
qed

text \<open>C38: A message that one server encapsulates for a user of another arrives there as the very bytes that the user
  would get from its own server.\<close>

theorem encapsulated_delivery:
  assumes "s_users s u = Some U" "\<not> u_local U" "plain (Server_Name (s_cfg s))" "plain (u_nick U)" "tag < 65536"
    and fits: "length (Server_Name (s_cfg s)) + length (u_nick U) + length text < 2037"
    and there: "ISSERVER con t" "hash_lookup (s_Users t) (u_nick U) = Some v" "u_local (usr t v)"
  shows "\<exists>p q. send_user u tag text s = queue_data (u_con U) MSG_SERVER_ENCAPSULATED p s \<and>
    encapsulated con MSG_SERVER_ENCAPSULATED p t = queue_data (user_con t v) raw_tag q t \<and>
    frame_bytes raw_tag q = frame_bytes tag (form_message text)"
proof -
  let ?n = "Server_Name (s_cfg s)" and ?m = "u_nick U" and ?q = "set_val (length text) @ set_val tag @ text"
  let ?p = "'':'' @ ?n @ '' '' @ ?m @ '' '' @ ?q"
  have pre: "form_message text = text"
    using fits by (simp add: form_message_def snprintf_to_def)
  have "send_user u tag text s = queue_data (u_con U) MSG_SERVER_ENCAPSULATED ?p s"
    using assms(1,2) fits by (simp add: send_user_def Let_def form_message_def snprintf_to_def)
  moreover have "encapsulated con MSG_SERVER_ENCAPSULATED ?p t = queue_data (user_con t v) raw_tag ?q t"
    using there break_plain [OF assms(3)] break_plain [OF assms(4)] drop_words [of ?n ?m ?q]
    unfolding encapsulated_def cstring_plain [OF assms(3,4)] Let_def by simp
  moreover have "frame_bytes raw_tag ?q = frame_bytes tag (form_message text)"
    using assms(5) by (simp add: frame_bytes_def raw_tag_def pre)
  ultimately show ?thesis by blast
qed

definition carl_there :: srv where
  "carl_there = upd_user 2 (\<lambda>U. U\<lparr>u_local := True\<rparr>) sample"

theorem encapsulated_delivery_witness:
  "\<exists>p q. send_user 2 MSG_SERVER_NOSUCH ''hello'' sample = queue_data (user_con sample 2) MSG_SERVER_ENCAPSULATED p sample \<and>
    encapsulated 2 MSG_SERVER_ENCAPSULATED p carl_there = queue_data (user_con carl_there 2) raw_tag q carl_there \<and>
    frame_bytes raw_tag q = frame_bytes MSG_SERVER_NOSUCH (form_message ''hello'')"
  by (rule encapsulated_delivery [where U = "usr sample 2"])
    (simp_all add: sample_user_def sample_cfg_def plain_def carl_there_def ISSERVER_def sample_conn_def)

section \<open>Examples\<close>

definition sample_env :: env where
  "sample_env = \<lparr>e_new_user = (\<lambda>s. LEAST n. s_users s n = None), e_new_con = (\<lambda>s. LEAST n. s_conns s n = None),
     e_lookup_ip = (\<lambda>n. 0), e_tcp = (\<lambda>h p. None), e_usage = undefined, e_queued = (\<lambda>c. 0), e_version = ''1.0'',
     e_fd_setsize = 1024, e_sharedir = ''/etc'', e_fuel = 10, e_config_file = None, e_motd_file = None, e_filter_file = None\<rparr>"

definition newcomer :: srv where
  "newcomer = add_client 3 (fresh_conn ''h3'' 7 4000 8888 1000) sample"

lemma newcomer_login: "\<exists>t. login 3 3 MSG_CLIENT_LOGIN ''dave x 0 nap 3'' newcomer = Some t \<and> ISUSER 3 t"
proof -
  have av: "get_args 10 (Some ''dave x 0 nap 3'') = [''dave'', ''x'', ''0'', ''nap'', ''3'']"
    by code_simp
  have cl: "ISUNKNOWN 3 newcomer" "\<not> ISUSER 3 newcomer" "cnx newcomer 3 = fresh_conn ''h3'' 7 4000 8888 1000"
    "s_cfg newcomer = sample_cfg" "s_Bans newcomer = []" "hash_lookup (s_Users newcomer) ''dave'' = None"
    "hash_lookup (s_User_Db newcomer) ''dave'' = None" "m_Num_Clients (s_misc newcomer) = 4"
    by (simp_all add: newcomer_def add_client_def fresh_conn_def ISUNKNOWN_def ISUSER_def sample_def hash_lookup_stack
        hash_stack_add hash_invar_add strcaseeq_def char_eval)
  have nick: "\<not> invalid_nick newcomer ''dave''"
    by (simp add: invalid_nick_def bad_nick_chars_def cl sample_cfg_def strcaseeq_def char_eval)
  have ad: "admit 3 ''dave'' (login_host 3 [''dave'', ''x'', ''0'', ''nap'', ''3''] newcomer) None newcomer = (True, newcomer)"
    by (simp add: admit_def cl sample_cfg_def check_ban_def)
  have num: "atoi ''3'' = 3" "atoi ''0'' = 0" by code_simp+
  have "login_user 3 3 MSG_CLIENT_LOGIN [''dave'', ''x'', ''0'', ''nap'', ''3''] newcomer =
    Some (login_finish 3 3 [''dave'', ''x'', ''0'', ''nap'', ''3''] 0 3 (login_ip 3 [''dave'', ''x'', ''0'', ''nap'', ''3''] newcomer) None newcomer)"
    using ad by (simp add: login_user_def cl login_number_def num login_account_def sample_cfg_def login_collision_def)
  then have run: "login 3 3 MSG_CLIENT_LOGIN ''dave x 0 nap 3'' newcomer =
    Some (login_finish 3 3 [''dave'', ''x'', ''0'', ''nap'', ''3''] 0 3 (login_ip 3 [''dave'', ''x'', ''0'', ''nap'', ''3''] newcomer) None newcomer)"
    using cl nick by (simp add: login_def av Let_def)
  have "same_shape (login_finish 3 3 [''dave'', ''x'', ''0'', ''nap'', ''3''] 0 3 (login_ip 3 [''dave'', ''x'', ''0'', ''nap'', ''3''] newcomer) None newcomer)
    (entered 3 (fresh_user 3 [''dave'', ''x'', ''0'', ''nap'', ''3''] 0 3 (login_ip 3 [''dave'', ''x'', ''0'', ''nap'', ''3''] newcomer) True (s_time newcomer)
      (Server_Name (s_cfg newcomer)) (c_port (cnx newcomer 3)) newcomer) (seat 3 3 newcomer))"
    by (rule same_shape_trans [OF login_finish_enter login_enter_local [OF cl(1)]])
  from shape_class [OF this, of 3] have "ISUSER 3 (login_finish 3 3 [''dave'', ''x'', ''0'', ''nap'', ''3''] 0 3
      (login_ip 3 [''dave'', ''x'', ''0'', ''nap'', ''3''] newcomer) None newcomer)"
    by (simp add: entered_def seat_def ISUSER_def newcomer_def add_client_def)
  then show ?thesis using run by blast
qed

lemma least_free:
  fixes f :: "nat \<Rightarrow> 'a option"
  assumes "finite (dom f)"
  shows "f (LEAST n. f n = None) = None"
proof -
  have "\<exists>n. f n = None" using ex_new_if_finite [OF infinite_UNIV_nat assms] by auto
  then show ?thesis by (rule LeastI_ex)
qed

lemma sample_env_fresh: "fresh_env sample_env"
  by (simp add: fresh_env_def sample_env_def domIff least_free)

lemma newcomer_packet:
  "take_packet sample_env 3 MSG_CLIENT_LOGIN ''dave x 0 nap 3'' newcomer = login 3 3 MSG_CLIENT_LOGIN ''dave x 0 nap 3'' newcomer"
proof -
  have "(LEAST n. s_users newcomer n = None) = 3"
  proof (rule Least_equality)
    show "3 \<le> n" if "s_users newcomer n = None" for n
    proof (rule ccontr)
      assume "\<not> 3 \<le> n"
      then have "n = 0 \<or> n = 1 \<or> n = 2" by auto
      then show False using that by (auto simp: newcomer_def add_client_def)
    qed
  qed (simp add: newcomer_def add_client_def sample_def)
  then have new: "e_new_user sample_env newcomer = 3" by (simp add: sample_env_def)
  have "dispatch_command sample_env 3 MSG_CLIENT_LOGIN ''dave x 0 nap 3'' newcomer =
    partial (\<lambda>con tag pkt s. login (e_new_user sample_env s) con tag pkt s) 3 MSG_CLIENT_LOGIN ''dave x 0 nap 3'' newcomer"
    unfolding dispatch_command_def
    by (rule dispatch_at) (simp_all add: Protocol_def newcomer_def add_client_def sample_def)
  moreover have "\<not> ISUSER 3 newcomer" by (simp add: newcomer_def add_client_def fresh_conn_def ISUSER_def)
  ultimately show ?thesis
    by (simp add: take_packet_def flood_check_def end_of_sharing_def partial_def cstring_def new)
qed

theorem user_admitted_witness:
  "\<exists>t. take_packet sample_env 3 MSG_CLIENT_LOGIN ''dave x 0 nap 3'' newcomer = Some t \<and>
     (\<exists>U. s_users t (e_new_user sample_env newcomer) = Some U \<and> u_nick U = ''dave'' \<and> u_con U = 3)"
proof -
  obtain t where t: "take_packet sample_env 3 MSG_CLIENT_LOGIN ''dave x 0 nap 3'' newcomer = Some t" "ISUSER 3 t"
    using newcomer_login newcomer_packet by auto
  have "ISUNKNOWN 3 newcomer" "3 \<in> dom (s_conns newcomer)"
    by (simp_all add: newcomer_def add_client_def fresh_conn_def ISUNKNOWN_def)
  moreover have "MSG_CLIENT_LOGIN \<in> open_tags" by (simp add: open_tags_def)
  moreover have "get_args 10 (Some (cstring ''dave x 0 nap 3'')) ! 0 = ''dave''" by code_simp
  ultimately show ?thesis using user_admitted [OF _ _ t] t(1) by auto
qed

theorem stranger_refused_witness:
  "\<exists>t. handle_connection sample_env Some 3 \<lparr>sk_bytes = frame_bytes MSG_CLIENT_JOIN ''#den'', sk_end = Would_Block\<rparr> newcomer =
      Some (\<lparr>sk_bytes = [], sk_end = Would_Block\<rparr>, t) \<and>
    t = upd_conn 3 (\<lambda>C. C\<lparr>c_recvbuf := frame_bytes MSG_CLIENT_JOIN ''#den'', c_destroy := True\<rparr>)
      (send_cmd 3 MSG_SERVER_ERROR ''invalid command'' newcomer)"
proof (rule stranger_refused [where C = "fresh_conn ''h3'' 7 4000 8888 1000" and tag = MSG_CLIENT_JOIN and pkt = "''#den''" and rest = "[]"])
  show "s_conns newcomer 3 = Some (fresh_conn ''h3'' 7 4000 8888 1000)" "ISUNKNOWN 3 newcomer"
    by (simp_all add: newcomer_def add_client_def fresh_conn_def ISUNKNOWN_def)
  show "split_packet (frame_bytes MSG_CLIENT_JOIN ''#den'') = Some (MSG_CLIENT_JOIN, ''#den'', [])"
    using split_packet_frame [of MSG_CLIENT_JOIN "''#den''" "[]"] by simp
  have "read_client 2048 [] \<lparr>sk_bytes = frame_bytes MSG_CLIENT_JOIN ''#den'', sk_end = Would_Block\<rparr> =
      (Ready, frame_bytes MSG_CLIENT_JOIN ''#den'', \<lparr>sk_bytes = frame_bytes MSG_CLIENT_JOIN ''#den'', sk_end = Would_Block\<rparr>\<lparr>sk_bytes := []\<rparr>)"
    by (rule read_client_arrived) (simp_all add: within_def split_packet_def)
  then show "read_client (Max_Command_Length (s_cfg newcomer)) (c_recvbuf (fresh_conn ''h3'' 7 4000 8888 1000))
      \<lparr>sk_bytes = frame_bytes MSG_CLIENT_JOIN ''#den'', sk_end = Would_Block\<rparr> =
      (Ready, frame_bytes MSG_CLIENT_JOIN ''#den'', \<lparr>sk_bytes = [], sk_end = Would_Block\<rparr>)"
    by (simp add: fresh_conn_def newcomer_def add_client_def sample_cfg_def)
qed (simp add: open_tags_def)

theorem packets_in_order_witness:
  "\<forall>s a b. packets sample_env 1 (frames [(MSG_CLIENT_PART, ''#den''), (MSG_SERVER_STATS, [])] @ ''x'') s =
      map_option (\<lambda>(stop, qs, t). (stop, frames qs @ ''x'', t)) (serve sample_env 1 [(MSG_CLIENT_PART, ''#den''), (MSG_SERVER_STATS, [])] s) \<and>
    packets sample_env 1 (a @ b) s = (case packets sample_env 1 a s of
        None \<Rightarrow> None
      | Some (stop, rest, t) \<Rightarrow> if stop then Some (True, rest @ b, t) else packets sample_env 1 (rest @ b) t)"
  by (intro allI packets_in_order) (simp_all add: sendable_def split_packet_def)

theorem client_packet_witness:
  "handle_connection sample_env Some 1 \<lparr>sk_bytes = frame_bytes MSG_CLIENT_PART ''#den'' @ ''x'', sk_end = Would_Block\<rparr> sample =
    map_option (\<lambda>t. (\<lparr>sk_bytes = frame_bytes MSG_CLIENT_PART ''#den'' @ ''x'', sk_end = Would_Block\<rparr>\<lparr>sk_bytes := ''x''\<rparr>,
        upd_conn 1 (\<lambda>C. C\<lparr>c_recvbuf := []\<rparr>) t))
      (take_packet sample_env 1 MSG_CLIENT_PART ''#den'' (upd_conn 1 (\<lambda>C. C\<lparr>c_recvbuf := frame_bytes MSG_CLIENT_PART ''#den''\<rparr>) sample))"
  by (rule client_packet [where C = "sample_conn CLASS_USER 1 ''h1''"])
    (simp_all add: sample_conn_def within_def split_packet_def sample_cfg_def ISUNKNOWN_def)

text \<open>A server without users, and a peer in its handshake.\<close>

definition idle :: srv where
  "idle = sample\<lparr>s_users := Map.empty, s_chans := Map.empty, s_conns := Map.empty, s_Users := hash_init 7,
     s_Channels := hash_init 7, s_Servers := [], s_Clients := [], s_misc := (s_misc sample)\<lparr>m_Num_Clients := 0\<rparr>\<rparr>"

definition handshake :: srv where
  "handshake = add_client 0 ((fresh_conn ''peer'' 7 4000 8888 1000)\<lparr>c_server_login := True, c_nonce := Some ''a'',
      c_sendernonce := Some ''b''\<rparr>) (idle\<lparr>s_misc := (s_misc idle)\<lparr>m_servers := Some [''peer secret'']\<rparr>\<rparr>)"

lemma cstring_challenge:
  assumes "length a < 2 ^ 32" "length b < 2 ^ 32" "length p < 2 ^ 32"
  shows "cstring (challenge a b p) = challenge a b p"
proof -
  have "list_all (\<lambda>n. hex_digit n \<noteq> CHR 0x00) [0..<16]" by code_simp
  then have "hex_digit n \<noteq> CHR 0x00" if "n < 16" for n using that by (simp add: list_all_iff)
  moreover have "code c div 16 < 16" for c
    using code_less_256 [of c] by (simp add: less_mult_imp_div_less)
  ultimately have "\<forall>c \<in> set (concat (map hex_pair bs)). c \<noteq> CHR 0x00" for bs by (auto simp: hex_pair_def)
  then have "takeWhile (\<lambda>c. c \<noteq> CHR 0x00) (concat (map hex_pair bs)) = concat (map hex_pair bs)" for bs
    by (simp add: takeWhile_eq_all_conv)
  then show ?thesis unfolding challenge_digest [OF assms] cstring_def .
qed

lemma idle_kept: "kept {} idle"
proof -
  have "wf idle"
  proof (rule wf_uptoI)
    show "links_ok {} idle" by (rule links_okI) (simp_all add: idle_def memb_def inviting_def inch_def invd_def)
    show "chan_table_ok idle" by (rule chan_table_okI) (simp_all add: idle_def)
    show "user_table_ok {} idle" by (rule user_table_okI) (simp_all add: idle_def)
    show "conn_ok {} idle" by (rule conn_okI) (simp_all add: idle_def)
  qed
  then show ?thesis by (simp add: kept_def seated_def enrolled_def clients_def idle_def)
qed

lemma handshake_kept: "kept {0} handshake"
proof -
  let ?r = "idle\<lparr>s_misc := (s_misc idle)\<lparr>m_servers := Some [''peer secret'']\<rparr>\<rparr>"
  have "kept {} ?r" by (rule kept_shape [OF _ idle_kept]) simp
  then show ?thesis
    unfolding handshake_def using wf_add_client [of ?r 0] enrolled_add [of ?r 0]
    by (auto simp: kept_def fresh_conn_def) (auto simp: add_client_def idle_def)
qed

theorem server_admitted_witness:
  "\<exists>t nonce peernonce pass own.
     take_packet sample_env 0 MSG_SERVER_LOGIN_ACK (challenge ''a'' ''b'' ''secret'') handshake = Some t \<and> ISSERVER 0 t \<and>
     c_nonce (cnx handshake 0) = Some nonce \<and> c_sendernonce (cnx handshake 0) = Some peernonce \<and>
     get_server_pass ''peer'' handshake = Some (pass, own)"
proof -
  have C: "s_conns handshake 0 = Some ((fresh_conn ''peer'' 7 4000 8888 1000)\<lparr>c_server_login := True, c_nonce := Some ''a'',
      c_sendernonce := Some ''b''\<rparr>)"
    by (simp add: handshake_def add_client_def)
  have u: "ISUNKNOWN 0 handshake" by (simp add: ISUNKNOWN_def C fresh_conn_def)
  have f: "find_pass ''peer'' ''opensource'' [''peer secret''] = Some (''secret'', ''opensource'')"
  proof -
    have "get_args 3 (Some ''peer secret'') = [''peer'', ''secret'']" by code_simp
    then show ?thesis unfolding find_pass.simps Let_def by (simp add: strcaseeq_def)
  qed
  have p: "get_server_pass ''peer'' handshake = Some (''secret'', ''opensource'')"
    by (simp add: get_server_pass_def handshake_def idle_def add_client_def sample_cfg_def f del: find_pass.simps)
  obtain t where t: "link_server 0 handshake = Some t" "ISSERVER 0 t"
  proof -
    have "synch_server 0 r \<noteq> None" if "s_Users r = hash_init 7" for r
    proof -
      have "only_output (sync_server_list 0 r) r" by (simp add: only_output_parts)
      then have "s_Users (sync_server_list 0 r) = hash_init 7" using that by (auto simp: only_output_def)
      then show ?thesis by (simp add: synch_server_def sync_users_def hash_foreach_def hash_init_def)
    qed
    moreover have "s_Users handshake = hash_init 7" by (simp add: handshake_def idle_def add_client_def)
    ultimately have "link_server 0 handshake \<noteq> None" unfolding link_server_def Let_def by simp
    then obtain t where "link_server 0 handshake = Some t" by blast
    then show thesis using that link_class [of 0 handshake t] C by blast
  qed
  have "dispatch_command sample_env 0 MSG_SERVER_LOGIN_ACK (challenge ''a'' ''b'' ''secret'') handshake =
    partial server_login_ack 0 MSG_SERVER_LOGIN_ACK (challenge ''a'' ''b'' ''secret'') handshake"
    unfolding dispatch_command_def
    by (rule dispatch_at) (simp_all add: Protocol_def handshake_def idle_def add_client_def sample_def)
  moreover have "server_login_ack 0 MSG_SERVER_LOGIN_ACK (challenge ''a'' ''b'' ''secret'') handshake = Some t"
    using u p t C by (simp add: server_login_ack_def fresh_conn_def)
  moreover have "\<not> ISUSER 0 handshake" using u by (simp add: ISUSER_def ISUNKNOWN_def)
  ultimately have run: "take_packet sample_env 0 MSG_SERVER_LOGIN_ACK (challenge ''a'' ''b'' ''secret'') handshake = Some t"
    by (simp add: take_packet_def flood_check_def end_of_sharing_def partial_def cstring_challenge)
  have "MSG_SERVER_LOGIN_ACK \<in> open_tags" by (simp add: open_tags_def)
  from server_admitted [OF u this run t(2) handshake_kept] show ?thesis using run t(2) C by (auto simp: fresh_conn_def)
qed

end
