(* ===== verification/Spec2Isabelle.thy ===== *)
theory Spec2Isabelle
  imports Prelude Glob CHash Text State Membership Sample Leave Bans Join ChanOps Public Md5 Passwd Tables Accounts Private Hotlists Links Searches Connections Buffers Timers Shapes Change Queries Sharing Searching Browse Finding FileIndex SharedFiles Synch Login Servers Config Seats Staying Enrolled Admission Dispatch Commands Reading Gate
begin

text \<open>
  opennap: a verification development for the server of the same name.
\<close>

end
